(* ===== verification/Prelude.thy ===== *)
theory Prelude
  imports Main "HOL-Library.Word" "HOL-Library.Sublist"
begin

text \<open>
  Shared vocabulary of the development: the machine types, results with an error side, and
  generic list lemmas (writes into a buffer, splitting a stream) that several components use.

  The development's lemma collections:
  \<^item> \<open>result_simps\<close>: evaluation of the result combinators;
  \<^item> \<open>codec_simps\<close>: lengths and round trips of the fixed width byte codecs;
  \<^item> \<open>frame_simps\<close>: facts about the protocol frames.
\<close>

named_theorems result_simps "evaluation of results with an error side"
named_theorems codec_simps "lengths and round trips of the byte codecs"
named_theorems frame_simps "facts about the protocol frames"

section \<open>Machine types\<close>

text \<open>\<open>uint8_t\<close>, \<open>uint16_t\<close>, \<open>uint32_t\<close> and \<open>uint64_t\<close> of the source.\<close>

type_synonym u8 = "8 word"
type_synonym u16 = "16 word"
type_synonym u32 = "32 word"
type_synonym u64 = "64 word"
type_synonym bytes = "u8 list"

section \<open>Results\<close>

text \<open>
  An operation that may throw returns \<open>Inl\<close> of what it throws or \<open>Inr\<close> of its value.
  \<open>and_then\<close> runs the rest of the function only when the first part returned.
\<close>

definition and_then :: "'e + 'a \<Rightarrow> ('a \<Rightarrow> 'e + 'b) \<Rightarrow> 'e + 'b" where
  "and_then m k = (case m of Inl e \<Rightarrow> Inl e | Inr a \<Rightarrow> k a)"

lemma and_then_simps [simp, result_simps]:
  "and_then (Inl e) k = Inl e"
  "and_then (Inr a) k = k a"
  by (simp_all add: and_then_def)

lemma and_then_eq_Inr: "and_then m k = Inr b \<longleftrightarrow> (\<exists>a. m = Inr a \<and> k a = Inr b)"
  by (cases m) auto

lemma and_then_eq_Inl: "and_then m k = Inl e \<longleftrightarrow> m = Inl e \<or> (\<exists>a. m = Inr a \<and> k a = Inl e)"
  by (cases m) auto

lemma and_then_cong [fundef_cong]:
  "m = m' \<Longrightarrow> (\<And>a. m' = Inr a \<Longrightarrow> k a = k' a) \<Longrightarrow> and_then m k = and_then m' k'"
  by (cases m') auto

text \<open>A guard that throws: \<open>if (bad) throw e;\<close>.\<close>

definition throw_if :: "bool \<Rightarrow> 'e \<Rightarrow> 'e + unit" where
  "throw_if b e = (if b then Inl e else Inr ())"

lemma throw_if_simps [simp, result_simps]:
  "throw_if True e = Inl e"
  "throw_if False e = Inr ()"
  by (simp_all add: throw_if_def)

lemma throw_if_eq_Inr [simp]: "throw_if b e = Inr u \<longleftrightarrow> \<not> b"
  by (simp add: throw_if_def)

lemma throw_if_eq_Inl [simp]: "throw_if b e = Inl e' \<longleftrightarrow> b \<and> e' = e"
  by (auto simp: throw_if_def)

text \<open>A loop over a container whose body may throw, collecting the results in order.\<close>

fun map_result :: "('a \<Rightarrow> 'e + 'b) \<Rightarrow> 'a list \<Rightarrow> 'e + 'b list" where
  "map_result f [] = Inr []"
| "map_result f (x # xs) =
     and_then (f x) (\<lambda>y. and_then (map_result f xs) (\<lambda>ys. Inr (y # ys)))"

lemma map_result_Inr:
  "map_result f xs = Inr ys \<longleftrightarrow> list_all2 (\<lambda>x y. f x = Inr y) xs ys"
  by (induction xs arbitrary: ys) (auto simp: and_then_eq_Inr list_all2_Cons1)

lemma map_result_Inl:
  "map_result f xs = Inl e \<Longrightarrow> \<exists>x \<in> set xs. f x = Inl e"
  by (induction xs) (auto simp: and_then_eq_Inl)

section \<open>Buffers\<close>

text \<open>
  \<open>write_at off bs buf\<close> is a write of \<open>bs\<close> into the object \<open>buf\<close> from offset \<open>off\<close>. It is
  \<open>None\<close> when the write would leave the object, which C++ leaves undefined.
\<close>

definition write_at :: "nat \<Rightarrow> 'a list \<Rightarrow> 'a list \<Rightarrow> 'a list option" where
  "write_at off bs buf =
     (if off + length bs \<le> length buf
      then Some (take off buf @ bs @ drop (off + length bs) buf) else None)"

lemma write_at_None [simp]: "write_at off bs buf = None \<longleftrightarrow> length buf < off + length bs"
  by (auto simp: write_at_def)

lemma write_at_Some:
  "off + length bs \<le> length buf \<Longrightarrow>
   write_at off bs buf = Some (take off buf @ bs @ drop (off + length bs) buf)"
  by (simp add: write_at_def)

lemma write_at_length: "write_at off bs buf = Some buf' \<Longrightarrow> length buf' = length buf"
  by (auto simp: write_at_def split: if_splits)

lemma write_at_prefix:
  assumes "write_at off bs buf = Some buf'"
  shows "take (off + length bs) buf' = take off buf @ bs"
  using assms by (auto simp: write_at_def split: if_splits)

lemma write_at_before: "write_at off bs buf = Some buf' \<Longrightarrow> take off buf' = take off buf"
  by (auto simp: write_at_def split: if_splits)

section \<open>Lists\<close>

lemma take_min_length: "take (min k (length xs)) xs = take k xs"
  by (simp add: min_def)

lemma prefix_imp_take_eq:
  "prefix ps xs \<Longrightarrow> n \<le> length ps \<Longrightarrow> take n xs = take n ps"
  by (auto simp: prefix_def)

lemma take_append_take_drop: "take a xs @ take b (drop a xs) = take (a + b) xs"
  by (simp add: take_add)

lemma take_le_eq: "take n xs = take n ys \<Longrightarrow> m \<le> n \<Longrightarrow> take m xs = take m ys"
  by (metis min.absorb1 take_take)

lemma nth_of_take_eq: "take n xs = take n ys \<Longrightarrow> i < n \<Longrightarrow> xs ! i = ys ! i"
  by (metis nth_take)

section \<open>Machines\<close>

text \<open>A run of a machine whose steps may be impossible.\<close>

fun run_steps :: "('c \<Rightarrow> 's \<Rightarrow> 's option) \<Rightarrow> 'c list \<Rightarrow> 's \<Rightarrow> 's option" where
  "run_steps step [] s = Some s"
| "run_steps step (c # cs) s = (case step c s of None \<Rightarrow> None | Some s' \<Rightarrow> run_steps step cs s')"

lemma run_steps_append:
  "run_steps step (cs @ cs') s = (case run_steps step cs s of None \<Rightarrow> None | Some s' \<Rightarrow> run_steps step cs' s')"
  by (induction cs arbitrary: s) (auto split: option.splits)

text \<open>An invariant: what every admissible step of a machine keeps is kept by every run.\<close>

locale step_invariant =
  fixes step :: "'c \<Rightarrow> 's \<Rightarrow> 's option"
    and admissible :: "'c \<Rightarrow> bool"
    and inv :: "'s \<Rightarrow> bool"
  assumes step_keeps: "step c s = Some s' \<Longrightarrow> admissible c \<Longrightarrow> inv s \<Longrightarrow> inv s'"
begin

lemma run_keeps: "run_steps step cs s = Some s' \<Longrightarrow> list_all admissible cs \<Longrightarrow> inv s \<Longrightarrow> inv s'"
proof (induction cs arbitrary: s)
  case (Cons c cs)
  then show ?case
    using step_keeps by (auto split: option.splits)
qed simp

end

section \<open>Streams of encoded values\<close>

text \<open>
  A code whose words are read one after the other from the front of a stream: the reader of a whole stream
  finds every value that was written, in order.
\<close>

locale stream_code =
  fixes ok :: "'a \<Rightarrow> bool"
    and enc :: "'a \<Rightarrow> 'b list"
    and read :: "'b list \<Rightarrow> 'a list option"
  assumes read_nil: "read [] = Some []"
    and read_enc: "ok x \<Longrightarrow> read (enc x @ rest) = map_option ((#) x) (read rest)"
begin

lemma read_append: "list_all ok xs \<Longrightarrow> read (concat (map enc xs) @ rest) = map_option ((@) xs) (read rest)"
proof (induction xs)
  case Nil
  then show ?case
    by (cases "read rest") simp_all
next
  case (Cons x xs)
  then show ?case
    by (cases "read rest") (simp_all add: read_enc)
qed

lemma read_all: "list_all ok xs \<Longrightarrow> read (concat (map enc xs)) = Some xs"
  using read_append [of xs "[]"] by (simp add: read_nil)

text \<open>So a stream has one reading.\<close>

lemma stream_inject:
  "list_all ok xs \<Longrightarrow> list_all ok ys \<Longrightarrow> concat (map enc xs) = concat (map enc ys) \<Longrightarrow> xs = ys"
  by (metis option.inject read_all)

end

end
