(* ===== verification/Protocol.thy ===== *)
theory Protocol
  imports Prelude
begin

text \<open>
  \<open>src/src/Protocol.h\<close>: the DTEP packet as the packed struct \<open>TunnelPacket\<close>, its memory image
  and the number of bytes of it that are sent. The struct is sent as it lies in memory, so its
  multi-byte fields have the byte order of the machine: that order is a parameter.
\<close>

section \<open>Memory images of unsigned integers\<close>

datatype byte_order = Little | Big

fun enc_le :: "nat \<Rightarrow> nat \<Rightarrow> bytes" where
  "enc_le 0 x = []"
| "enc_le (Suc n) x = word_of_nat x # enc_le n (x div 256)"

fun dec_le :: "bytes \<Rightarrow> nat" where
  "dec_le [] = 0"
| "dec_le (b # bs) = unat b + 256 * dec_le bs"

lemma length_enc_le [simp, codec_simps]: "length (enc_le n x) = n"
  by (induction n arbitrary: x) auto

lemma dec_enc_le [codec_simps]: "dec_le (enc_le n x) = x mod 256 ^ n"
proof (induction n arbitrary: x)
  case (Suc n)
  have "unat (word_of_nat x :: u8) = x mod 256"
    by (simp add: unat_of_nat)
  with Suc show ?case
    by (simp add: mod_mult2_eq algebra_simps)
qed simp

lemma dec_le_bound: "dec_le bs < 256 ^ length bs"
proof (induction bs)
  case (Cons b bs)
  have "unat b < 256"
    using unsigned_less [of b] by simp
  moreover have "256 * dec_le bs + 256 \<le> 256 * 256 ^ length bs"
    using Cons by simp
  ultimately show ?case by simp
qed simp

lemma enc_dec_le: "enc_le (length bs) (dec_le bs) = bs"
proof (induction bs)
  case (Cons b bs)
  have "unat b < 256"
    using unsigned_less [of b] by simp
  then have "(unat b + 256 * dec_le bs) div 256 = dec_le bs"
    by simp
  moreover have "(word_of_nat (unat b + 256 * dec_le bs) :: u8) = b"
  proof -
    have z: "(256 :: u8) = 0"
      by simp
    show ?thesis
      by (simp add: z)
  qed
  ultimately show ?case
    using Cons by (simp del: of_nat_add of_nat_mult)
qed simp

text \<open>The bytes an \<open>n\<close> byte integer has in memory, and the integer read from them.\<close>

definition store :: "byte_order \<Rightarrow> nat \<Rightarrow> 'a::len word \<Rightarrow> bytes" where
  "store ord n w = (if ord = Little then enc_le n (unat w) else rev (enc_le n (unat w)))"

definition load :: "byte_order \<Rightarrow> bytes \<Rightarrow> 'a::len word" where
  "load ord bs = word_of_nat (dec_le (if ord = Little then bs else rev bs))"

lemma length_store [simp, codec_simps]: "length (store ord n w) = n"
  by (simp add: store_def)

lemma load_store [simp, codec_simps]:
  fixes w :: "'a::len word"
  assumes "8 * n = LENGTH('a)"
  shows "load ord (store ord n w) = w"
proof -
  have "(256::nat) ^ n = 2 ^ LENGTH('a)"
    by (simp add: assms [symmetric] power_mult)
  then have "dec_le (enc_le n (unat w)) = unat w"
    by (simp add: dec_enc_le)
  then show ?thesis
    by (simp add: load_def store_def)
qed

lemma store_load:
  assumes "8 * length bs = LENGTH('a::len)" and "n = length bs"
  shows "store ord n (load ord bs :: 'a word) = bs"
proof -
  let ?bs = "if ord = Little then bs else rev bs"
  have "(256::nat) ^ length ?bs = 2 ^ LENGTH('a)"
    by (simp add: assms(1) [symmetric] power_mult)
  then have "unat (word_of_nat (dec_le ?bs) :: 'a word) = dec_le ?bs"
    using dec_le_bound [of ?bs] by (simp add: unat_of_nat)
  moreover have "enc_le n (dec_le ?bs) = ?bs"
    using enc_dec_le [of ?bs] assms(2) by (simp split: if_splits)
  ultimately show ?thesis
    by (auto simp: store_def load_def)
qed

text \<open>
  \<open>htons\<close> and \<open>ntohs\<close>: the value whose bytes in memory are the argument's in network order, and
  back.
\<close>

definition htons :: "byte_order \<Rightarrow> u16 \<Rightarrow> u16" where
  "htons ord w = load ord (store Big 2 w)"

definition ntohs :: "byte_order \<Rightarrow> u16 \<Rightarrow> u16" where
  "ntohs ord w = load Big (store ord 2 w)"

lemma ntohs_htons [simp, codec_simps]: "ntohs ord (htons ord w) = w"
  by (simp add: ntohs_def htons_def store_load)

section \<open>The packet\<close>

definition kMaxDatagramLength :: nat where "kMaxDatagramLength = 1472"
definition kTunnelPacketPreambleLength :: nat where "kTunnelPacketPreambleLength = 2"
definition kTunnelPacketHeaderLength :: nat where "kTunnelPacketHeaderLength = 18"
definition kDtepProtocolVersion :: u8 where "kDtepProtocolVersion = 2"

text \<open>
  \<open>enum class TunnelPacketType : uint8_t\<close>. A byte read from the network may be neither of them, so
  the type field is the byte itself.
\<close>

definition Heartbeat :: u8 where "Heartbeat = 0"
definition Datagram :: u8 where "Datagram = 1"

lemmas protocol_constants [frame_simps] =
  kMaxDatagramLength_def kTunnelPacketPreambleLength_def kTunnelPacketHeaderLength_def
  kDtepProtocolVersion_def Heartbeat_def Datagram_def

record tunnel_packet =
  pkt_type :: u8
  pkt_protocol_version :: u8
  pkt_udp_dst_ip :: u32
  pkt_udp_dst_port :: u16
  pkt_datalen :: u16
  pkt_client_timestamp_us :: u64
  pkt_databuf :: bytes

text \<open>\<open>TunnelPacket {}\<close>: every member zero.\<close>

definition zero_packet :: tunnel_packet where
  "zero_packet = \<lparr>pkt_type = 0, pkt_protocol_version = 0, pkt_udp_dst_ip = 0, pkt_udp_dst_port = 0,
     pkt_datalen = 0, pkt_client_timestamp_us = 0, pkt_databuf = replicate kMaxDatagramLength 0\<rparr>"

text \<open>\<open>TunnelPacket::size()\<close>.\<close>

definition packet_size :: "tunnel_packet \<Rightarrow> nat" where
  "packet_size pkt =
     (if pkt_type pkt = Heartbeat then kTunnelPacketPreambleLength
      else unat (pkt_datalen pkt) + kTunnelPacketHeaderLength)"

text \<open>\<open>sizeof(TunnelPacket)\<close>, which the source asserts to be 1490.\<close>

definition sizeof_TunnelPacket :: nat where
  "sizeof_TunnelPacket = 1 + 1 + 4 + 2 + 2 + 8 + kMaxDatagramLength"

text \<open>The memory image of the packed struct, and the struct read from an image.\<close>

definition header_image :: "byte_order \<Rightarrow> tunnel_packet \<Rightarrow> bytes" where
  "header_image ord pkt =
     [pkt_type pkt, pkt_protocol_version pkt] @ store ord 4 (pkt_udp_dst_ip pkt) @
     store ord 2 (pkt_udp_dst_port pkt) @ store ord 2 (pkt_datalen pkt) @
     store ord 8 (pkt_client_timestamp_us pkt)"

definition packet_image :: "byte_order \<Rightarrow> tunnel_packet \<Rightarrow> bytes" where
  "packet_image ord pkt = header_image ord pkt @ pkt_databuf pkt"

definition field_at :: "nat \<Rightarrow> nat \<Rightarrow> bytes \<Rightarrow> bytes" where
  "field_at off n buf = take n (drop off buf)"

definition packet_of_image :: "byte_order \<Rightarrow> bytes \<Rightarrow> tunnel_packet" where
  "packet_of_image ord buf =
     \<lparr>pkt_type = buf ! 0, pkt_protocol_version = buf ! 1,
      pkt_udp_dst_ip = load ord (field_at 2 4 buf),
      pkt_udp_dst_port = load ord (field_at 6 2 buf),
      pkt_datalen = load ord (field_at 8 2 buf),
      pkt_client_timestamp_us = load ord (field_at 10 8 buf),
      pkt_databuf = drop 18 buf\<rparr>"

lemma length_header_image [simp, codec_simps]: "length (header_image ord pkt) = 18"
  by (simp add: header_image_def)

lemma length_packet_image [simp, codec_simps]:
  "length (packet_image ord pkt) = 18 + length (pkt_databuf pkt)"
  by (simp add: packet_image_def)

lemma sizeof_packet [frame_simps]: "sizeof_TunnelPacket = 1490"
  by (simp add: sizeof_TunnelPacket_def kMaxDatagramLength_def)

section \<open>Frames\<close>

text \<open>The bytes of the packet that are sent: \<open>size()\<close> bytes from its address.\<close>

definition frame_bytes :: "byte_order \<Rightarrow> tunnel_packet \<Rightarrow> bytes" where
  "frame_bytes ord pkt = take (packet_size pkt) (packet_image ord pkt)"

lemma field_at_agree:
  "take (off + n) buf = take (off + n) buf' \<Longrightarrow> field_at off n buf = field_at off n buf'"
  by (metis field_at_def take_drop add.commute)

lemma field_at_header [frame_simps]:
  "field_at 2 4 (header_image ord pkt) = store ord 4 (pkt_udp_dst_ip pkt)"
  "field_at 6 2 (header_image ord pkt) = store ord 2 (pkt_udp_dst_port pkt)"
  "field_at 8 2 (header_image ord pkt) = store ord 2 (pkt_datalen pkt)"
  "field_at 10 8 (header_image ord pkt) = store ord 8 (pkt_client_timestamp_us pkt)"
  by (simp_all add: header_image_def field_at_def)

lemma header_image_nth [frame_simps]:
  "header_image ord pkt ! 0 = pkt_type pkt"
  "header_image ord pkt ! Suc 0 = pkt_protocol_version pkt"
  by (simp_all add: header_image_def)

text \<open>
  What can be read from a buffer that holds the beginning of a packet: the first two bytes are
  the preamble, the first eighteen are the header.
\<close>

lemma preamble_fields:
  assumes "take 2 buf = take 2 (header_image ord pkt)"
  shows "pkt_type (packet_of_image ord' buf) = pkt_type pkt"
    and "pkt_protocol_version (packet_of_image ord' buf) = pkt_protocol_version pkt"
  using nth_of_take_eq [OF assms, of 0] nth_of_take_eq [OF assms, of 1]
  by (simp_all add: packet_of_image_def header_image_nth)

lemma header_fields:
  assumes "take 18 buf = header_image ord pkt"
  shows "packet_of_image ord buf = pkt\<lparr>pkt_databuf := drop 18 buf\<rparr>"
proof -
  have t: "take n buf = take n (header_image ord pkt)" if "n \<le> 18" for n
    by (metis assms that min.absorb1 take_take)
  have pre: "pkt_type (packet_of_image ord buf) = pkt_type pkt"
    "pkt_protocol_version (packet_of_image ord buf) = pkt_protocol_version pkt"
    by (rule preamble_fields [OF t], simp)+
  have "field_at 2 4 buf = field_at 2 4 (header_image ord pkt)"
    "field_at 6 2 buf = field_at 6 2 (header_image ord pkt)"
    "field_at 8 2 buf = field_at 8 2 (header_image ord pkt)"
    "field_at 10 8 buf = field_at 10 8 (header_image ord pkt)"
    by (rule field_at_agree, rule t, simp)+
  with pre show ?thesis
    by (simp add: packet_of_image_def field_at_header)
qed

lemma packet_round_trip [frame_simps]:
  "packet_of_image ord (packet_image ord pkt) = pkt"
  by (subst header_fields [of _ _ pkt]) (simp_all add: packet_image_def)

lemma frame_bytes_heartbeat [frame_simps]:
  "pkt_type pkt = Heartbeat \<Longrightarrow> frame_bytes ord pkt = [Heartbeat, pkt_protocol_version pkt]"
  by (simp add: frame_bytes_def packet_image_def header_image_def packet_size_def
      kTunnelPacketPreambleLength_def)

lemma frame_bytes_datagram [frame_simps]:
  "pkt_type pkt \<noteq> Heartbeat \<Longrightarrow>
   frame_bytes ord pkt = header_image ord pkt @ take (unat (pkt_datalen pkt)) (pkt_databuf pkt)"
  by (simp add: frame_bytes_def packet_image_def packet_size_def kTunnelPacketHeaderLength_def)

lemma length_frame_bytes [frame_simps]:
  "length (pkt_databuf pkt) = kMaxDatagramLength \<Longrightarrow> unat (pkt_datalen pkt) \<le> kMaxDatagramLength \<Longrightarrow>
   length (frame_bytes ord pkt) = packet_size pkt"
  by (simp add: frame_bytes_def packet_size_def protocol_constants)

section \<open>The frames of a stream\<close>

text \<open>
  The protocol as a sequence of frames: a heartbeat, or a datagram with the client's timestamp. All
  datagrams of a stream carry the group the client joined.
\<close>

datatype frame = Frame_heartbeat | Frame_datagram bytes u64

definition datagram_header :: "u32 \<Rightarrow> u16 \<Rightarrow> bytes \<Rightarrow> u64 \<Rightarrow> tunnel_packet" where
  "datagram_header ip port payload timestamp_us =
     \<lparr>pkt_type = Datagram, pkt_protocol_version = kDtepProtocolVersion, pkt_udp_dst_ip = ip,
      pkt_udp_dst_port = port, pkt_datalen = of_nat (length payload),
      pkt_client_timestamp_us = timestamp_us, pkt_databuf = payload\<rparr>"

fun encode_frame :: "byte_order \<Rightarrow> u32 \<Rightarrow> u16 \<Rightarrow> frame \<Rightarrow> bytes" where
  "encode_frame ord ip port Frame_heartbeat = [Heartbeat, kDtepProtocolVersion]"
| "encode_frame ord ip port (Frame_datagram payload timestamp_us) =
     header_image ord (datagram_header ip port payload timestamp_us) @ payload"

fun frame_fits :: "frame \<Rightarrow> bool" where
  "frame_fits Frame_heartbeat = True"
| "frame_fits (Frame_datagram payload timestamp_us) = (length payload \<le> kMaxDatagramLength)"

text \<open>The length field can hold more than the buffer does.\<close>

fun frame_representable :: "frame \<Rightarrow> bool" where
  "frame_representable Frame_heartbeat = True"
| "frame_representable (Frame_datagram payload timestamp_us) = (length payload < 2 ^ 16)"

lemma frame_fits_representable: "frame_fits f \<Longrightarrow> frame_representable f"
  by (cases f) (simp_all add: kMaxDatagramLength_def)

definition encode_frames :: "byte_order \<Rightarrow> u32 \<Rightarrow> u16 \<Rightarrow> frame list \<Rightarrow> bytes" where
  "encode_frames ord ip port fs = concat (map (encode_frame ord ip port) fs)"

lemma encode_frames_simps [simp]:
  "encode_frames ord ip port [] = []"
  "encode_frames ord ip port (f # fs) = encode_frame ord ip port f @ encode_frames ord ip port fs"
  "encode_frames ord ip port (fs @ gs) = encode_frames ord ip port fs @ encode_frames ord ip port gs"
  by (simp_all add: encode_frames_def)

lemma length_encode_frame [frame_simps]:
  "length (encode_frame ord ip port f) =
     (case f of Frame_heartbeat \<Rightarrow> 2 | Frame_datagram payload _ \<Rightarrow> 18 + length payload)"
  by (cases f) simp_all

lemma header_image_cong:
  assumes "pkt_type p = pkt_type q" "pkt_protocol_version p = pkt_protocol_version q"
    "pkt_udp_dst_ip p = pkt_udp_dst_ip q" "pkt_udp_dst_port p = pkt_udp_dst_port q"
    "pkt_datalen p = pkt_datalen q" "pkt_client_timestamp_us p = pkt_client_timestamp_us q"
  shows "header_image ord p = header_image ord q"
  using assms by (simp add: header_image_def)

lemma unat_length_u16 [simp]:
  "length xs \<le> kMaxDatagramLength \<Longrightarrow> unat (of_nat (length xs) :: u16) = length xs"
  by (simp add: unat_of_nat kMaxDatagramLength_def)

text \<open>
  C27. Sending only \<open>size()\<close> bytes of the packed struct loses nothing: a buffer whose beginning is the
  frame of a datagram packet, whatever was in it before, reads back, on a machine of the same byte order,
  as a packet with the same header and the same first \<open>datalen\<close> bytes of data, and it asks for exactly
  the bytes that are there.
\<close>

theorem frame_round_trip:
  assumes "take (length (frame_bytes ord pkt)) buf = frame_bytes ord pkt"
    and "pkt_type pkt \<noteq> Heartbeat" and "length (pkt_databuf pkt) = kMaxDatagramLength"
    and "unat (pkt_datalen pkt) \<le> kMaxDatagramLength"
  shows "\<exists>data. packet_of_image ord buf = pkt\<lparr>pkt_databuf := data\<rparr> \<and>
    take (unat (pkt_datalen pkt)) data = take (unat (pkt_datalen pkt)) (pkt_databuf pkt) \<and>
    packet_size (packet_of_image ord buf) = length (frame_bytes ord pkt)"
proof -
  have n: "length (frame_bytes ord pkt) = 18 + unat (pkt_datalen pkt)"
    using length_frame_bytes [OF assms(3,4), of ord] assms(2)
    by (simp add: packet_size_def kTunnelPacketHeaderLength_def)
  have frame: "frame_bytes ord pkt = header_image ord pkt @ take (unat (pkt_datalen pkt)) (pkt_databuf pkt)"
    using assms(2) by (rule frame_bytes_datagram)
  have whole: "take (18 + unat (pkt_datalen pkt)) buf =
      header_image ord pkt @ take (unat (pkt_datalen pkt)) (pkt_databuf pkt)"
    using assms(1) unfolding n by (simp only: frame)
  have "take 18 buf = take 18 (take (18 + unat (pkt_datalen pkt)) buf)"
    by (simp add: take_take)
  also have "\<dots> = header_image ord pkt"
    by (simp add: whole)
  finally have pkt: "packet_of_image ord buf = pkt\<lparr>pkt_databuf := drop 18 buf\<rparr>"
    by (rule header_fields)
  have "take (unat (pkt_datalen pkt)) (drop 18 buf) = drop 18 (take (18 + unat (pkt_datalen pkt)) buf)"
    by (simp add: take_drop add.commute)
  also have "\<dots> = take (unat (pkt_datalen pkt)) (pkt_databuf pkt)"
    by (simp add: whole)
  finally show ?thesis
    using n assms(2) unfolding pkt
    by (intro exI [of _ "drop 18 buf"]) (simp add: packet_size_def kTunnelPacketHeaderLength_def)
qed

theorem frame_round_trip_witness:
  "\<exists>data. packet_of_image Big (frame_bytes Big (zero_packet\<lparr>pkt_type := Datagram, pkt_datalen := 2\<rparr>)) =
    zero_packet\<lparr>pkt_type := Datagram, pkt_datalen := 2, pkt_databuf := data\<rparr>"
  using frame_round_trip [of Big "zero_packet\<lparr>pkt_type := Datagram, pkt_datalen := 2\<rparr>"
      "frame_bytes Big (zero_packet\<lparr>pkt_type := Datagram, pkt_datalen := 2\<rparr>)"]
  by (auto simp: zero_packet_def protocol_constants)

section \<open>Machines of different byte order\<close>

fun other_order :: "byte_order \<Rightarrow> byte_order" where
  "other_order Little = Big"
| "other_order Big = Little"

lemma load_other_order: "load (other_order ord) bs = load ord (rev bs)"
  by (cases ord) (simp_all add: load_def)

lemma store_other_order: "store (other_order ord) n w = rev (store ord n w)"
  by (cases ord) (simp_all add: store_def)

definition swapped :: "nat \<Rightarrow> 'a::len word \<Rightarrow> 'a word" where
  "swapped n w = load Little (rev (store Little n w))"

lemma load_swapped: "load (other_order ord) (store ord n w) = swapped n w"
  by (cases ord) (simp_all add: load_def store_def swapped_def)

text \<open>
  The multi-byte fields of a frame have the byte order of the machine that sent it: a machine of the
  other order reads the port, the length and the timestamp with their bytes swapped, so that a datagram of
  one byte announces 256.
\<close>

theorem mixed_byte_order:
  "pkt_udp_dst_port (packet_of_image (other_order ord) (packet_image ord pkt)) = swapped 2 (pkt_udp_dst_port pkt) \<and>
   pkt_datalen (packet_of_image (other_order ord) (packet_image ord pkt)) = swapped 2 (pkt_datalen pkt) \<and>
   pkt_client_timestamp_us (packet_of_image (other_order ord) (packet_image ord pkt)) =
     swapped 8 (pkt_client_timestamp_us pkt) \<and>
   swapped 2 (1 :: u16) = 256"
proof -
  have f: "field_at 6 2 (packet_image ord pkt) = field_at 6 2 (header_image ord pkt)"
    "field_at 8 2 (packet_image ord pkt) = field_at 8 2 (header_image ord pkt)"
    "field_at 10 8 (packet_image ord pkt) = field_at 10 8 (header_image ord pkt)"
    by (rule field_at_agree; simp add: packet_image_def)+
  have "swapped 2 (1 :: u16) = 256"
    by (simp add: swapped_def store_def load_def numeral_2_eq_2)
  then show ?thesis
    by (simp add: packet_of_image_def f field_at_header load_swapped)
qed

end
