(* ===== verification/Cxx_Strings.thy ===== *)
theory Cxx_Strings
  imports Prelude
begin

text \<open>
  What the sources use of the C++ library on strings: the character classes of the C locale,
  searching in a \<open>std::string\<close>, \<open>std::to_string\<close>, \<open>std::stoi\<close>, \<open>std::stoul\<close>, \<open>std::stoull\<close>,
  \<open>std::from_chars\<close> and \<open>std::getline\<close>. A \<open>std::string\<close> is a list of its bytes; \<open>npos\<close> is \<open>None\<close>.
  \<open>unsigned long\<close> and \<open>std::size_t\<close> have 64 bits, \<open>int\<close> has 32.
\<close>

section \<open>Characters\<close>

definition char_code :: "char \<Rightarrow> nat" where
  "char_code c = of_char c"

text \<open>The byte of a character.\<close>

definition char_byte :: "char \<Rightarrow> u8" where
  "char_byte c = of_nat (char_code c)"

definition isdigit :: "char \<Rightarrow> bool" where
  "isdigit c \<longleftrightarrow> 48 \<le> char_code c \<and> char_code c \<le> 57"

definition isspace :: "char \<Rightarrow> bool" where
  "isspace c \<longleftrightarrow> char_code c = 32 \<or> (9 \<le> char_code c \<and> char_code c \<le> 13)"

definition isupper :: "char \<Rightarrow> bool" where
  "isupper c \<longleftrightarrow> 65 \<le> char_code c \<and> char_code c \<le> 90"

definition isalpha :: "char \<Rightarrow> bool" where
  "isalpha c \<longleftrightarrow> isupper c \<or> (97 \<le> char_code c \<and> char_code c \<le> 122)"

definition isalnum :: "char \<Rightarrow> bool" where
  "isalnum c \<longleftrightarrow> isdigit c \<or> isalpha c"

definition tolower :: "char \<Rightarrow> char" where
  "tolower c = (if isupper c then char_of (char_code c + 32) else c)"

lemmas char_class_defs =
  char_code_def isdigit_def isspace_def isupper_def isalpha_def isalnum_def tolower_def

lemma isdigit_not_isspace [simp]: "isdigit c \<Longrightarrow> \<not> isspace c"
  by (simp add: char_class_defs)

lemma isalnum_not_isspace [simp]: "isalnum c \<Longrightarrow> \<not> isspace c"
  by (auto simp: char_class_defs)

section \<open>Searching and splitting\<close>

text \<open>\<open>s.find(c)\<close>.\<close>

fun find_char :: "char \<Rightarrow> string \<Rightarrow> nat option" where
  "find_char c [] = None"
| "find_char c (x # xs) = (if x = c then Some 0 else map_option Suc (find_char c xs))"

text \<open>\<open>s.rfind(c)\<close>.\<close>

fun rfind_char :: "char \<Rightarrow> string \<Rightarrow> nat option" where
  "rfind_char c [] = None"
| "rfind_char c (x # xs) =
     (case rfind_char c xs of Some i \<Rightarrow> Some (Suc i) | None \<Rightarrow> if x = c then Some 0 else None)"

text \<open>\<open>s.find(needle)\<close>.\<close>

fun find_str :: "string \<Rightarrow> string \<Rightarrow> nat option" where
  "find_str needle [] = (if needle = [] then Some 0 else None)"
| "find_str needle (x # xs) =
     (if prefix needle (x # xs) then Some 0 else map_option Suc (find_str needle xs))"

lemma find_char_None [simp]: "find_char c s = None \<longleftrightarrow> c \<notin> set s"
  by (induction s) auto

lemma find_char_Some:
  "find_char c s = Some i \<Longrightarrow> i < length s \<and> s ! i = c \<and> c \<notin> set (take i s)"
  by (induction s arbitrary: i) (auto split: if_splits)

lemma find_char_append [simp]: "c \<notin> set xs \<Longrightarrow> find_char c (xs @ c # ys) = Some (length xs)"
  by (induction xs) auto

lemma rfind_char_None [simp]: "rfind_char c s = None \<longleftrightarrow> c \<notin> set s"
  by (induction s) (auto split: option.splits)

lemma rfind_char_append [simp]: "c \<notin> set ys \<Longrightarrow> rfind_char c (xs @ c # ys) = Some (length xs)"
  by (induction xs) (auto split: option.splits)

lemma rfind_char_Some:
  "rfind_char c s = Some i \<Longrightarrow> i < length s \<and> s ! i = c \<and> c \<notin> set (drop (Suc i) s)"
  by (induction s arbitrary: i) (auto split: option.splits if_splits)

lemma find_str_Some:
  "find_str needle s = Some i \<Longrightarrow> prefix needle (drop i s) \<and> i \<le> length s"
  by (induction s arbitrary: i) (auto split: if_splits)

lemma find_str_skip:
  "c \<notin> set l \<Longrightarrow> find_str (c # needle) (l @ s) = map_option (\<lambda>i. length l + i) (find_str (c # needle) s)"
  by (cases "find_str (c # needle) s"; induction l) auto

text \<open>
  The lines \<open>std::getline\<close> yields until it fails: the text between newlines, without a last empty
  line.
\<close>

fun getlines :: "string \<Rightarrow> string list" where
  "getlines [] = []"
| "getlines (c # cs) =
     (if c = CHR 0x0A then [] # getlines cs
      else (case getlines cs of [] \<Rightarrow> [[c]] | l # ls \<Rightarrow> (c # l) # ls))"

lemma getlines_line [simp]:
  "CHR 0x0A \<notin> set l \<Longrightarrow> getlines (l @ CHR 0x0A # rest) = l # getlines rest"
  by (induction l) auto

interpretation text_lines: stream_code "\<lambda>l. CHR 0x0A \<notin> set l" "\<lambda>l. l @ [CHR 0x0A]" "\<lambda>s. Some (getlines s)"
  by unfold_locales simp_all

lemma getlines_last: "CHR 0x0A \<notin> set l \<Longrightarrow> l \<noteq> [] \<Longrightarrow> getlines l = [l]"
proof (induction l)
  case (Cons c l)
  then show ?case by (cases l) auto
qed simp

lemma getlines_no_newline: "l \<in> set (getlines s) \<Longrightarrow> CHR 0x0A \<notin> set l"
  by (induction s arbitrary: l rule: getlines.induct) (auto split: if_splits list.splits)

section \<open>Numbers as text\<close>

text \<open>\<open>std::to_string\<close> of an unsigned value.\<close>

definition digit_char :: "nat \<Rightarrow> char" where
  "digit_char d = char_of (48 + d)"

fun to_string :: "nat \<Rightarrow> string" where
  "to_string n = (if n < 10 then [digit_char n] else to_string (n div 10) @ [digit_char (n mod 10)])"

declare to_string.simps [simp del]

lemma digit_char_simps:
  "digit_char 0 = CHR ''0''" "digit_char 1 = CHR ''1''" "digit_char 2 = CHR ''2''"
  "digit_char 3 = CHR ''3''" "digit_char 4 = CHR ''4''" "digit_char 5 = CHR ''5''"
  "digit_char 6 = CHR ''6''" "digit_char 7 = CHR ''7''" "digit_char 8 = CHR ''8''"
  "digit_char 9 = CHR ''9''" "digit_char (Suc 0) = CHR ''1''"
  by code_simp+

definition digit_value :: "char \<Rightarrow> nat" where
  "digit_value c = char_code c - 48"

definition nat_of_digits :: "string \<Rightarrow> nat" where
  "nat_of_digits ds = foldl (\<lambda>n c. 10 * n + digit_value c) 0 ds"

lemma digit_char [simp]:
  "d < 10 \<Longrightarrow> isdigit (digit_char d)" "d < 10 \<Longrightarrow> digit_value (digit_char d) = d"
  by (simp_all add: digit_char_def digit_value_def isdigit_def char_code_def)

lemma nat_of_digits_snoc [simp]:
  "nat_of_digits [] = 0"
  "nat_of_digits (ds @ [c]) = 10 * nat_of_digits ds + digit_value c"
  by (simp_all add: nat_of_digits_def)

lemma to_string_nonempty [simp]: "to_string n \<noteq> []"
  by (subst to_string.simps) simp

lemma to_string_digits: "list_all isdigit (to_string n)"
proof (induction n rule: to_string.induct)
  case (1 n)
  then show ?case by (subst to_string.simps) simp
qed

lemma to_string_isdigit: "c \<in> set (to_string n) \<Longrightarrow> isdigit c"
  using to_string_digits [of n] by (auto simp: list_all_iff)

lemma nat_of_digits_to_string [simp]: "nat_of_digits (to_string n) = n"
proof (induction n rule: to_string.induct)
  case (1 n)
  show ?case
  proof (cases "n < 10")
    case True
    then show ?thesis
      using nat_of_digits_snoc(2) [of "[]" "digit_char n"]
      by (subst to_string.simps) simp
  next
    case False
    with 1 show ?thesis by (subst to_string.simps) simp
  qed
qed

lemma length_to_string_le: "n < 10 ^ k \<Longrightarrow> 0 < k \<Longrightarrow> length (to_string n) \<le> k"
proof (induction k arbitrary: n)
  case (Suc k)
  show ?case
  proof (cases "n < 10")
    case True
    then show ?thesis by (subst to_string.simps) simp
  next
    case False
    with Suc.prems have "n div 10 < 10 ^ k" by (simp add: less_mult_imp_div_less)
    moreover from this False have "0 < k" by (cases k) auto
    ultimately have "length (to_string (n div 10)) \<le> k" by (rule Suc.IH)
    with False show ?thesis by (subst to_string.simps) simp
  qed
qed simp

lemma to_string_inject [simp]: "to_string m = to_string n \<longleftrightarrow> m = n"
  by (metis nat_of_digits_to_string)

text \<open>\<open>std::to_string\<close> and \<open>%d\<close> of a signed value.\<close>

definition show_int :: "int \<Rightarrow> string" where
  "show_int i = (if i < 0 then CHR ''-'' # to_string (nat (- i)) else to_string (nat i))"

text \<open>Text between single quotes, as the messages have it.\<close>

definition quoted :: "string \<Rightarrow> string" where
  "quoted s = [CHR 0x27] @ s @ [CHR 0x27]"

text \<open>
  The number parsers. \<open>strto_parts\<close> is what \<open>strtol\<close> and \<open>strtoul\<close> read: leading white space, an
  optional sign, then the longest run of digits; it yields the sign, the digits and the number
  of characters used.
\<close>

datatype conversion_error = Invalid_argument | Out_of_range

definition skip_sign :: "string \<Rightarrow> bool \<times> string" where
  "skip_sign s = (case s of
       [] \<Rightarrow> (False, [])
     | c # cs \<Rightarrow> if c = CHR ''-'' then (True, cs) else if c = CHR ''+'' then (False, cs) else (False, s))"

definition strto_parts :: "string \<Rightarrow> bool \<times> string \<times> nat" where
  "strto_parts s =
     (let (negative, s') = skip_sign (dropWhile isspace s); ds = takeWhile isdigit s'
      in (negative, ds, length s - length (dropWhile isdigit s')))"

text \<open>\<open>std::stoul\<close> and \<open>std::stoull\<close>: the value and the number of characters used.\<close>

definition stoul :: "string \<Rightarrow> conversion_error + nat \<times> nat" where
  "stoul s =
     (let (negative, ds, used) = strto_parts s; v = nat_of_digits ds
      in if ds = [] then Inl Invalid_argument
         else if v > 2 ^ 64 - 1 then Inl Out_of_range
         else Inr (if negative then (2 ^ 64 - v) mod 2 ^ 64 else v, used))"

text \<open>\<open>std::stoi\<close>.\<close>

definition stoi :: "string \<Rightarrow> conversion_error + int" where
  "stoi s =
     (let (negative, ds, used) = strto_parts s;
          v = (if negative then - int (nat_of_digits ds) else int (nat_of_digits ds))
      in if ds = [] then Inl Invalid_argument
         else if v < - (2 ^ 31) \<or> v > 2 ^ 31 - 1 then Inl Out_of_range
         else Inr v)"

text \<open>
  \<open>std::from_chars\<close> for an unsigned type of \<open>w\<close> bits: digits only, no sign and no white space; it
  yields the value and the number of characters used, or the error.
\<close>

definition from_chars :: "nat \<Rightarrow> string \<Rightarrow> conversion_error + nat \<times> nat" where
  "from_chars w s =
     (let ds = takeWhile isdigit s
      in if ds = [] then Inl Invalid_argument
         else if nat_of_digits ds > 2 ^ w - 1 then Inl Out_of_range
         else Inr (nat_of_digits ds, length ds))"

lemma takeWhile_to_string [simp]: "takeWhile isdigit (to_string n) = to_string n"
  using to_string_digits by (auto simp: list_all_iff)

lemma dropWhile_to_string [simp]: "dropWhile isdigit (to_string n) = []"
  using to_string_digits by (auto simp: list_all_iff)

lemma hd_to_string_digit: "isdigit (hd (to_string n))"
  using to_string_isdigit to_string_nonempty by (metis list.set_sel(1))

lemma strto_parts_to_string [simp]:
  "strto_parts (to_string n) = (False, to_string n, length (to_string n))"
proof -
  obtain c cs where c: "to_string n = c # cs"
    using to_string_nonempty [of n] by (cases "to_string n") auto
  then have d: "isdigit c"
    using hd_to_string_digit [of n] by simp
  then have "dropWhile isspace (to_string n) = to_string n"
    using c by simp
  moreover have "skip_sign (to_string n) = (False, to_string n)"
    using d by (auto simp: skip_sign_def c isdigit_def char_code_def)
  ultimately show ?thesis
    by (simp add: strto_parts_def)
qed

lemma stoul_to_string [simp]:
  "n < 2 ^ 64 \<Longrightarrow> stoul (to_string n) = Inr (n, length (to_string n))"
  by (simp add: stoul_def)

lemma strto_parts_junk:
  assumes "junk = [] \<or> \<not> isdigit (hd junk)"
  shows "strto_parts (to_string n @ junk) = (False, to_string n, length (to_string n))"
proof -
  obtain c cs where c: "to_string n = c # cs"
    using to_string_nonempty [of n] by (cases "to_string n") auto
  then have d: "isdigit c"
    using hd_to_string_digit [of n] by simp
  then have "dropWhile isspace (to_string n @ junk) = to_string n @ junk"
    using c by simp
  moreover have "skip_sign (to_string n @ junk) = (False, to_string n @ junk)"
    using d by (auto simp: skip_sign_def c isdigit_def char_code_def)
  moreover have "takeWhile isdigit (to_string n @ junk) = to_string n"
    "dropWhile isdigit (to_string n @ junk) = junk"
    using assms to_string_isdigit [of _ n]
    by (auto simp: takeWhile_append2 dropWhile_append2 takeWhile_eq_Nil_iff) (cases junk; simp)
  ultimately show ?thesis
    by (simp add: strto_parts_def)
qed

lemma stoul_with_junk:
  "n < 2 ^ 64 \<Longrightarrow> junk = [] \<or> \<not> isdigit (hd junk) \<Longrightarrow>
   stoul (to_string n @ junk) = Inr (n, length (to_string n))"
  by (simp add: stoul_def strto_parts_junk)

lemma stoul_negative:
  assumes "n < 2 ^ 64"
  shows "stoul (CHR ''-'' # to_string n) = Inr ((2 ^ 64 - n) mod 2 ^ 64, Suc (length (to_string n)))"
proof -
  have "\<not> isspace (CHR ''-'')"
    by code_simp
  then have "strto_parts (CHR ''-'' # to_string n) = (True, to_string n, Suc (length (to_string n)))"
    by (simp add: strto_parts_def skip_sign_def)
  with assms show ?thesis
    by (simp add: stoul_def)
qed

lemma stoi_to_string [simp]: "n < 2 ^ 31 \<Longrightarrow> stoi (to_string n) = Inr (int n)"
  by (simp add: stoi_def)

lemma from_chars_to_string [simp]:
  "n < 2 ^ w \<Longrightarrow> from_chars w (to_string n) = Inr (n, length (to_string n))"
  by (auto simp: from_chars_def Let_def)

lemma from_chars_junk:
  assumes "junk = [] \<or> \<not> isdigit (hd junk)"
  shows "from_chars w (to_string n @ junk) =
    (if 2 ^ w \<le> n then Inl Out_of_range else Inr (n, length (to_string n)))"
proof -
  have "takeWhile isdigit (to_string n @ junk) = to_string n"
    using assms to_string_isdigit [of _ n] by (auto simp: takeWhile_append2 takeWhile_eq_Nil_iff)
  moreover have "n \<le> 2 ^ w - 1 \<longleftrightarrow> n < 2 ^ w"
    by (cases "2 ^ w :: nat") auto
  ultimately show ?thesis
    by (auto simp: from_chars_def Let_def)
qed

end
