(* ===== verification/Network.thy ===== *)
theory Network
  imports Protocol Cxx_Strings
begin

text \<open>
  \<open>src/src/Network.h\<close> and \<open>src/src/Network.cpp\<close>: the error codes that are not failures, the owner
  class \<open>Socket\<close>, and the resolution of an interface reference to an IPv4 address.

  What the operating system provides is not under \<open>src/\<close>: the record \<open>os\<close> holds the platform the
  program is built for and the answers of the address functions.
\<close>

section \<open>The operating system\<close>

datatype platform = Linux | MacOS | Windows

text \<open>An entry of \<open>getifaddrs\<close>: a name and an address, each possibly null; \<open>family_inet\<close> tells whether
  the address is an \<open>AF_INET\<close> one, whose \<open>s_addr\<close> is then \<open>address\<close>.\<close>

record socket_address =
  family_inet :: bool
  address :: u32

record ifaddr =
  ifa_name :: "string option"
  ifa_addr :: "socket_address option"

text \<open>An entry of \<open>GetAdaptersAddresses\<close>, the friendly name already converted to UTF-8.\<close>

record adapter =
  adapter_name :: string
  friendly_name :: string
  unicast_addresses :: "socket_address option list"

text \<open>
  \<open>inet_pton\<close> yields the \<open>s_addr\<close> it stores when it returns 1; \<open>inet_addr\<close> yields an \<open>s_addr\<close> always
  (\<open>INADDR_NONE\<close> for text it rejects); \<open>inet_ntop\<close> into a buffer of \<open>INET_ADDRSTRLEN\<close> characters cannot
  fail for \<open>AF_INET\<close>. The interface lists are \<open>None\<close> when the call that fetches them fails.
\<close>

record os =
  os_platform :: platform
  os_order :: byte_order
  os_inet_pton :: "string \<Rightarrow> u32 option"
  os_inet_addr :: "string \<Rightarrow> u32"
  os_inet_ntop :: "u32 \<Rightarrow> string"
  os_getifaddrs :: "ifaddr list option"
  os_adapters :: "adapter list option"

section \<open>Error codes\<close>

text \<open>The values of the headers of the three platforms.\<close>

definition EAGAIN :: "platform \<Rightarrow> int" where
  "EAGAIN p = (case p of Linux \<Rightarrow> 11 | MacOS \<Rightarrow> 35 | Windows \<Rightarrow> 11)"

definition EWOULDBLOCK :: "platform \<Rightarrow> int" where
  "EWOULDBLOCK p = (case p of Linux \<Rightarrow> 11 | MacOS \<Rightarrow> 35 | Windows \<Rightarrow> 140)"

definition EINPROGRESS :: "platform \<Rightarrow> int" where
  "EINPROGRESS p = (case p of Linux \<Rightarrow> 115 | MacOS \<Rightarrow> 36 | Windows \<Rightarrow> 112)"

definition EALREADY :: "platform \<Rightarrow> int" where
  "EALREADY p = (case p of Linux \<Rightarrow> 114 | MacOS \<Rightarrow> 37 | Windows \<Rightarrow> 103)"

definition WSAEWOULDBLOCK :: int where "WSAEWOULDBLOCK = 10035"
definition WSAEINPROGRESS :: int where "WSAEINPROGRESS = 10036"
definition WSAEALREADY :: int where "WSAEALREADY = 10037"
definition WSAEMSGSIZE :: int where "WSAEMSGSIZE = 10040"
definition WSAETIMEDOUT :: int where "WSAETIMEDOUT = 10060"

lemmas error_code_defs =
  EAGAIN_def EWOULDBLOCK_def EINPROGRESS_def EALREADY_def WSAEWOULDBLOCK_def WSAEINPROGRESS_def
  WSAEALREADY_def WSAEMSGSIZE_def WSAETIMEDOUT_def

definition isReceiveTimeout :: "platform \<Rightarrow> int \<Rightarrow> bool" where
  "isReceiveTimeout p error_code =
     (if p = Windows then error_code = WSAETIMEDOUT \<or> error_code = WSAEWOULDBLOCK
      else error_code = EAGAIN p \<or> error_code = EWOULDBLOCK p)"

definition isDatagramTooLargeError :: "platform \<Rightarrow> int \<Rightarrow> bool" where
  "isDatagramTooLargeError p error_code = (if p = Windows then error_code = WSAEMSGSIZE else False)"

definition isConnectInProgress :: "platform \<Rightarrow> int \<Rightarrow> bool" where
  "isConnectInProgress p error_code =
     (if p = Windows then error_code = WSAEINPROGRESS \<or> error_code = WSAEWOULDBLOCK \<or> error_code = WSAEALREADY
      else error_code = EINPROGRESS p \<or> error_code = EWOULDBLOCK p \<or> error_code = EALREADY p)"

text \<open>An error is never both a silent interval and an oversized datagram.\<close>

lemma timeout_not_too_large: "isReceiveTimeout p e \<Longrightarrow> \<not> isDatagramTooLargeError p e"
  by (auto simp: isReceiveTimeout_def isDatagramTooLargeError_def error_code_defs split: if_splits)

text \<open>
  \<open>setSocketReceiveTimeout\<close>: the option value for a number of seconds, milliseconds in a \<open>DWORD\<close> on
  Windows and a \<open>timeval\<close> elsewhere.
\<close>

datatype receive_timeout = Timeout_ms u32 | Timeout_timeval int int

definition receive_timeout_value :: "platform \<Rightarrow> int \<Rightarrow> receive_timeout" where
  "receive_timeout_value p seconds =
     (if p = Windows then Timeout_ms (word_of_int (seconds * 1000)) else Timeout_timeval seconds 0)"

section \<open>Resolution of an interface\<close>

text \<open>\<open>strcmp\<close> style comparison stops at a null byte: \<open>c_str()\<close> of the reference.\<close>

definition c_str :: "string \<Rightarrow> string" where
  "c_str s = takeWhile (\<lambda>c. c \<noteq> CHR 0x00) s"

fun first_unicast :: "os \<Rightarrow> socket_address option list \<Rightarrow> string option" where
  "first_unicast os [] = None"
| "first_unicast os (unicast # rest) =
     (case unicast of
        Some sa \<Rightarrow> if family_inet sa then Some (os_inet_ntop os (address sa)) else first_unicast os rest
      | None \<Rightarrow> first_unicast os rest)"

fun scan_adapters :: "os \<Rightarrow> string \<Rightarrow> adapter list \<Rightarrow> string option" where
  "scan_adapters os reference [] = None"
| "scan_adapters os reference (a # rest) =
     (if reference \<noteq> adapter_name a \<and> reference \<noteq> friendly_name a then scan_adapters os reference rest
      else case first_unicast os (unicast_addresses a) of
             Some text \<Rightarrow> Some text | None \<Rightarrow> scan_adapters os reference rest)"

fun scan_ifaddrs :: "os \<Rightarrow> string \<Rightarrow> ifaddr list \<Rightarrow> string option" where
  "scan_ifaddrs os reference [] = None"
| "scan_ifaddrs os reference (item # rest) =
     (case (ifa_name item, ifa_addr item) of
        (Some name, Some sa) \<Rightarrow>
          if reference \<noteq> name \<or> \<not> family_inet sa then scan_ifaddrs os reference rest
          else Some (os_inet_ntop os (address sa))
      | _ \<Rightarrow> scan_ifaddrs os reference rest)"

definition resolveInterfaceIpv4 :: "os \<Rightarrow> string \<Rightarrow> string option" where
  "resolveInterfaceIpv4 os reference =
     (if os_inet_pton os (c_str reference) \<noteq> None then Some reference
      else if os_platform os = Windows then
        (case os_adapters os of None \<Rightarrow> None | Some adapters \<Rightarrow> scan_adapters os reference adapters)
      else
        (case os_getifaddrs os of None \<Rightarrow> None | Some interfaces \<Rightarrow> scan_ifaddrs os reference interfaces))"

lemma scan_ifaddrs_Some:
  "scan_ifaddrs os reference items = Some text \<Longrightarrow>
   \<exists>item \<in> set items. \<exists>sa. ifa_name item = Some reference \<and> ifa_addr item = Some sa \<and>
     family_inet sa \<and> text = os_inet_ntop os (address sa)"
  by (induction items) (auto split: option.splits if_splits)

lemma first_unicast_Some:
  "first_unicast os us = Some text \<Longrightarrow>
   \<exists>sa. Some sa \<in> set us \<and> family_inet sa \<and> text = os_inet_ntop os (address sa)"
  by (induction us) (auto split: option.splits if_splits)

lemma scan_adapters_Some:
  "scan_adapters os reference as = Some text \<Longrightarrow>
   \<exists>a \<in> set as. (adapter_name a = reference \<or> friendly_name a = reference) \<and>
     (\<exists>sa. Some sa \<in> set (unicast_addresses a) \<and> family_inet sa \<and> text = os_inet_ntop os (address sa))"
  by (induction as) (auto split: option.splits if_splits dest: first_unicast_Some)

text \<open>
  An interface that resolves, resolves to text \<open>inet_pton\<close> accepts, provided \<open>inet_ntop\<close> writes what
  \<open>inet_pton\<close> reads (the documented relation of the two).
\<close>

definition ntop_readable :: "os \<Rightarrow> bool" where
  "ntop_readable os \<longleftrightarrow>
     (\<forall>a. os_inet_pton os (os_inet_ntop os a) = Some a \<and> CHR 0x00 \<notin> set (os_inet_ntop os a))"

lemma c_str_id: "CHR 0x00 \<notin> set s \<Longrightarrow> c_str s = s"
  by (auto simp: c_str_def takeWhile_eq_all_conv)

lemma resolve_gives_address:
  assumes "ntop_readable os" and "resolveInterfaceIpv4 os reference = Some text"
  shows "\<exists>a. os_inet_pton os (c_str text) = Some a"
proof -
  have "os_inet_pton os (c_str (os_inet_ntop os a)) = Some a" for a
    using assms(1) by (simp add: ntop_readable_def c_str_id)
  with assms(2) show ?thesis
    by (auto simp: resolveInterfaceIpv4_def split: if_splits option.splits
        dest!: scan_ifaddrs_Some scan_adapters_Some)
qed

text \<open>Resolving the result again changes nothing.\<close>

lemma resolve_idem:
  assumes "ntop_readable os" and "resolveInterfaceIpv4 os reference = Some text"
  shows "resolveInterfaceIpv4 os text = Some text"
  using resolve_gives_address [OF assms] by (auto simp: resolveInterfaceIpv4_def)

end
