(* ===== verification/Doubles.thy ===== *)
theory Doubles
  imports Complex_Main Cxx_Strings "HOL-Library.Log_Nat"
begin

text \<open>
  The \<open>double\<close> arithmetic of the latency and throughput figures. A finite non-negative \<open>double\<close> is
  the rational it denotes, and every operation rounds its exact result to 53 significant bits,
  ties to even, as IEEE 754 prescribes for binary64. The exponent range is not bounded: the
  figures are sums and quotients of 64 bit counts, which neither overflow nor leave the normal
  range.
\<close>

type_synonym double = rat

text \<open>\<open>floor_log2 x\<close> is the exponent of the power of two at or below a positive \<open>x\<close>.\<close>

definition two_pow :: "int \<Rightarrow> rat" where
  "two_pow e = (if 0 \<le> e then 2 ^ nat e else 1 / 2 ^ nat (- e))"

definition floor_log2 :: "rat \<Rightarrow> int" where
  "floor_log2 x =
     (let (a, b) = quotient_of x; k = bitlen a - bitlen b
      in if two_pow k \<le> x then k else k - 1)"

text \<open>The nearest integer, ties to even.\<close>

definition round_half_even :: "rat \<Rightarrow> int" where
  "round_half_even x =
     (let n = \<lfloor>x\<rfloor>; r = x - of_int n
      in if r < 1 / 2 \<or> (r = 1 / 2 \<and> even n) then n else n + 1)"

definition ulp :: "rat \<Rightarrow> rat" where
  "ulp x = two_pow (floor_log2 x - 52)"

definition fl :: "rat \<Rightarrow> double" where
  "fl x = (if x \<le> 0 then 0 else of_int (round_half_even (x / ulp x)) * ulp x)"

section \<open>Rounding to an integer\<close>

lemma round_half_even_of_int [simp]: "round_half_even (of_int n) = n"
  by (simp add: round_half_even_def Let_def)

lemma round_half_even_exact [simp]:
  "round_half_even 0 = 0"
  "round_half_even (2 ^ k) = 2 ^ k"
  using round_half_even_of_int [of 0] round_half_even_of_int [of "2 ^ k"] by simp_all

lemma round_half_even_bounds:
  "\<lfloor>x\<rfloor> \<le> round_half_even x" "round_half_even x \<le> \<lfloor>x\<rfloor> + 1"
  by (auto simp: round_half_even_def Let_def)

lemma round_half_even_mono:
  assumes "x \<le> y"
  shows "round_half_even x \<le> round_half_even y"
proof (cases "\<lfloor>x\<rfloor> = \<lfloor>y\<rfloor>")
  case True
  then have "x - of_int \<lfloor>x\<rfloor> \<le> y - of_int \<lfloor>y\<rfloor>"
    using assms by simp
  with True show ?thesis
    by (auto simp: round_half_even_def Let_def)
next
  case False
  then have "\<lfloor>x\<rfloor> + 1 \<le> \<lfloor>y\<rfloor>"
    using floor_mono [OF assms] by linarith
  then show ?thesis
    using round_half_even_bounds(2) [of x] round_half_even_bounds(1) [of y] by linarith
qed

lemma round_half_even_error: "\<bar>of_int (round_half_even x) - x\<bar> \<le> 1 / 2"
proof -
  have "of_int \<lfloor>x\<rfloor> \<le> x" "x < of_int \<lfloor>x\<rfloor> + 1"
    by linarith+
  then show ?thesis
    unfolding round_half_even_def Let_def abs_if by (simp split: if_splits) linarith
qed

section \<open>Powers of two\<close>

lemma two_pow_pos [simp]: "0 < two_pow e"
  by (simp add: two_pow_def)

lemma two_pow_nonneg [simp]: "0 \<le> two_pow e" "two_pow e \<noteq> 0"
  using two_pow_pos [of e] by linarith+

lemma two_pow_nat: "two_pow (int n) = 2 ^ n"
  by (simp add: two_pow_def)

lemma two_pow_Suc: "two_pow (e + 1) = 2 * two_pow e"
proof -
  consider "0 \<le> e" | "e = -1" | "e < -1"
    by linarith
  then show ?thesis
  proof cases
    case 1
    then show ?thesis by (simp add: two_pow_def nat_add_distrib)
  next
    case 2
    then show ?thesis by (simp add: two_pow_def)
  next
    case 3
    then have "nat (- e) = Suc (nat (- (e + 1)))"
      by simp
    with 3 show ?thesis by (simp add: two_pow_def)
  qed
qed

lemma two_pow_add_nat: "two_pow (e + int n) = 2 ^ n * two_pow e"
proof (induction n)
  case (Suc n)
  have "two_pow (e + int (Suc n)) = two_pow ((e + int n) + 1)"
    by (simp add: algebra_simps)
  with Suc show ?case by (simp add: two_pow_Suc)
qed simp

lemma two_pow_mono: "d \<le> e \<Longrightarrow> two_pow d \<le> two_pow e"
proof -
  assume "d \<le> e"
  then have "two_pow e = 2 ^ nat (e - d) * two_pow d"
    using two_pow_add_nat [of d "nat (e - d)"] by simp
  moreover have "1 * two_pow d \<le> 2 ^ nat (e - d) * two_pow d"
    by (rule mult_right_mono) simp_all
  ultimately show ?thesis
    by simp
qed

lemma two_pow_add: "two_pow (d + e) = two_pow d * two_pow e"
proof (cases "0 \<le> e")
  case True
  then show ?thesis using two_pow_add_nat [of d "nat e"] by (simp add: two_pow_def)
next
  case False
  then have "two_pow d = 2 ^ nat (- e) * two_pow (d + e)"
    using two_pow_add_nat [of "d + e" "nat (- e)"] by simp
  with False show ?thesis by (simp add: two_pow_def)
qed

section \<open>The binade of a number\<close>

lemma bitlen_two_pow:
  assumes "0 < a"
  shows "two_pow (bitlen a - 1) \<le> of_int a" and "of_int a < two_pow (bitlen a)"
proof -
  have p: "2 ^ nat (bitlen a - 1) \<le> a" "a < 2 ^ nat (bitlen a)"
    using bitlen_bounds [OF assms] by auto
  have "1 \<le> bitlen a"
    using assms bitlen_nonneg [of a] bitlen_eq_zero_iff [of a] by linarith
  then have "two_pow (bitlen a - 1) = of_int (2 ^ nat (bitlen a - 1))"
    "two_pow (bitlen a) = of_int (2 ^ nat (bitlen a))"
    by (simp_all add: two_pow_def)
  with p show "two_pow (bitlen a - 1) \<le> of_int a" "of_int a < two_pow (bitlen a)"
    by (simp_all only: of_int_le_iff of_int_less_iff)
qed

lemma floor_log2_bounds:
  assumes "0 < x"
  shows "two_pow (floor_log2 x) \<le> x" and "x < two_pow (floor_log2 x + 1)"
proof -
  obtain a b where q: "quotient_of x = (a, b)"
    by (cases "quotient_of x")
  have b: "0 < b" and x: "x * of_int b = of_int a"
    using quotient_of_denom_pos [OF q] quotient_of_div [OF q] by auto
  have a: "0 < a"
    using assms b x by (metis mult_pos_pos of_int_0_less_iff)
  define k where "k = bitlen a - bitlen b"
  have "two_pow (bitlen a) = two_pow (k + 1) * two_pow (bitlen b - 1)"
    "two_pow (bitlen a - 1) = two_pow (k - 1) * two_pow (bitlen b)"
    using two_pow_add [of "k + 1" "bitlen b - 1"] two_pow_add [of "k - 1" "bitlen b"]
    by (simp_all add: k_def)
  then have "x * of_int b < two_pow (k + 1) * of_int b"
    and "two_pow (k - 1) * of_int b \<le> x * of_int b"
    using bitlen_two_pow [OF a] bitlen_two_pow [OF b] x
    by (metis (no_types) le_less_trans less_le_trans mult_left_mono two_pow_nonneg(1)
        less_le_not_le leD not_le)+
  then have up: "x < two_pow (k + 1)" and lo: "two_pow (k - 1) \<le> x"
    using b by simp_all
  show "two_pow (floor_log2 x) \<le> x" "x < two_pow (floor_log2 x + 1)"
    using up lo by (auto simp: floor_log2_def q k_def [symmetric])
qed

lemma floor_log2_mono:
  assumes "0 < x" and "x \<le> y"
  shows "floor_log2 x \<le> floor_log2 y"
proof (rule ccontr)
  assume "\<not> ?thesis"
  then have "two_pow (floor_log2 y + 1) \<le> two_pow (floor_log2 x)"
    by (intro two_pow_mono) simp
  with floor_log2_bounds(1) [of x] floor_log2_bounds(2) [of y] assms show False
    by linarith
qed

section \<open>Rounding to 53 bits\<close>

lemma ulp_pos [simp]: "0 < ulp x" "ulp x \<noteq> 0" "0 \<le> ulp x"
  by (simp_all add: ulp_def)

lemma ulp_scale: "two_pow (floor_log2 x) = 2 ^ 52 * ulp x"
  using two_pow_add_nat [of "floor_log2 x - 52" 52] by (simp add: ulp_def)

lemma fl_nonneg [simp]: "0 \<le> fl x"
proof (cases "x \<le> 0")
  case False
  then have "0 \<le> round_half_even (x / ulp x)"
    using round_half_even_mono [of 0 "x / ulp x"] round_half_even_of_int [of 0] by simp
  then show ?thesis by (simp add: fl_def)
qed (simp add: fl_def)

lemma fl_binade:
  assumes "0 < x"
  shows "two_pow (floor_log2 x) \<le> fl x" and "fl x \<le> two_pow (floor_log2 x + 1)"
proof -
  let ?r = "round_half_even (x / ulp x)"
  have "(2 ^ 52 :: rat) \<le> x / ulp x" "x / ulp x \<le> 2 ^ 53"
    using floor_log2_bounds [OF assms] ulp_scale [of x] two_pow_Suc [of "floor_log2 x"]
    by (simp_all add: field_simps)
  then have "2 ^ 52 \<le> ?r" "?r \<le> 2 ^ 53"
    using round_half_even_mono [of "2 ^ 52" "x / ulp x"] round_half_even_mono [of "x / ulp x" "2 ^ 53"]
    by (simp_all only: round_half_even_exact)
  then have "of_int (2 ^ 52) \<le> (of_int ?r :: rat)" "of_int ?r \<le> (of_int (2 ^ 53) :: rat)"
    by (simp_all only: of_int_le_iff)
  then have "2 ^ 52 * ulp x \<le> of_int ?r * ulp x" "of_int ?r * ulp x \<le> 2 ^ 53 * ulp x"
    by (intro mult_right_mono; simp only: of_int_power of_int_numeral ulp_pos)+
  with assms show "two_pow (floor_log2 x) \<le> fl x" "fl x \<le> two_pow (floor_log2 x + 1)"
    using ulp_scale [of x] two_pow_Suc [of "floor_log2 x"] by (simp_all add: fl_def)
qed

lemma fl_mono:
  assumes "x \<le> y"
  shows "fl x \<le> fl y"
proof (cases "x \<le> 0")
  case True
  then show ?thesis by (simp add: fl_def [of x])
next
  case False
  then have pos: "0 < x" "0 < y"
    using assms by auto
  show ?thesis
  proof (cases "floor_log2 x = floor_log2 y")
    case True
    then have u: "ulp x = ulp y"
      by (simp add: ulp_def)
    have "x / ulp x \<le> y / ulp x"
      using assms by (simp add: divide_right_mono)
    then have "round_half_even (x / ulp x) \<le> round_half_even (y / ulp y)"
      using round_half_even_mono u by simp
    with pos u show ?thesis
      by (simp add: fl_def)
  next
    case False
    then have "two_pow (floor_log2 x + 1) \<le> two_pow (floor_log2 y)"
      using floor_log2_mono [OF pos(1) assms] by (intro two_pow_mono) simp
    then show ?thesis
      using fl_binade(2) [OF pos(1)] fl_binade(1) [OF pos(2)] by linarith
  qed
qed

lemma floor_log2_le:
  assumes "0 < x" and "x < two_pow (k + 1)"
  shows "floor_log2 x \<le> k"
proof (rule ccontr)
  assume "\<not> ?thesis"
  then have "two_pow (k + 1) \<le> two_pow (floor_log2 x)"
    by (intro two_pow_mono) simp
  with floor_log2_bounds(1) [OF assms(1)] assms(2) show False
    by linarith
qed

text \<open>A number with at most 53 significant bits is not changed.\<close>

lemma fl_exact:
  assumes "0 \<le> m" and "x = of_int m * two_pow k" and "floor_log2 x - 52 \<le> k"
  shows "fl x = x"
proof (cases "x \<le> 0")
  case True
  moreover have "0 \<le> x"
    using assms by simp
  ultimately show ?thesis
    by (simp add: fl_def)
next
  case False
  define d where "d = nat (k - (floor_log2 x - 52))"
  have "two_pow k = 2 ^ d * ulp x"
    using two_pow_add_nat [of "floor_log2 x - 52" d] assms(3) by (simp add: ulp_def d_def)
  then have x: "x = of_int (m * 2 ^ d) * ulp x"
    using assms(2) by simp
  then have "x / ulp x = of_int (m * 2 ^ d)"
    by (metis nonzero_mult_div_cancel_right ulp_pos(2))
  with False x show ?thesis
    by (simp add: fl_def del: of_int_mult of_int_power)
qed

lemma fl_zero [simp]: "fl 0 = 0"
  by (simp add: fl_def)

text \<open>Integers up to \<open>2 ^ 53\<close> are exact.\<close>

lemma fl_of_nat [simp]:
  assumes "n \<le> 2 ^ 53"
  shows "fl (of_nat n) = of_nat n"
proof -
  consider "n = 0" | "n = 2 ^ 53" | "0 < n" "n < 2 ^ 53"
    using assms by linarith
  then show ?thesis
  proof cases
    case 2
    then have x: "of_nat n = two_pow 53"
      by (simp add: two_pow_def)
    have "floor_log2 (two_pow 53) \<le> 53"
      by (rule floor_log2_le) (simp_all add: two_pow_def)
    then show ?thesis
      unfolding x by (intro fl_exact [of 1 _ 53]) simp_all
  next
    case 3
    have "of_nat n < (2 ^ 53 :: rat)"
      using 3(2) by (metis of_nat_less_iff of_nat_numeral of_nat_power)
    then have "floor_log2 (of_nat n) \<le> 52"
      using 3(1) by (intro floor_log2_le) (simp_all add: two_pow_def)
    then show ?thesis
      by (intro fl_exact [of "int n" _ 0]) (simp_all add: two_pow_def)
  qed simp
qed

lemma fl_one [simp]: "fl 1 = 1"
  using fl_of_nat [of 1] by simp

text \<open>The result of a rounding is a double: rounding again changes nothing.\<close>

lemma fl_fl [simp]: "fl (fl x) = fl x"
proof (cases "x \<le> 0")
  case True
  then show ?thesis by (simp add: fl_def [of x])
next
  case False
  then have pos: "0 < x" by simp
  let ?r = "round_half_even (x / ulp x)" and ?e = "floor_log2 x"
  have fx: "fl x = of_int ?r * two_pow (?e - 52)"
    using pos by (simp add: fl_def ulp_def)
  have f0: "0 < fl x"
    using fl_binade(1) [OF pos] two_pow_pos [of ?e] by linarith
  show ?thesis
  proof (cases "fl x = two_pow (?e + 1)")
    case True
    have "floor_log2 (fl x) \<le> ?e + 1"
      using f0 True two_pow_Suc [of "?e + 1"] by (intro floor_log2_le) simp_all
    then show ?thesis
      using True by (intro fl_exact [of 1 _ "?e + 1"]) simp_all
  next
    case False
    then have "floor_log2 (fl x) \<le> ?e"
      using f0 fl_binade(2) [OF pos] by (intro floor_log2_le) simp_all
    moreover have "0 \<le> ?r"
      using round_half_even_mono [of 0 "x / ulp x"] pos by simp
    ultimately show ?thesis
      using fx by (intro fl_exact [of ?r _ "?e - 52"]) simp_all
  qed
qed

text \<open>The relative error is at most \<open>2 ^ - 53\<close>.\<close>

lemma fl_error:
  assumes "0 \<le> x"
  shows "\<bar>fl x - x\<bar> \<le> x / 2 ^ 53"
proof (cases "x = 0")
  case False
  with assms have pos: "0 < x" by simp
  have "fl x - x = (of_int (round_half_even (x / ulp x)) - x / ulp x) * ulp x"
    using pos by (simp add: fl_def left_diff_distrib)
  then have "\<bar>fl x - x\<bar> \<le> 1 / 2 * ulp x"
    using round_half_even_error [of "x / ulp x"] by (simp add: abs_mult mult_right_mono)
  also have "\<dots> \<le> x / 2 ^ 53"
    using floor_log2_bounds(1) [OF pos] ulp_scale [of x] by simp
  finally show ?thesis .
qed simp

section \<open>The operations\<close>

text \<open>The conversion of an unsigned integer, and the four operations the sources use.\<close>

definition double_of :: "nat \<Rightarrow> double" where "double_of n = fl (of_nat n)"
definition double_add :: "double \<Rightarrow> double \<Rightarrow> double" where "double_add x y = fl (x + y)"
definition double_mult :: "double \<Rightarrow> double \<Rightarrow> double" where "double_mult x y = fl (x * y)"
definition double_div :: "double \<Rightarrow> double \<Rightarrow> double" where "double_div x y = fl (x / y)"

text \<open>\<open>std::accumulate\<close> style sum: left to right from \<open>0.0\<close>.\<close>

definition double_sum :: "double list \<Rightarrow> double" where
  "double_sum xs = foldl double_add 0 xs"

text \<open>\<open>static_cast<std::size_t>(x)\<close> truncates.\<close>

definition size_of_double :: "double \<Rightarrow> nat" where
  "size_of_double x = nat \<lfloor>x\<rfloor>"

text \<open>\<open>printf\<close> with \<open>%.<n>f\<close>: the exact value rounded to \<open>n\<close> decimals.\<close>

definition pad_left :: "char \<Rightarrow> nat \<Rightarrow> string \<Rightarrow> string" where
  "pad_left c n s = replicate (n - length s) c @ s"

definition format_fixed :: "nat \<Rightarrow> double \<Rightarrow> string" where
  "format_fixed n x =
     (let m = nat (round_half_even (x * 10 ^ n))
      in to_string (m div 10 ^ n) @
         (if n = 0 then [] else ''.'' @ pad_left (CHR ''0'') n (to_string (m mod 10 ^ n))))"

lemma double_of_exact [simp]: "n \<le> 2 ^ 53 \<Longrightarrow> double_of n = of_nat n"
  by (simp add: double_of_def)

lemma double_ops_nonneg [simp]:
  "0 \<le> double_of n" "0 \<le> double_add x y" "0 \<le> double_mult x y" "0 \<le> double_div x y"
  by (simp_all add: double_of_def double_add_def double_mult_def double_div_def)

end
