(* ===== verification/LiveOutput.thy ===== *)
theory LiveOutput
  imports Doubles
begin

unbundle bit_operations_syntax

text \<open>
  \<open>src/src/LiveOutput.h\<close>, \<open>src/src/LiveOutput.cpp\<close> and \<open>src/src/Log.h\<close>: the compact terminal view, a ring
  of the last five event lines below one statistics line, and the conventional log lines used when
  the view is off.

  The single \<open>CompactOutput\<close> object is a record, and its methods return it updated. What they write
  to the standard output is appended to the field \<open>stdout\<close>. What they ask of the operating system
  (is the output a terminal, how wide is it, what time is it) is the argument \<open>tty\<close>.
\<close>

section \<open>Levels and calls\<close>

datatype log_level = Info | Warning | Error | Death

fun levelName :: "log_level \<Rightarrow> string" where
  "levelName Info = ''INFO''"
| "levelName Warning = ''WARNING''"
| "levelName Error = ''ERROR''"
| "levelName Death = ''DEATH''"

text \<open>
  The calls the other components make to this one, in the order they make them. \<open>INFO\<close> and \<open>WARN\<close> of
  \<open>Log.h\<close> are \<open>LogMessage\<close>; a message is what \<open>vsnprintf\<close> makes of the format and its arguments.
\<close>

datatype output_call =
    LogMessage log_level string
  | LogCompactMessage log_level string
  | RecordDatagram nat
  | RecordLatency double

abbreviation INFO :: "string \<Rightarrow> output_call" where "INFO \<equiv> LogMessage Info"
abbreviation WARN :: "string \<Rightarrow> output_call" where "WARN \<equiv> LogMessage Warning"

section \<open>Lines that fit the terminal\<close>

definition fitTerminalLine :: "string \<Rightarrow> nat \<Rightarrow> string" where
  "fitTerminalLine line columns =
     (let maximum = (if columns > 1 then columns - 1 else 1)
      in if length line \<le> maximum then line
         else if maximum \<le> 3 then take maximum line
         else take (maximum - 3) line @ ''...'')"

lemma fitTerminalLine_length: "length (fitTerminalLine line columns) \<le> max 1 (columns - 1)"
  by (auto simp: fitTerminalLine_def Let_def)

lemma fitTerminalLine_id: "length line < columns \<Longrightarrow> fitTerminalLine line columns = line"
  by (auto simp: fitTerminalLine_def Let_def)

section \<open>The compact view\<close>

definition kEventLines :: nat where "kEventLines = 5"
definition kMaxLatencySamples :: nat where "kMaxLatencySamples = 1024"

record compact_output =
  enabled :: bool
  verbose :: bool
  context_line :: string
  event_lines :: "string list"
  next_event :: nat
  event_count :: nat
  datagram_count :: u64
  byte_count :: u64
  latency_samples :: "double list"
  started_at :: nat
  stdout :: string

definition initial_output :: compact_output where
  "initial_output = \<lparr>enabled = False, verbose = False, context_line = '''',
     event_lines = replicate kEventLines '''', next_event = 0, event_count = 0, datagram_count = 0,
     byte_count = 0, latency_samples = [], started_at = 0, stdout = ''''\<rparr>"

text \<open>
  The terminal and the steady clock in nanoseconds. On POSIX systems: whether the standard output is a
  terminal, and the width \<open>ioctl(TIOCGWINSZ)\<close> reports (\<open>None\<close> when the call fails). On Windows: whether it
  is a terminal, the console mode (\<open>None\<close> without a handle or when \<open>GetConsoleMode\<close> fails), which modes
  \<open>SetConsoleMode\<close> accepts, and the left and right column of the window.
\<close>

datatype console =
    Posix_terminal bool "nat option"
  | Windows_console bool "u32 option" "u32 \<Rightarrow> bool" "(int \<times> int) option"

record terminal =
  console :: console
  steady_now :: nat

definition ENABLE_VIRTUAL_TERMINAL_PROCESSING :: u32 where "ENABLE_VIRTUAL_TERMINAL_PROCESSING = 4"

definition enableAnsiTerminal :: "terminal \<Rightarrow> bool" where
  "enableAnsiTerminal tty =
     (case console tty of
        Posix_terminal is_tty window \<Rightarrow> is_tty
      | Windows_console is_tty mode set_mode window \<Rightarrow>
          is_tty \<and> (case mode of None \<Rightarrow> False | Some m \<Rightarrow> set_mode (m OR ENABLE_VIRTUAL_TERMINAL_PROCESSING)))"

definition terminalColumns :: "terminal \<Rightarrow> nat" where
  "terminalColumns tty =
     (case console tty of
        Posix_terminal is_tty window \<Rightarrow> (case window of Some c \<Rightarrow> if c \<noteq> 0 then c else 80 | None \<Rightarrow> 80)
      | Windows_console is_tty mode set_mode window \<Rightarrow>
          (case window of Some (l, r) \<Rightarrow> unat (word_of_int (r - l + 1) :: u64) | None \<Rightarrow> 80))"

definition put :: "string \<Rightarrow> compact_output \<Rightarrow> compact_output" where
  "put s out = out\<lparr>stdout := stdout out @ s\<rparr>"

definition escape_char :: char where "escape_char = CHR 0x1B"
definition newline :: string where "newline = [CHR 0x0A]"

text \<open>\<open>latency[static_cast<std::size_t>(p * static_cast<double>(latency.size() - 1))]\<close>.\<close>

definition percentile_index :: "double \<Rightarrow> nat \<Rightarrow> nat" where
  "percentile_index p n = size_of_double (double_mult p (double_of (n - 1)))"

definition percentile :: "double list \<Rightarrow> double \<Rightarrow> double" where
  "percentile sorted_samples p = sorted_samples ! percentile_index p (length sorted_samples)"

definition p50 :: double where "p50 = fl (1 / 2)"
definition p99 :: double where "p99 = fl (99 / 100)"

definition average_latency :: "double list \<Rightarrow> double" where
  "average_latency sorted_samples =
     double_div (double_sum sorted_samples) (double_of (length sorted_samples))"

text \<open>\<open>snprintf\<close> into \<open>char buffer[320]\<close>.\<close>

definition snprintf320 :: "string \<Rightarrow> string" where
  "snprintf320 s = take 319 s"

definition statisticsLine :: "terminal \<Rightarrow> nat \<Rightarrow> compact_output \<Rightarrow> string" where
  "statisticsLine tty columns out =
     (let elapsed_seconds = double_div (double_of (steady_now tty - started_at out)) (double_of 1000000000);
          count = unat (datagram_count out); total = unat (byte_count out);
          average_size = (if count = 0 then 0 else double_div (double_of total) (double_of count));
          throughput = (if elapsed_seconds \<le> 0 then 0 else double_div (double_of total) elapsed_seconds);
          prefix = (if context_line out = [] then ''Stats'' else context_line out);
          long_head = prefix @ '' | '' @ to_string count @ '' pkts | '' @ format_fixed 1 average_size @
            '' B avg | '' @ format_fixed 1 throughput @ '' B/s | '';
          short_head = prefix @ '' | '' @ to_string count @ '' pkts | '' @ format_fixed 1 average_size @
            '' B | '' @ format_fixed 1 throughput @ '' B/s | ''
      in if latency_samples out = [] then
           (let full_line = snprintf320 (long_head @ ''latency: unavailable'')
            in if length full_line < columns then full_line
               else snprintf320 (short_head @ ''lat: n/a''))
         else
           (let latency = sort (latency_samples out);
                average = format_fixed 2 (average_latency latency);
                q50 = format_fixed 2 (percentile latency p50);
                q99 = format_fixed 2 (percentile latency p99);
                maximum = format_fixed 2 (last latency);
                full_line = snprintf320 (long_head @ ''lat ms: '' @ average @ '' avg / '' @ q50 @
                  '' p50 / '' @ q99 @ '' p99 / '' @ maximum @ '' max'')
            in if length full_line < columns then full_line
               else snprintf320 (short_head @ ''latencies avg/p50/p99/max '' @ average @ ''/'' @ q50 @
                 ''/'' @ q99 @ ''/'' @ maximum @ '' ms'')))"

text \<open>
  The event lines, oldest first: slot \<open>(first_event + index) % kEventLines\<close> for each index below the
  number of events, an empty line for the rest.
\<close>

definition first_event :: "compact_output \<Rightarrow> nat" where
  "first_event out = (if event_count out = kEventLines then next_event out else 0)"

definition shown_event :: "compact_output \<Rightarrow> nat \<Rightarrow> string" where
  "shown_event out index = event_lines out ! ((first_event out + index) mod kEventLines)"

definition render_text :: "terminal \<Rightarrow> compact_output \<Rightarrow> string" where
  "render_text tty out =
     (let columns = terminalColumns tty in
        [escape_char] @ ''[6A'' @ [CHR 0x0D, escape_char] @ ''[2K'' @
        fitTerminalLine (statisticsLine tty columns out) columns @ newline @
        concat (map (\<lambda>index. [CHR 0x0D, escape_char] @ ''[2K'' @
          (if index < event_count out then fitTerminalLine (shown_event out index) columns else []) @
          newline) [0..<kEventLines]))"

definition render :: "terminal \<Rightarrow> compact_output \<Rightarrow> compact_output" where
  "render tty out = put (render_text tty out) out"

definition appendEvent :: "terminal \<Rightarrow> string \<Rightarrow> compact_output \<Rightarrow> compact_output" where
  "appendEvent tty event out =
     render tty (out\<lparr>event_lines := (event_lines out)[next_event out := event],
       next_event := (next_event out + 1) mod kEventLines,
       event_count := (if event_count out < kEventLines then event_count out + 1 else event_count out)\<rparr>)"

definition configureVerbose :: "bool \<Rightarrow> compact_output \<Rightarrow> compact_output" where
  "configureVerbose requested out = out\<lparr>verbose := requested\<rparr>"

definition configure_started :: "terminal \<Rightarrow> compact_output \<Rightarrow> compact_output" where
  "configure_started tty out =
     put ([escape_char] @ ''[?25l'' @ replicate 6 (CHR 0x0A))
       (out\<lparr>enabled := True, started_at := steady_now tty\<rparr>)"

definition configure :: "terminal \<Rightarrow> bool \<Rightarrow> string \<Rightarrow> compact_output \<Rightarrow> compact_output" where
  "configure tty requested ctx out =
     (if \<not> requested then out
      else if \<not> enabled out \<and> \<not> enableAnsiTerminal tty then out
      else (let out = (if enabled out then out else configure_started tty out)
            in render tty (if ctx \<noteq> [] then out\<lparr>context_line := ctx\<rparr> else out)))"

text \<open>\<open>"%-9s %s\n"\<close>.\<close>

definition pad_right :: "nat \<Rightarrow> string \<Rightarrow> string" where
  "pad_right n s = s @ replicate (n - length s) (CHR '' '')"

definition log_event :: "terminal \<Rightarrow> log_level \<Rightarrow> string \<Rightarrow> compact_output \<Rightarrow> compact_output" where
  "log_event tty level message out =
     (if \<not> enabled out then put (pad_right 9 (levelName level) @ '' '' @ message @ newline) out
      else appendEvent tty (levelName level @ ''  '' @ message) out)"

definition logCompact :: "terminal \<Rightarrow> log_level \<Rightarrow> string \<Rightarrow> compact_output \<Rightarrow> compact_output" where
  "logCompact tty level message out =
     (if \<not> enabled out then out
      else if level = Info then appendEvent tty message out
      else appendEvent tty (levelName level @ ''  '' @ message) out)"

definition record_bytes :: "terminal \<Rightarrow> nat \<Rightarrow> compact_output \<Rightarrow> compact_output" where
  "record_bytes tty n out =
     (if \<not> enabled out then out
      else render tty (out\<lparr>datagram_count := datagram_count out + 1,
                           byte_count := byte_count out + of_nat n\<rparr>))"

definition push_bounded :: "nat \<Rightarrow> 'a \<Rightarrow> 'a list \<Rightarrow> 'a list" where
  "push_bounded bound x xs = (let ys = xs @ [x] in if length ys > bound then tl ys else ys)"

definition recordLatencyValue :: "terminal \<Rightarrow> double \<Rightarrow> compact_output \<Rightarrow> compact_output" where
  "recordLatencyValue tty milliseconds out =
     (if \<not> enabled out then out
      else render tty (out\<lparr>latency_samples :=
             push_bounded kMaxLatencySamples milliseconds (latency_samples out)\<rparr>))"

definition destroy_output :: "compact_output \<Rightarrow> compact_output" where
  "destroy_output out =
     (if enabled out then put ([escape_char] @ ''[?25h'' @ newline) out else out)"

text \<open>
  The functions of \<open>LiveOutput.h\<close>: \<open>logMessage\<close> and \<open>logCompactMessage\<close> format into a buffer of 1024
  characters; \<open>logCompactMessage\<close> returns at once when the view is off.
\<close>

fun perform :: "terminal \<Rightarrow> output_call \<Rightarrow> compact_output \<Rightarrow> compact_output" where
  "perform tty (LogMessage level message) out = log_event tty level (take 1023 message) out"
| "perform tty (LogCompactMessage level message) out =
     (if \<not> enabled out then out else logCompact tty level (take 1023 message) out)"
| "perform tty (RecordDatagram n) out = record_bytes tty n out"
| "perform tty (RecordLatency ms) out = recordLatencyValue tty ms out"

text \<open>A run: each call with the terminal as it is when the call is made.\<close>

fun perform_all :: "(terminal \<times> output_call) list \<Rightarrow> compact_output \<Rightarrow> compact_output" where
  "perform_all [] out = out"
| "perform_all ((tty, call) # calls) out = perform_all calls (perform tty call out)"

section \<open>The view the ring buffer implements\<close>

text \<open>
  The promise of the view: it shows the five most recent events, oldest first, the totals, and
  keeps the latency samples of the most recent 1024 datagrams. \<open>view_perform\<close> states it on plain
  lists, and the ring buffer implements it.
\<close>

record view =
  view_events :: "string list"
  view_count :: u64
  view_bytes :: u64
  view_latencies :: "double list"

definition view_of :: "compact_output \<Rightarrow> view" where
  "view_of out = \<lparr>view_events = map (shown_event out) [0..<event_count out],
     view_count = datagram_count out, view_bytes = byte_count out,
     view_latencies = latency_samples out\<rparr>"

definition event_text :: "log_level \<Rightarrow> string \<Rightarrow> string" where
  "event_text level message = levelName level @ ''  '' @ message"

fun view_perform :: "output_call \<Rightarrow> view \<Rightarrow> view" where
  "view_perform (LogMessage level message) v =
     v\<lparr>view_events := push_bounded kEventLines (event_text level (take 1023 message)) (view_events v)\<rparr>"
| "view_perform (LogCompactMessage level message) v =
     v\<lparr>view_events := push_bounded kEventLines
         (if level = Info then take 1023 message else event_text level (take 1023 message))
         (view_events v)\<rparr>"
| "view_perform (RecordDatagram n) v =
     v\<lparr>view_count := view_count v + 1, view_bytes := view_bytes v + of_nat n\<rparr>"
| "view_perform (RecordLatency ms) v =
     v\<lparr>view_latencies := push_bounded kMaxLatencySamples ms (view_latencies v)\<rparr>"

text \<open>The well-formed states of the ring.\<close>

definition output_wf :: "compact_output \<Rightarrow> bool" where
  "output_wf out \<longleftrightarrow>
     length (event_lines out) = kEventLines \<and> next_event out < kEventLines \<and>
     event_count out \<le> kEventLines \<and>
     (event_count out < kEventLines \<longrightarrow> next_event out = event_count out) \<and>
     length (latency_samples out) \<le> kMaxLatencySamples"

lemma output_wf_initial: "output_wf initial_output"
  by (simp add: output_wf_def initial_output_def kEventLines_def)

lemma push_bounded_length: "length xs \<le> b \<Longrightarrow> length (push_bounded b x xs) \<le> b"
  by (simp add: push_bounded_def Let_def)

lemma push_bounded_last:
  "push_bounded b x (drop (length xs - b) xs) = drop (length (xs @ [x]) - b) (xs @ [x])"
  if "0 < b"
proof (cases "length xs < b")
  case True
  then show ?thesis by (simp add: push_bounded_def)
next
  case False
  then have "drop (length xs - b) xs \<noteq> []"
    using that by simp
  with False that show ?thesis
    by (simp add: push_bounded_def Let_def tl_drop [symmetric] drop_Suc Suc_diff_le)
qed

lemma put_simps [simp]:
  "enabled (put s out) = enabled out" "verbose (put s out) = verbose out"
  "context_line (put s out) = context_line out" "event_lines (put s out) = event_lines out"
  "next_event (put s out) = next_event out" "event_count (put s out) = event_count out"
  "datagram_count (put s out) = datagram_count out" "byte_count (put s out) = byte_count out"
  "latency_samples (put s out) = latency_samples out" "started_at (put s out) = started_at out"
  by (simp_all add: put_def)

lemma put_view [simp]: "view_of (put s out) = view_of out" "output_wf (put s out) = output_wf out"
  by (simp_all add: view_of_def output_wf_def shown_event_def first_event_def)

lemma render_simps [simp]:
  "enabled (render tty out) = enabled out" "view_of (render tty out) = view_of out"
  "output_wf (render tty out) = output_wf out"
  by (simp_all add: render_def)

lemma appendEvent_wf: "output_wf out \<Longrightarrow> output_wf (appendEvent tty e out)"
  unfolding appendEvent_def render_simps by (auto simp: output_wf_def kEventLines_def)

text \<open>Appending to the ring is appending to the list of shown events and dropping the oldest.\<close>

lemma appendEvent_shown:
  assumes "output_wf out"
  shows "view_of (appendEvent tty e out) =
    (view_of out)\<lparr>view_events := push_bounded kEventLines e (view_events (view_of out))\<rparr>"
proof -
  let ?out = "out\<lparr>event_lines := (event_lines out)[next_event out := e],
    next_event := (next_event out + 1) mod kEventLines,
    event_count := (if event_count out < kEventLines then event_count out + 1 else event_count out)\<rparr>"
  have len: "length (event_lines out) = 5"
    using assms by (simp add: output_wf_def kEventLines_def)
  have "map (shown_event ?out) [0..<event_count ?out] =
      push_bounded kEventLines e (map (shown_event out) [0..<event_count out])"
  proof (cases "event_count out < 5")
    case True
    then have "next_event out = event_count out"
      using assms by (simp add: output_wf_def kEventLines_def)
    with True len show ?thesis
      by (auto simp: shown_event_def first_event_def kEventLines_def push_bounded_def)
  next
    case False
    then have full: "event_count out = 5" and "next_event out < 5"
      using assms by (auto simp: output_wf_def kEventLines_def)
    then consider "next_event out = 0" | "next_event out = 1" | "next_event out = 2"
      | "next_event out = 3" | "next_event out = 4"
      by linarith
    moreover have "[0..<5] = [0, 1, 2, 3, 4::nat]"
      by (simp add: upt_rec)
    ultimately show ?thesis
      using full len
      by cases (simp_all add: shown_event_def first_event_def kEventLines_def push_bounded_def
          numeral_2_eq_2)
  qed
  then show ?thesis
    unfolding appendEvent_def render_simps by (simp add: view_of_def)
qed

lemma perform_wf: "output_wf out \<Longrightarrow> output_wf (perform tty call out)"
  by (cases call)
    (auto simp: log_event_def logCompact_def record_bytes_def recordLatencyValue_def appendEvent_wf,
     auto simp: output_wf_def push_bounded_length)

lemma perform_enabled [simp]: "enabled (perform tty call out) = enabled out"
  by (cases call)
    (auto simp: log_event_def logCompact_def record_bytes_def recordLatencyValue_def appendEvent_def)

lemma perform_view:
  assumes "output_wf out" and "enabled out"
  shows "view_of (perform tty call out) = view_perform call (view_of out)"
  using assms
  by (cases call)
    (simp_all add: log_event_def logCompact_def record_bytes_def recordLatencyValue_def
      appendEvent_shown event_text_def, simp_all add: view_of_def shown_event_def first_event_def)

lemma perform_all_view:
  assumes "output_wf out" and "enabled out"
  shows "view_of (perform_all calls out) = fold view_perform (map snd calls) (view_of out)"
  using assms by (induction calls out rule: perform_all.induct) (auto simp: perform_view perform_wf)

text \<open>When the view is off, only conventional log lines are written and nothing is counted.\<close>

lemma perform_disabled:
  assumes "\<not> enabled out"
  shows "perform tty call out =
    (case call of LogMessage level message \<Rightarrow>
       put (pad_right 9 (levelName level) @ '' '' @ take 1023 message @ newline) out | _ \<Rightarrow> out)"
  using assms
  by (cases call) (auto simp: log_event_def logCompact_def record_bytes_def recordLatencyValue_def)

section \<open>Percentiles\<close>

lemma percentile_index_bound:
  assumes "0 < n" and "n \<le> 2 ^ 53" and "p \<le> 1"
  shows "percentile_index p n < n"
proof -
  have d: "double_of (n - 1) = of_nat (n - 1)"
    using assms by simp
  have "double_mult p (double_of (n - 1)) \<le> fl (of_nat (n - 1))"
    unfolding double_mult_def d using assms(3) by (intro fl_mono) (simp add: mult_left_le_one_le mult_right_le_one_le mult_le_cancel_right2)
  also have "\<dots> = of_nat (n - 1)"
    using assms by (intro fl_of_nat) simp
  finally have "\<lfloor>double_mult p (double_of (n - 1))\<rfloor> \<le> int (n - 1)"
    by (metis floor_mono floor_of_nat)
  then show ?thesis
    using assms(1) by (simp add: percentile_index_def size_of_double_def)
qed

lemma percentile_index_mono:
  "p \<le> q \<Longrightarrow> percentile_index p n \<le> percentile_index q n"
  by (auto simp: percentile_index_def size_of_double_def double_mult_def double_of_def
      intro!: nat_mono floor_mono fl_mono mult_right_mono)

lemma p50_p99: "p50 \<le> p99" "p99 \<le> 1" "p50 \<le> 1"
proof -
  show "p50 \<le> p99" unfolding p50_def p99_def by (rule fl_mono) simp
  show "p99 \<le> 1" unfolding p99_def using fl_mono [of "99 / 100" 1] by simp
  show "p50 \<le> 1" unfolding p50_def using fl_mono [of "1 / 2" 1] by simp
qed

lemma sorted_percentiles:
  assumes "xs \<noteq> []" and "length xs \<le> kMaxLatencySamples"
  shows "percentile (sort xs) p50 \<le> percentile (sort xs) p99 \<and>
    percentile (sort xs) p99 \<le> last (sort xs) \<and> percentile (sort xs) p50 \<in> set xs \<and>
    percentile (sort xs) p99 \<in> set xs"
proof -
  let ?n = "length (sort xs)"
  have n: "0 < ?n" "?n \<le> 2 ^ 53"
    using assms by (simp_all add: kMaxLatencySamples_def)
  note bound = percentile_index_bound [OF n p50_p99(3)] percentile_index_bound [OF n p50_p99(2)]
  have "sort xs ! percentile_index p50 ?n \<le> sort xs ! percentile_index p99 ?n"
    by (intro sorted_nth_mono sorted_sort percentile_index_mono p50_p99(1) bound)
  moreover have "sort xs ! percentile_index p99 ?n \<le> sort xs ! (?n - 1)"
    using bound(2) n(1) by (intro sorted_nth_mono sorted_sort) auto
  moreover have "sort xs ! i \<in> set xs" if "i < ?n" for i
    using nth_mem [OF that] by simp
  moreover have "last (sort xs) = sort xs ! (?n - 1)"
    using assms(1) by (intro last_conv_nth) (metis length_0_conv length_sort)
  ultimately show ?thesis
    using bound by (simp add: percentile_def)
qed

section \<open>Histories of calls\<close>

text \<open>What the calls of a run contribute: event texts, datagram lengths, latencies.\<close>

fun call_events :: "output_call \<Rightarrow> string list" where
  "call_events (LogMessage level message) = [event_text level (take 1023 message)]"
| "call_events (LogCompactMessage level message) =
     [if level = Info then take 1023 message else event_text level (take 1023 message)]"
| "call_events _ = []"

fun call_datagrams :: "output_call \<Rightarrow> nat list" where
  "call_datagrams (RecordDatagram n) = [n]"
| "call_datagrams _ = []"

fun call_latencies :: "output_call \<Rightarrow> double list" where
  "call_latencies (RecordLatency ms) = [ms]"
| "call_latencies _ = []"

definition last_of :: "nat \<Rightarrow> 'a list \<Rightarrow> 'a list" where
  "last_of b xs = drop (length xs - b) xs"

lemma last_of_Nil [simp]: "last_of b [] = []"
  by (simp add: last_of_def)

lemma push_last_of: "0 < b \<Longrightarrow> push_bounded b x (last_of b xs) = last_of b (xs @ [x])"
  unfolding last_of_def by (rule push_bounded_last)

lemma fold_view_perform:
  "fold view_perform calls \<lparr>view_events = [], view_count = 0, view_bytes = 0, view_latencies = []\<rparr> =
   \<lparr>view_events = last_of kEventLines (concat (map call_events calls)),
    view_count = of_nat (length (concat (map call_datagrams calls))),
    view_bytes = of_nat (sum_list (concat (map call_datagrams calls))),
    view_latencies = last_of kMaxLatencySamples (concat (map call_latencies calls))\<rparr>"
proof (induction calls rule: rev_induct)
  case (snoc call calls)
  have pos: "0 < kEventLines" "0 < kMaxLatencySamples"
    by (simp_all add: kEventLines_def kMaxLatencySamples_def)
  show ?case
    using snoc by (cases call) (simp_all add: push_last_of pos)
qed simp

lemma configured_output:
  assumes "enableAnsiTerminal tty"
  shows "output_wf (configure tty True ctx initial_output) \<and>
    enabled (configure tty True ctx initial_output) \<and>
    view_of (configure tty True ctx initial_output) =
      \<lparr>view_events = [], view_count = 0, view_bytes = 0, view_latencies = []\<rparr>"
  using assms
  by (cases "ctx = []")
    (simp_all add: configure_def configure_started_def initial_output_def output_wf_def view_of_def
      kEventLines_def put_def render_def Let_def)

text \<open>
  C20. The view shows what happened. From the moment it is switched on at a terminal, after any calls at
  all, the ring buffer holds the texts of the five most recent log calls, oldest first, the counters
  hold the number and the sum of the lengths of the datagrams (modulo the width of \<open>size_t\<close>), and the
  latencies are those of the 1024 most recent measurements.
\<close>

theorem live_view_history:
  assumes "enableAnsiTerminal tty"
  shows "view_of (perform_all calls (configure tty True ctx initial_output)) =
    \<lparr>view_events = last_of kEventLines (concat (map (call_events \<circ> snd) calls)),
     view_count = of_nat (length (concat (map (call_datagrams \<circ> snd) calls))),
     view_bytes = of_nat (sum_list (concat (map (call_datagrams \<circ> snd) calls))),
     view_latencies = last_of kMaxLatencySamples (concat (map (call_latencies \<circ> snd) calls))\<rparr>"
  using configured_output [OF assms, of ctx] perform_all_view [of "configure tty True ctx initial_output" calls]
  by (simp add: fold_view_perform)

theorem live_view_history_witness:
  "view_events (view_of (perform_all
      (map (Pair \<lparr>console = Posix_terminal True None, steady_now = 7\<rparr>)
        [LogMessage Warning ''a'', RecordDatagram 9, LogCompactMessage Info ''b''])
      (configure \<lparr>console = Posix_terminal True None, steady_now = 7\<rparr> True ''c'' initial_output))) =
    [''WARNING  a'', ''b'']"
  using live_view_history [of "\<lparr>console = Posix_terminal True None, steady_now = 7\<rparr>"
      "map (Pair \<lparr>console = Posix_terminal True None, steady_now = 7\<rparr>)
        [LogMessage Warning ''a'', RecordDatagram 9, LogCompactMessage Info ''b'']" "''c''"]
  by (simp add: last_of_def kEventLines_def event_text_def enableAnsiTerminal_def)

text \<open>
  C33. The percentiles of the statistics line are samples, and they are in order: with 1 to 1024
  samples neither index leaves the sorted list, and p50 \<open>\<le>\<close> p99 \<open>\<le>\<close> the maximum, for
  the indices as floating-point arithmetic computes them.
\<close>

theorem statistics_percentiles:
  assumes "latency_samples out \<noteq> []" and "output_wf out"
  shows "let xs = sort (latency_samples out); n = length xs in
    percentile_index p50 n < n \<and> percentile_index p99 n < n \<and>
    percentile xs p50 \<in> set xs \<and> percentile xs p99 \<in> set xs \<and>
    percentile xs p50 \<le> percentile xs p99 \<and> percentile xs p99 \<le> last xs"
proof -
  have "length (latency_samples out) \<le> kMaxLatencySamples"
    using assms(2) by (simp add: output_wf_def)
  moreover from this assms(1) have "0 < length (latency_samples out)" "length (latency_samples out) \<le> 2 ^ 53"
    by (simp_all add: kMaxLatencySamples_def)
  ultimately show ?thesis
    using sorted_percentiles [OF assms(1)] percentile_index_bound p50_p99 by (simp add: Let_def)
qed

theorem statistics_percentiles_witness:
  "percentile (sort [3, 1, 2]) p50 \<le> percentile (sort [3, 1, 2]) p99"
  using statistics_percentiles [of "initial_output\<lparr>latency_samples := [3, 1, 2]\<rparr>"] output_wf_initial
  by (simp add: Let_def output_wf_def kMaxLatencySamples_def)

text \<open>
  A line the view writes stays clear of the last column: its text is shorter than the width of the
  terminal (two columns or more), and it is the line itself when that is short enough, or else a
  beginning of it, with an ellipsis when there is room for one.
\<close>

theorem fitTerminalLine_fits:
  assumes "2 \<le> columns"
  shows "length (fitTerminalLine line columns) < columns \<and>
    (fitTerminalLine line columns = line \<and> length line < columns \<or>
     columns \<le> length line \<and> (\<exists>beginning. prefix beginning line \<and>
       fitTerminalLine line columns = beginning @ (if 4 < columns then ''...'' else [])))"
  using assms by (auto simp: fitTerminalLine_def Let_def take_is_prefix)

theorem fitTerminalLine_fits_witness:
  "length (fitTerminalLine ''WARNING  Discarding jumbo datagram.'' 12) < 12"
  using fitTerminalLine_fits [of 12 "''WARNING  Discarding jumbo datagram.''"] by simp

end
