(* ===== verification/Tunneler.thy ===== *)
theory Tunneler
  imports Network LiveOutput
begin

text \<open>
  What the client and the server of \<open>src/src/DatagramTunneler.cpp\<close> share: the configuration, the
  construction of a tunneler with the socket calls of its set-up, and \<open>sendTCPData\<close>.

  A tunneler's effects on the outside are recorded in a trace, in the order the code has them. The
  socket calls of the set-up succeed or fail with an error code, which the argument \<open>sys\<close> decides.
\<close>

section \<open>Configuration\<close>

record config =
  is_client :: bool
  udp_iface_ip :: string
  udp_iface_reference :: string
  tcp_iface_ip :: string
  tcp_srv_port :: u16
  udp_dst_ip :: string
  udp_dst_port :: u16
  tcp_srv_ip :: string
  use_clt_grp :: bool
  verbose_output :: bool

definition default_config :: config where
  "default_config = \<lparr>is_client = False, udp_iface_ip = '''', udp_iface_reference = '''',
     tcp_iface_ip = '''', tcp_srv_port = 0, udp_dst_ip = '''', udp_dst_port = 0, tcp_srv_ip = '''',
     use_clt_grp = False, verbose_output = False\<rparr>"

definition isComplete :: "config \<Rightarrow> bool" where
  "isComplete cfg =
     (if udp_iface_ip cfg = [] \<or> tcp_srv_port cfg = 0 then False
      else if is_client cfg then
        (if tcp_srv_ip cfg = [] \<or> udp_dst_ip cfg = [] \<or> udp_dst_port cfg = 0 then False else True)
      else if \<not> use_clt_grp cfg \<and> (udp_dst_ip cfg = [] \<or> udp_dst_port cfg = 0) then False
      else True)"

lemma isComplete_iff:
  "isComplete cfg \<longleftrightarrow>
     udp_iface_ip cfg \<noteq> [] \<and> tcp_srv_port cfg \<noteq> 0 \<and>
     (is_client cfg \<longrightarrow> tcp_srv_ip cfg \<noteq> []) \<and>
     (is_client cfg \<or> \<not> use_clt_grp cfg \<longrightarrow> udp_dst_ip cfg \<noteq> [] \<and> udp_dst_port cfg \<noteq> 0)"
  by (auto simp: isComplete_def)

section \<open>Effects and outcomes\<close>

text \<open>\<open>sockaddr_in\<close> of family \<open>AF_INET\<close>: port and address as they lie in memory.\<close>

record endpoint_address =
  sin_port :: u16
  sin_addr :: u32

datatype effect =
    Output output_call
  | Tcp_sent bytes
  | Published endpoint_address bytes
  | Connection_connected
  | Observed nat "double option"
  | Joined_group u32 u32

record io =
  trace :: "effect list"

definition emit :: "effect list \<Rightarrow> 'a io_scheme \<Rightarrow> 'a io_scheme" where
  "emit es s = s\<lparr>trace := trace s @ es\<rparr>"

lemma emit_trace [simp]: "trace (emit es s) = trace s @ es"
  by (simp add: emit_def)

text \<open>What the observer is told of datagrams: their lengths and latencies.\<close>

definition observed :: "effect list \<Rightarrow> (nat \<times> double option) list" where
  "observed es = concat (map (\<lambda>e. case e of Observed n l \<Rightarrow> [(n, l)] | _ \<Rightarrow> []) es)"

lemma observed_simps [simp]:
  "observed [] = []" "observed (xs @ ys) = observed xs @ observed ys"
  "observed (Observed n l # es) = (n, l) # observed es"
  "observed (Output c # es) = observed es" "observed (Tcp_sent bs # es) = observed es"
  "observed (Published t bs # es) = observed es"
  by (simp_all add: observed_def)

text \<open>The datagrams published in a trace, with their targets.\<close>

definition published :: "effect list \<Rightarrow> (endpoint_address \<times> bytes) list" where
  "published es = concat (map (\<lambda>e. case e of Published target data \<Rightarrow> [(target, data)] | _ \<Rightarrow> []) es)"

lemma published_simps [simp]:
  "published [] = []" "published (xs @ ys) = published xs @ published ys"
  "published (Published t d # es) = (t, d) # published es"
  "published (Output c # es) = published es" "published (Observed n l # es) = published es"
  by (simp_all add: published_def)

text \<open>
  Where a run is: the loop goes on, the method returned, it threw, an \<open>assert\<close> aborted the program,
  a blocking call has not returned, or a write left its buffer.
\<close>

datatype 's outcome =
    Running 's
  | Returned 's
  | Threw string 's
  | Aborted 's
  | Blocked 's
  | Out_of_bounds 's

fun final_state :: "'s outcome \<Rightarrow> 's" where
  "final_state (Running s) = s"
| "final_state (Returned s) = s"
| "final_state (Threw m s) = s"
| "final_state (Aborted s) = s"
| "final_state (Blocked s) = s"
| "final_state (Out_of_bounds s) = s"

fun is_running :: "'s outcome \<Rightarrow> bool" where
  "is_running (Running s) = True"
| "is_running _ = False"

text \<open>
  How the program was built and started: without assertions (\<open>NDEBUG\<close>), with the compact terminal
  view, with \<open>--verbose\<close>.
\<close>

record run_mode =
  ndebug :: bool
  compact_mode :: bool
  verbose_mode :: bool

text \<open>\<open>throwTunnelError\<close> formats into \<open>char message[512]\<close>.\<close>

definition tunnel_error :: "string \<Rightarrow> string" where
  "tunnel_error message = take 511 message"

lemma tunnel_error_short: "length message \<le> 511 \<Longrightarrow> tunnel_error message = message"
  by (simp add: tunnel_error_def)

section \<open>Set-up\<close>

datatype syscall =
    Sys_socket_dgram
  | Sys_socket_stream
  | Sys_udp_receive_timeout receive_timeout
  | Sys_bind_udp u16 u32
  | Sys_no_sigpipe
  | Sys_multicast_if u32
  | Sys_multicast_loop u8
  | Sys_bind_tcp u16 u32

text \<open>\<open>sys c\<close> is the error code of the call \<open>c\<close>, \<open>None\<close> when it succeeds.\<close>

type_synonym sys = "syscall \<Rightarrow> int option"

definition call_or_throw :: "sys \<Rightarrow> syscall \<Rightarrow> (int \<Rightarrow> string) \<Rightarrow> string + syscall list" where
  "call_or_throw sys c message = (case sys c of None \<Rightarrow> Inr [c] | Some e \<Rightarrow> Inl (message e))"

fun calls_in_order :: "(string + syscall list) list \<Rightarrow> string + syscall list" where
  "calls_in_order [] = Inr []"
| "calls_in_order (m # ms) = and_then m (\<lambda>cs. and_then (calls_in_order ms) (\<lambda>rest. Inr (cs @ rest)))"

definition createSocket :: "sys \<Rightarrow> syscall \<Rightarrow> string + syscall list" where
  "createSocket sys c =
     call_or_throw sys c (\<lambda>e. ''Could not create socket! Error '' @ show_int e)"

definition kHeartbeatPeriodSeconds :: int where "kHeartbeatPeriodSeconds = 5"
definition INADDR_ANY :: u32 where "INADDR_ANY = 0"

definition setupClient :: "os \<Rightarrow> sys \<Rightarrow> config \<Rightarrow> string + syscall list" where
  "setupClient os sys cfg = calls_in_order (
     [createSocket sys Sys_socket_dgram,
      call_or_throw sys
        (Sys_udp_receive_timeout (receive_timeout_value (os_platform os) kHeartbeatPeriodSeconds))
        (\<lambda>e. tunnel_error (''Could not set receive timeout on UDP socket! Error '' @ show_int e)),
      call_or_throw sys (Sys_bind_udp (htons (os_order os) (udp_dst_port cfg)) INADDR_ANY)
        (\<lambda>e. tunnel_error (''Could not bind UDP socket to port '' @ to_string (unat (udp_dst_port cfg)) @
           ''! Error '' @ show_int e)),
      createSocket sys Sys_socket_stream] @
     (if os_platform os = MacOS then
        [call_or_throw sys Sys_no_sigpipe
           (\<lambda>e. tunnel_error (''Could not prevent TCP socket to send SIGPIPE on disconnect! Error '' @
              show_int e))]
      else []))"

definition setupServer :: "os \<Rightarrow> sys \<Rightarrow> config \<Rightarrow> string + syscall list" where
  "setupServer os sys cfg = calls_in_order (
     [createSocket sys Sys_socket_dgram,
      call_or_throw sys (Sys_multicast_if (os_inet_addr os (c_str (udp_iface_ip cfg))))
        (\<lambda>e. tunnel_error (''Could not set UDP publisher interface to '' @ c_str (udp_iface_ip cfg) @
           ''! Error '' @ show_int e))] @
     (if use_clt_grp cfg then
        [call_or_throw sys (Sys_multicast_loop 0)
           (\<lambda>e. tunnel_error (''Could not disable multicast loopback for client-group replication! Error '' @
              show_int e))]
      else []) @
     [createSocket sys Sys_socket_stream,
      call_or_throw sys (Sys_bind_tcp (htons (os_order os) (tcp_srv_port cfg)) INADDR_ANY)
        (\<lambda>e. tunnel_error (''Could not bind TCP socket to port '' @ to_string (unat (tcp_srv_port cfg)) @
           ''! Error '' @ show_int e))])"

text \<open>
  The constructor: the interface reference is kept for messages, the interface is resolved, and the
  sockets of the side are set up. It yields the configuration it keeps and the calls it made.
\<close>

definition resolve_config :: "os \<Rightarrow> config \<Rightarrow> string + config" where
  "resolve_config os cfg =
     (let cfg = (if udp_iface_reference cfg = [] then cfg\<lparr>udp_iface_reference := udp_iface_ip cfg\<rparr> else cfg)
      in case resolveInterfaceIpv4 os (udp_iface_ip cfg) of
           None \<Rightarrow> Inl (''could not resolve UDP interface '' @ quoted (udp_iface_reference cfg) @
                     '' to an IPv4 address'')
         | Some ip \<Rightarrow> Inr (cfg\<lparr>udp_iface_ip := ip\<rparr>))"

definition construct_tunneler :: "os \<Rightarrow> sys \<Rightarrow> config \<Rightarrow> string + config \<times> syscall list" where
  "construct_tunneler os sys cfg =
     and_then (resolve_config os cfg) (\<lambda>cfg.
     and_then (if is_client cfg then setupClient os sys cfg else setupServer os sys cfg) (\<lambda>calls.
     Inr (cfg, calls)))"

lemma call_or_throw_Inr:
  "call_or_throw sys c message = Inr cs \<longleftrightarrow> sys c = None \<and> cs = [c]"
  "Inr cs = call_or_throw sys c message \<longleftrightarrow> sys c = None \<and> cs = [c]"
  by (auto simp: call_or_throw_def split: option.splits)

lemma calls_in_order_Inr:
  "calls_in_order ms = Inr cs \<longleftrightarrow> (\<exists>css. ms = map Inr css \<and> cs = concat css)"
proof (induction ms arbitrary: cs)
  case (Cons m ms)
  show ?case
    by (cases m) (auto simp: and_then_eq_Inr Cons.IH map_eq_Cons_conv Cons_eq_map_conv)
qed auto

lemma calls_all_succeed:
  assumes "calls_in_order ms = Inr cs"
    and "\<And>m css. m \<in> set ms \<Longrightarrow> m = Inr css \<Longrightarrow> list_all (\<lambda>c. sys c = None) css"
  shows "list_all (\<lambda>c. sys c = None) cs"
  using assms by (fastforce simp: calls_in_order_Inr list_all_iff)

lemma call_made:
  assumes "calls_in_order ms = Inr cs" and "call_or_throw sys c message \<in> set ms"
  shows "c \<in> set cs"
proof -
  obtain css where css: "ms = map Inr css" "cs = concat css"
    using assms(1) by (auto simp: calls_in_order_Inr)
  with assms(2) obtain x where "x \<in> set css" "call_or_throw sys c message = Inr x"
    by auto
  with css show ?thesis
    by (auto simp: call_or_throw_Inr intro: bexI [of _ x])
qed

lemma setup_succeeds:
  "setupClient os sys cfg = Inr cs \<Longrightarrow> list_all (\<lambda>c. sys c = None) cs"
  "setupServer os sys cfg = Inr cs \<Longrightarrow> list_all (\<lambda>c. sys c = None) cs"
  unfolding setupClient_def setupServer_def createSocket_def
  by (erule calls_all_succeed; auto simp: call_or_throw_Inr split: if_splits)+

lemma setupClient_binds:
  assumes "setupClient os sys cfg = Inr cs"
  shows "Sys_bind_udp (htons (os_order os) (udp_dst_port cfg)) INADDR_ANY \<in> set cs"
  by (rule call_made [OF assms [unfolded setupClient_def]]) (simp, blast)

lemma setupServer_binds:
  assumes "setupServer os sys cfg = Inr cs"
  shows "Sys_bind_tcp (htons (os_order os) (tcp_srv_port cfg)) INADDR_ANY \<in> set cs"
    and "Sys_multicast_if (os_inet_addr os (c_str (udp_iface_ip cfg))) \<in> set cs"
    and "use_clt_grp cfg \<Longrightarrow> Sys_multicast_loop 0 \<in> set cs"
  by (rule call_made [OF assms [unfolded setupServer_def]], simp, blast)+

lemma resolve_config_Inr:
  assumes "ntop_readable os" and "resolve_config os cfg = Inr cfg'"
  shows "(\<exists>a. os_inet_pton os (c_str (udp_iface_ip cfg')) = Some a) \<and>
    resolveInterfaceIpv4 os (udp_iface_ip cfg') = Some (udp_iface_ip cfg') \<and>
    cfg' = cfg\<lparr>udp_iface_ip := udp_iface_ip cfg',
      udp_iface_reference := (if udp_iface_reference cfg = [] then udp_iface_ip cfg else udp_iface_reference cfg)\<rparr>"
  using assms resolve_gives_address resolve_idem
  by (auto simp: resolve_config_def Let_def split: option.splits if_splits)

text \<open>
  C31. A tunneler that was constructed is ready to run: its interface is the text of an IPv4 address (one
  that resolves to itself), whatever name was configured, the configured name is kept for messages and
  nothing else of the configuration changed; every socket call succeeded; a client has bound the group's
  port; a server has bound the TCP port, has chosen the resolved interface for publishing and, when it
  republishes to the client's group, has turned the multicast loop off.
\<close>

theorem construct_ready:
  assumes "ntop_readable os" and "construct_tunneler os sys cfg = Inr (cfg', calls)"
  shows "(\<exists>a. os_inet_pton os (c_str (udp_iface_ip cfg')) = Some a) \<and>
    resolveInterfaceIpv4 os (udp_iface_ip cfg') = Some (udp_iface_ip cfg') \<and>
    cfg' = cfg\<lparr>udp_iface_ip := udp_iface_ip cfg',
      udp_iface_reference := (if udp_iface_reference cfg = [] then udp_iface_ip cfg else udp_iface_reference cfg)\<rparr> \<and>
    list_all (\<lambda>c. sys c = None) calls \<and>
    (if is_client cfg then Sys_bind_udp (htons (os_order os) (udp_dst_port cfg)) INADDR_ANY \<in> set calls
     else Sys_bind_tcp (htons (os_order os) (tcp_srv_port cfg)) INADDR_ANY \<in> set calls \<and>
       Sys_multicast_if (os_inet_addr os (c_str (udp_iface_ip cfg'))) \<in> set calls \<and>
       (use_clt_grp cfg \<longrightarrow> Sys_multicast_loop 0 \<in> set calls))"
proof -
  have r: "resolve_config os cfg = Inr cfg'"
    and s: "(if is_client cfg' then setupClient os sys cfg' else setupServer os sys cfg') = Inr calls"
    using assms(2) by (auto simp: construct_tunneler_def and_then_eq_Inr)
  note res = resolve_config_Inr [OF assms(1) r]
  from res have same: "is_client cfg' = is_client cfg" "udp_dst_port cfg' = udp_dst_port cfg"
    "tcp_srv_port cfg' = tcp_srv_port cfg" "use_clt_grp cfg' = use_clt_grp cfg"
    by (metis (no_types) config.select_convs config.surjective config.update_convs)+
  have "list_all (\<lambda>c. sys c = None) calls \<and>
    (if is_client cfg then Sys_bind_udp (htons (os_order os) (udp_dst_port cfg)) INADDR_ANY \<in> set calls
     else Sys_bind_tcp (htons (os_order os) (tcp_srv_port cfg)) INADDR_ANY \<in> set calls \<and>
       Sys_multicast_if (os_inet_addr os (c_str (udp_iface_ip cfg'))) \<in> set calls \<and>
       (use_clt_grp cfg \<longrightarrow> Sys_multicast_loop 0 \<in> set calls))"
    using s setup_succeeds [of os sys cfg' calls] setupClient_binds [of os sys cfg' calls]
      setupServer_binds [of os sys cfg' calls] same
    by (cases "is_client cfg") auto
  with res show ?thesis by blast
qed

section \<open>Sending a whole buffer\<close>

text \<open>What \<open>send\<close> returned: an accepted number of bytes, or an error.\<close>

datatype send_result = Sent nat | Send_error int

datatype send_outcome =
    Send_ok
  | Send_failed int
  | Send_zero
  | Send_assertion
  | Send_pending

text \<open>
  \<open>sendTCPData\<close>: the result of the loop and the bytes the connection accepted. The list holds what the
  successive \<open>send\<close> calls return; when it is used up, the next call has not returned yet. \<open>Send_assertion\<close> is a
  \<open>send\<close> that reports more bytes than it was given, which no system does: a debug build stops at the
  assertion, and in a release build, without it, the length left to send would wrap around.
\<close>

fun sendTCPData :: "bytes \<Rightarrow> send_result list \<Rightarrow> send_outcome \<times> bytes" where
  "sendTCPData data [] = (Send_pending, [])"
| "sendTCPData data (r # rs) =
     (case r of
        Send_error e \<Rightarrow> (Send_failed e, [])
      | Sent n \<Rightarrow>
          if n = 0 then (Send_zero, [])
          else if length data < n then (Send_assertion, [])
          else if length data - n \<noteq> 0 then
            (let (result, rest) = sendTCPData (drop n data) rs in (result, take n data @ rest))
          else (Send_ok, take n data))"

lemma sendTCPData_prefix: "prefix (snd (sendTCPData data rs)) data"
proof (induction data rs rule: sendTCPData.induct)
  case (2 data r rs)
  show ?case
  proof (cases r)
    case (Sent n)
    show ?thesis
    proof (cases "n \<noteq> 0 \<and> n < length data")
      case True
      have "prefix (snd (sendTCPData (drop n data) rs)) (drop n data)"
        using 2 Sent True by simp
      then have "prefix (take n data @ snd (sendTCPData (drop n data) rs)) (take n data @ drop n data)"
        by (simp only: same_prefix_prefix)
      with Sent True show ?thesis
        by (simp add: case_prod_beta)
    next
      case False
      with Sent show ?thesis by (auto simp: take_is_prefix)
    qed
  qed simp
qed simp

lemma sendTCPData_ok: "sendTCPData data rs = (Send_ok, sent) \<Longrightarrow> sent = data"
proof (induction data rs arbitrary: sent rule: sendTCPData.induct)
  case (2 data r rs)
  show ?case
  proof (cases r)
    case (Sent n)
    with "2.prems" have n: "n \<noteq> 0" "n \<le> length data"
      by (auto split: if_splits)
    show ?thesis
    proof (cases "n = length data")
      case True
      with Sent n "2.prems" show ?thesis by simp
    next
      case False
      with Sent n "2.prems" obtain rest
        where rest: "sendTCPData (drop n data) rs = (Send_ok, rest)" and s: "sent = take n data @ rest"
        by (auto simp: case_prod_beta prod_eq_iff)
      have "rest = drop n data"
        using "2.IH" [OF Sent _ _ _ rest] n False by simp
      with s show ?thesis by simp
    qed
  qed (use "2.prems" in simp)
qed simp

text \<open>
  When the loop sends the whole buffer: the connection accepts it in one or more pieces, none of them
  empty, before anything else happens.
\<close>

definition accepted_in_pieces :: "nat \<Rightarrow> send_result list \<Rightarrow> bool" where
  "accepted_in_pieces n rs \<longleftrightarrow>
     (\<exists>ks. ks \<noteq> [] \<and> prefix (map Sent ks) rs \<and> list_all (\<lambda>k. 0 < k) ks \<and> sum_list ks = n)"

lemma accepted_in_pieces_simps [simp]:
  "\<not> accepted_in_pieces n []"
  "\<not> accepted_in_pieces n (Send_error e # rs)"
  "accepted_in_pieces n (Sent k # rs) \<longleftrightarrow>
     0 < k \<and> k \<le> n \<and> (k = n \<or> accepted_in_pieces (n - k) rs)" (is "?l \<longleftrightarrow> ?r")
proof -
  show "\<not> accepted_in_pieces n []" "\<not> accepted_in_pieces n (Send_error e # rs)"
    by (auto simp: accepted_in_pieces_def prefix_Cons map_eq_Cons_conv)
  show "?l \<longleftrightarrow> ?r"
  proof
    assume ?l
    then obtain ks where ks: "list_all (\<lambda>k. 0 < k) (k # ks)" "prefix (map Sent ks) rs" "n = k + sum_list ks"
      by (auto simp: accepted_in_pieces_def prefix_Cons map_eq_Cons_conv)
    then show ?r
      by (cases "ks = []") (auto simp: accepted_in_pieces_def)
  next
    assume r: ?r
    show ?l
    proof (cases "k = n")
      case True
      with r show ?thesis
        unfolding accepted_in_pieces_def by (intro exI [of _ "[k]"]) simp
    next
      case False
      with r obtain ks where "list_all (\<lambda>k. 0 < k) ks" "prefix (map Sent ks) rs" "sum_list ks = n - k"
        by (auto simp: accepted_in_pieces_def)
      with r show ?thesis
        unfolding accepted_in_pieces_def by (intro exI [of _ "k # ks"]) simp
    qed
  qed
qed

lemma sendTCPData_completes:
  "fst (sendTCPData data rs) = Send_ok \<longleftrightarrow> accepted_in_pieces (length data) rs"
  by (induction data rs rule: sendTCPData.induct) (auto simp: case_prod_beta split: send_result.splits)

text \<open>
  C26. \<open>sendTCPData\<close> puts a prefix of the buffer on the connection and nothing else; it reports success
  exactly when the connection accepted the whole buffer, in one or more pieces.
\<close>

theorem sendTCPData_correct:
  "prefix (snd (sendTCPData data rs)) data \<and>
   (fst (sendTCPData data rs) = Send_ok \<longleftrightarrow> accepted_in_pieces (length data) rs) \<and>
   (fst (sendTCPData data rs) = Send_ok \<longrightarrow> snd (sendTCPData data rs) = data)"
  using sendTCPData_prefix [of data rs] sendTCPData_completes [of data rs] sendTCPData_ok [of data rs]
  by (cases "sendTCPData data rs") simp

theorem sendTCPData_correct_witness:
  "snd (sendTCPData [1, 2, 3 :: u8] [Sent 1, Sent 2]) = [1, 2, 3]"
  using sendTCPData_correct [of "[1, 2, 3]" "[Sent 1, Sent 2]"] by simp

end
