(* ===== verification/String_Map.thy ===== *)
theory String_Map
  imports Prelude "HOL-Library.Char_ord" "HOL-Library.List_Lexorder"
begin

text \<open>
  \<open>std::map<std::string, V>\<close>: an association list in ascending order of the keys, as byte strings. The
  interface the clients use is the locale \<open>ordered_map\<close>; the association list provides it.
\<close>

type_synonym 'v string_map = "(string \<times> 'v) list"

text \<open>\<open>m.emplace(k, v)\<close>: nothing happens when the key is there. The flag is the \<open>second\<close> of the result.\<close>

fun emplace :: "string \<Rightarrow> 'v \<Rightarrow> 'v string_map \<Rightarrow> 'v string_map" where
  "emplace k v [] = [(k, v)]"
| "emplace k v ((k', v') # m) =
     (if k < k' then (k, v) # (k', v') # m
      else if k = k' then (k', v') # m
      else (k', v') # emplace k v m)"

definition contains :: "'v string_map \<Rightarrow> string \<Rightarrow> bool" where
  "contains m k \<longleftrightarrow> map_of m k \<noteq> None"

text \<open>\<open>m[k] = f(m[k])\<close> for a key that is there.\<close>

fun map_entry :: "string \<Rightarrow> ('v \<Rightarrow> 'v) \<Rightarrow> 'v string_map \<Rightarrow> 'v string_map" where
  "map_entry k f [] = []"
| "map_entry k f ((k', v') # m) = (if k = k' then (k', f v') # m else (k', v') # map_entry k f m)"

definition erase :: "string \<Rightarrow> 'v string_map \<Rightarrow> 'v string_map" where
  "erase k m = [(k', v') \<leftarrow> m. k' \<noteq> k]"

definition ascending :: "'v string_map \<Rightarrow> bool" where
  "ascending m \<longleftrightarrow> sorted_wrt (<) (map fst m)"

lemma keys_emplace: "set (map fst (emplace k v m)) = insert k (set (map fst m))"
  by (induction k v m rule: emplace.induct) auto

lemma keys_map_entry [simp]: "map fst (map_entry k f m) = map fst m"
  by (induction k f m rule: map_entry.induct) auto

lemma ascending_Nil [simp]: "ascending []"
  by (simp add: ascending_def)

lemma ascending_emplace: "ascending m \<Longrightarrow> ascending (emplace k v m)"
proof (induction k v m rule: emplace.induct)
  case (2 k v k' v' m)
  show ?case
  proof (cases "k < k'")
    case True
    with 2 show ?thesis by (auto simp: ascending_def)
  next
    case False
    have "k' < x" if "x \<in> fst ` set (emplace k v m)" "k \<noteq> k'" for x
    proof -
      from that(1) have "x = k \<or> x \<in> fst ` set m"
        using keys_emplace [of k v m] by auto
      then show ?thesis
        using False that(2) "2.prems" by (auto simp: ascending_def)
    qed
    with False 2 show ?thesis by (auto simp: ascending_def)
  qed
qed (simp add: ascending_def)

lemma ascending_map_entry: "ascending m \<Longrightarrow> ascending (map_entry k f m)"
  by (simp add: ascending_def)

lemma ascending_erase: "ascending m \<Longrightarrow> ascending (erase k m)"
  by (induction m) (auto simp: ascending_def erase_def)

lemma ascending_distinct: "ascending m \<Longrightarrow> distinct (map fst m)"
  by (induction m) (auto simp: ascending_def)

lemma map_of_emplace:
  "ascending m \<Longrightarrow> map_of (emplace k v m) = (if map_of m k = None then (map_of m)(k \<mapsto> v) else map_of m)"
proof (induction k v m rule: emplace.induct)
  case (2 k v k' v' m)
  have "map_of m k = None" if "k < k'"
  proof (rule ccontr)
    assume "map_of m k \<noteq> None"
    then have "k \<in> fst ` set m"
      by (auto simp: map_of_eq_None_iff)
    with that "2.prems" show False
      by (auto simp: ascending_def dest: less_trans)
  qed
  moreover have "ascending m"
    using "2.prems" by (simp add: ascending_def)
  ultimately show ?case
    using "2.IH" by (auto simp: fun_eq_iff)
qed auto

lemma map_of_map_entry: "map_of (map_entry k f m) k' = (if k' = k then map_option f (map_of m k) else map_of m k')"
  by (induction k f m rule: map_entry.induct) auto

lemma map_of_erase: "map_of (erase k m) k' = (if k' = k then None else map_of m k')"
  by (induction m) (auto simp: erase_def)

text \<open>
  What a client of an ordered map relies on. \<open>visible\<close> is the finite map it stands for and \<open>entries\<close> the
  order in which a range loop visits it.
\<close>

locale ordered_map =
  fixes wf :: "'m \<Rightarrow> bool"
    and visible :: "'m \<Rightarrow> string \<Rightarrow> 'v option"
    and entries :: "'m \<Rightarrow> (string \<times> 'v) list"
    and add :: "string \<Rightarrow> 'v \<Rightarrow> 'm \<Rightarrow> 'm"
    and change :: "string \<Rightarrow> ('v \<Rightarrow> 'v) \<Rightarrow> 'm \<Rightarrow> 'm"
    and remove :: "string \<Rightarrow> 'm \<Rightarrow> 'm"
  assumes visible_add: "wf m \<Longrightarrow> visible (add k v m) = (if visible m k = None then (visible m)(k \<mapsto> v) else visible m)"
    and visible_change: "wf m \<Longrightarrow> visible (change k f m) k' = (if k' = k then map_option f (visible m k) else visible m k')"
    and visible_remove: "wf m \<Longrightarrow> visible (remove k m) k' = (if k' = k then None else visible m k')"
    and wf_add: "wf m \<Longrightarrow> wf (add k v m)"
    and wf_change: "wf m \<Longrightarrow> wf (change k f m)"
    and wf_remove: "wf m \<Longrightarrow> wf (remove k m)"
    and entries_visible: "wf m \<Longrightarrow> (k, v) \<in> set (entries m) \<longleftrightarrow> visible m k = Some v"
    and entries_ascending: "wf m \<Longrightarrow> sorted_wrt (<) (map fst (entries m))"
begin

text \<open>A property of all entries is kept by an operation that establishes it for the entry it touches.\<close>

lemma all_add:
  assumes "wf m" and "\<forall>k v. visible m k = Some v \<longrightarrow> P k v" and "P k v"
  shows "\<forall>k' v'. visible (add k v m) k' = Some v' \<longrightarrow> P k' v'"
  using assms by (auto simp: visible_add split: if_splits)

lemma all_change:
  assumes "wf m" and "\<forall>k v. visible m k = Some v \<longrightarrow> P k v"
    and "\<And>v. visible m k = Some v \<Longrightarrow> P k (f v)"
  shows "\<forall>k' v'. visible (change k f m) k' = Some v' \<longrightarrow> P k' v'"
  using assms by (auto simp: visible_change split: if_splits)

lemma all_remove:
  assumes "wf m" and "\<forall>k v. visible m k = Some v \<longrightarrow> P k v"
  shows "\<forall>k' v'. visible (remove k m) k' = Some v' \<longrightarrow> P k' v'"
  using assms by (auto simp: visible_remove split: if_splits)

lemma change_twice:
  assumes "wf m"
  shows "visible (change k f (change k g m)) k' = visible (change k (f \<circ> g) m) k'"
  using assms by (auto simp: visible_change wf_change option.map_comp)

lemma entries_all:
  assumes "wf m" and "\<forall>k v. visible m k = Some v \<longrightarrow> P k v"
  shows "list_all (\<lambda>(k, v). P k v) (entries m)"
  using assms entries_visible by (auto simp: list_all_iff)

end

interpretation smap: ordered_map ascending map_of "\<lambda>m. m" emplace map_entry erase
proof unfold_locales
  show "ascending m \<Longrightarrow> ((k, v) \<in> set m) = (map_of m k = Some v)" for m :: "'v string_map" and k v
    using ascending_distinct [of m] by simp
  show "ascending m \<Longrightarrow> sorted_wrt (<) (map fst m)" for m :: "'v string_map"
    by (simp add: ascending_def)
qed (auto simp: map_of_emplace map_of_map_entry map_of_erase ascending_emplace ascending_map_entry
    ascending_erase)

end
