(* ===== verification/Configuration.thy ===== *)
theory Configuration
  imports Tunneler String_Map
begin

text \<open>
  \<open>src/src/Configuration.h\<close> and \<open>src/src/Configuration.cpp\<close>: the configuration file, a small TOML subset
  with one section per named tunnel. A function that throws \<open>std::runtime_error\<close> yields \<open>Inl\<close> of the
  message.
\<close>

section \<open>Text\<close>

definition quote :: char where "quote = CHR 0x22"

definition trim :: "string \<Rightarrow> string" where
  "trim s =
     (let first = length (takeWhile isspace s);
          final = length s - length (takeWhile isspace (rev s))
      in if first < final then take (final - first) (drop first s) else [])"

fun removeComment_from :: "bool \<Rightarrow> string \<Rightarrow> string" where
  "removeComment_from in_quotes [] = []"
| "removeComment_from in_quotes (c # cs) =
     (if c = quote then c # removeComment_from (\<not> in_quotes) cs
      else if c = CHR ''#'' \<and> \<not> in_quotes then []
      else c # removeComment_from in_quotes cs)"

definition removeComment :: "string \<Rightarrow> string" where
  "removeComment line = removeComment_from False line"

definition isAlias :: "string \<Rightarrow> bool" where
  "isAlias s \<longleftrightarrow> s \<noteq> [] \<and> length s \<le> 64 \<and>
     list_all (\<lambda>c. isalnum c \<or> c = CHR ''-'' \<or> c = CHR ''_'') s"

definition isIpv4Address :: "os \<Rightarrow> string \<Rightarrow> bool" where
  "isIpv4Address os s \<longleftrightarrow> os_inet_pton os (c_str s) \<noteq> None"

text \<open>
  \<open>unsigned long\<close> is taken with 64 bits, so \<open>-n\<close> is read as \<open>2 ^ 64 - n\<close>. On Windows it has 32: there \<open>-n\<close> is
  read as \<open>2 ^ 32 - n\<close>, and a number of more than 32 bits is refused by \<open>std::stoul\<close> already.
\<close>

definition parsePort :: "string \<Rightarrow> string \<Rightarrow> string + u16" where
  "parsePort value field_name =
     (let failure = Inl (field_name @ '' must be a port in the range 1-65535'')
      in case stoul value of
           Inl e \<Rightarrow> failure
         | Inr (port, used) \<Rightarrow> if port = 0 \<or> port > 65535 then failure else Inr (of_nat port))"

definition parseEndpoint :: "os \<Rightarrow> string \<Rightarrow> string \<Rightarrow> string + string \<times> u16" where
  "parseEndpoint os value field_name =
     (let bad = Inl (field_name @ '' must be an IPv4 address followed by :port'')
      in case rfind_char (CHR '':'') value of
           None \<Rightarrow> bad
         | Some separator \<Rightarrow>
             if separator = 0 \<or> separator + 1 = length value then bad
             else if \<not> isIpv4Address os (take separator value) then
               Inl (field_name @ '' must contain a valid IPv4 address'')
             else and_then (parsePort (drop (separator + 1) value) field_name)
                    (\<lambda>port. Inr (take separator value, port)))"

definition parseValue :: "string \<Rightarrow> string \<Rightarrow> string + string" where
  "parseValue value field_name =
     (if length value \<ge> 2 \<and> hd value = quote \<and> last value = quote then
        (let parsed = take (length value - 2) (drop 1 value)
         in if quote \<in> set parsed then Inl (field_name @ '' contains an unsupported quote character'')
            else Inr parsed)
      else if value \<noteq> [] \<and> list_all isdigit value then Inr value
      else Inl (field_name @ '' must be a quoted string or integer''))"

section \<open>One tunnel\<close>

type_synonym tunnel_fields = "string string_map"

record named_tunnel =
  tunnel_alias :: string
  tunnel_config :: config

definition kReplicateClientDestination :: string where
  "kReplicateClientDestination = ''replicate_client''"

definition requiredField :: "tunnel_fields \<Rightarrow> string \<Rightarrow> string \<Rightarrow> string + string" where
  "requiredField flds name al =
     (case map_of flds name of
        Some v \<Rightarrow> if v = [] then Inl (''tunnel '' @ quoted al @ '' is missing required field '' @ quoted name)
                  else Inr v
      | None \<Rightarrow> Inl (''tunnel '' @ quoted al @ '' is missing required field '' @ quoted name))"

definition allowed_fields :: "string list" where
  "allowed_fields =
     [''mode'', ''udp_interface'', ''udp_group'', ''tcp_server'', ''tcp_listen_port'', ''udp_destination'']"

definition check_fields :: "string \<Rightarrow> tunnel_fields \<Rightarrow> string + unit" where
  "check_fields al flds =
     (case find (\<lambda>field. fst field \<notin> set allowed_fields) flds of
        Some field \<Rightarrow> Inl (''tunnel '' @ quoted al @ '' has unknown field '' @ quoted (fst field))
      | None \<Rightarrow> Inr ())"

definition client_fields :: "os \<Rightarrow> string \<Rightarrow> tunnel_fields \<Rightarrow> config \<Rightarrow> string + config" where
  "client_fields os al flds cfg =
     (if contains flds ''tcp_listen_port'' \<or> contains flds ''udp_destination'' then
        Inl (''client tunnel '' @ quoted al @ '' contains server-only fields'')
      else
        and_then (and_then (requiredField flds ''tcp_server'' al) (\<lambda>v. parseEndpoint os v ''tcp_server''))
          (\<lambda>(server_address, server_port).
        and_then (and_then (requiredField flds ''udp_group'' al) (\<lambda>v. parseEndpoint os v ''udp_group''))
          (\<lambda>(group_address, group_port).
        Inr (cfg\<lparr>is_client := True, tcp_srv_ip := server_address, tcp_srv_port := server_port,
                 udp_dst_ip := group_address, udp_dst_port := group_port, use_clt_grp := False\<rparr>))))"

definition server_fields :: "os \<Rightarrow> string \<Rightarrow> tunnel_fields \<Rightarrow> config \<Rightarrow> string + config" where
  "server_fields os al flds cfg =
     (if contains flds ''tcp_server'' \<or> contains flds ''udp_group'' then
        Inl (''server tunnel '' @ quoted al @ '' contains client-only fields'')
      else
        and_then (and_then (requiredField flds ''tcp_listen_port'' al) (\<lambda>v. parsePort v ''tcp_listen_port''))
          (\<lambda>port.
        (let cfg = cfg\<lparr>is_client := False, tcp_srv_port := port\<rparr>;
             destination = map_of flds ''udp_destination''
         in if destination = None \<or> destination = Some kReplicateClientDestination then
              Inr (cfg\<lparr>use_clt_grp := True\<rparr>)
            else
              and_then (parseEndpoint os (the destination) ''udp_destination'')
                (\<lambda>(address, port). Inr (cfg\<lparr>use_clt_grp := False, udp_dst_ip := address, udp_dst_port := port\<rparr>)))))"

definition side_fields :: "os \<Rightarrow> string \<Rightarrow> tunnel_fields \<Rightarrow> string \<Rightarrow> config \<Rightarrow> string + config" where
  "side_fields os al flds mode cfg =
     (if mode = ''client'' then client_fields os al flds cfg
      else if mode = ''server'' then server_fields os al flds cfg
      else Inl (''tunnel '' @ quoted al @ '' has unsupported mode '' @ quoted mode))"

definition makeTunnel :: "os \<Rightarrow> string \<Rightarrow> tunnel_fields \<Rightarrow> string + named_tunnel" where
  "makeTunnel os al flds =
     and_then (check_fields al flds) (\<lambda>_.
     and_then (requiredField flds ''udp_interface'' al) (\<lambda>reference.
     and_then (case resolveInterfaceIpv4 os reference of
                 None \<Rightarrow> Inl (''tunnel '' @ quoted al @
                   '' has an invalid udp_interface; use a local interface name or IPv4 address'')
               | Some ip \<Rightarrow> Inr ip) (\<lambda>ip.
     (let cfg = default_config\<lparr>udp_iface_reference := reference, udp_iface_ip := ip\<rparr> in
     and_then (requiredField flds ''mode'' al) (\<lambda>mode.
     and_then (side_fields os al flds mode cfg) (\<lambda>cfg.
     if \<not> isComplete cfg then Inl (''tunnel '' @ quoted al @ '' is incomplete'')
     else Inr \<lparr>tunnel_alias = al, tunnel_config = cfg\<rparr>))))))"

section \<open>The file\<close>

record parse_state =
  version :: nat
  sections :: "tunnel_fields string_map"
  active_alias :: string
  line_number :: nat

definition parse_start :: parse_state where
  "parse_start = \<lparr>version = 0, sections = [], active_alias = '''', line_number = 0\<rparr>"

definition line_message :: "parse_state \<Rightarrow> string \<Rightarrow> string" where
  "line_message st message = ''line '' @ to_string (line_number st) @ message"

definition parse_section :: "string \<Rightarrow> parse_state \<Rightarrow> string + parse_state" where
  "parse_section content st =
     (let section_name = take (length content - 2) (drop 1 content);
          al = drop 8 section_name
      in if take 8 section_name \<noteq> ''tunnels.'' \<or> \<not> isAlias al then
           Inl (line_message st '' must name a tunnel as [tunnels.<alias>]'')
         else if contains (sections st) al then Inl (''duplicate tunnel alias '' @ quoted al)
         else Inr (st\<lparr>active_alias := al, sections := emplace al [] (sections st)\<rparr>))"

text \<open>\<open>tunnel_fields[active_alias]\<close> adds an entry when there is none.\<close>

definition store_field :: "string \<Rightarrow> string \<Rightarrow> parse_state \<Rightarrow> string + parse_state" where
  "store_field key value st =
     (let secs = emplace (active_alias st) [] (sections st);
          present = (case map_of secs (active_alias st) of Some flds \<Rightarrow> contains flds key | None \<Rightarrow> False)
      in if present then
           Inl (''tunnel '' @ quoted (active_alias st) @ '' defines '' @ quoted key @ '' more than once'')
         else Inr (st\<lparr>sections := map_entry (active_alias st) (emplace key value) secs\<rparr>))"

definition parse_assignment :: "string \<Rightarrow> parse_state \<Rightarrow> string + parse_state" where
  "parse_assignment content st =
     (case find_char (CHR ''='') content of
        None \<Rightarrow> Inl (line_message st '' must be a key/value assignment'')
      | Some separator \<Rightarrow>
          (let key = trim (take separator content) in
           and_then (parseValue (trim (drop (separator + 1) content)) key) (\<lambda>value.
           if active_alias st = [] then
             (if key \<noteq> ''version'' \<or> version st \<noteq> 0 \<or> value \<noteq> ''1'' then
                Inl (line_message st '' must set version = 1 before tunnel sections'')
              else Inr (st\<lparr>version := 1\<rparr>))
           else store_field key value st)))"

definition parse_line :: "string \<Rightarrow> parse_state \<Rightarrow> string + parse_state" where
  "parse_line line st =
     (let st = st\<lparr>line_number := line_number st + 1\<rparr>;
          content = trim (removeComment line)
      in if content = [] then Inr st
         else if hd content = CHR ''['' \<and> last content = CHR '']'' then parse_section content st
         else parse_assignment content st)"

fun parse_lines :: "string list \<Rightarrow> parse_state \<Rightarrow> string + parse_state" where
  "parse_lines [] st = Inr st"
| "parse_lines (line # lines) st = and_then (parse_line line st) (parse_lines lines)"

definition parseConfiguration :: "os \<Rightarrow> string \<Rightarrow> string + named_tunnel list" where
  "parseConfiguration os text =
     and_then (parse_lines (getlines text) parse_start) (\<lambda>st.
     if version st \<noteq> 1 then Inl ''configuration must begin with version = 1''
     else map_result (\<lambda>(al, flds). makeTunnel os al flds) (sections st))"

text \<open>\<open>std::ifstream\<close>: the contents of the file, \<open>None\<close> when it cannot be opened.\<close>

type_synonym file_system = "string \<Rightarrow> string option"

definition loadConfiguration :: "os \<Rightarrow> file_system \<Rightarrow> string \<Rightarrow> string + named_tunnel list" where
  "loadConfiguration os fs path =
     (case fs path of
        None \<Rightarrow> Inl (''could not open configuration file '' @ quoted path)
      | Some text \<Rightarrow> parseConfiguration os text)"

definition findTunnel :: "named_tunnel list \<Rightarrow> string \<Rightarrow> string + named_tunnel" where
  "findTunnel tunnels al =
     (case find (\<lambda>candidate. tunnel_alias candidate = al) tunnels of
        None \<Rightarrow> Inl (''no tunnel named '' @ quoted al)
      | Some t \<Rightarrow> Inr t)"

text \<open>
  \<open>operator/\<close> of \<open>std::filesystem::path\<close> for a relative right side. On Windows a separator is a slash or a
  backslash, the backslash is the preferred one, and none is put after the name of a drive.
\<close>

definition path_append :: "platform \<Rightarrow> string \<Rightarrow> string \<Rightarrow> string" where
  "path_append pf p q =
     (if p = [] \<or> last p = CHR ''/'' \<or> pf = Windows \<and> (last p = CHR 0x5C \<or> length p = 2 \<and> last p = CHR '':'') then p @ q
      else p @ [if pf = Windows then CHR 0x5C else CHR ''/''] @ q)"

definition defaultConfigurationPath :: "platform \<Rightarrow> (string \<Rightarrow> string option) \<Rightarrow> string + string" where
  "defaultConfigurationPath p getenv =
     (let failure = Inl ''could not determine the default configuration directory; use --config <path>'';
          set_var = (\<lambda>name. case getenv name of Some v \<Rightarrow> if v \<noteq> [] then Some v else None | None \<Rightarrow> None)
      in case p of
        Windows \<Rightarrow>
          (case set_var ''APPDATA'' of
             Some d \<Rightarrow> Inr (path_append p (path_append p d ''DatagramTunneler'') ''config.toml'') | None \<Rightarrow> failure)
      | MacOS \<Rightarrow>
          (case set_var ''HOME'' of
             Some d \<Rightarrow> Inr (path_append p (path_append p (path_append p (path_append p d ''Library'')
               ''Application Support'') ''DatagramTunneler'') ''config.toml'') | None \<Rightarrow> failure)
      | Linux \<Rightarrow>
          (case set_var ''XDG_CONFIG_HOME'' of
             Some d \<Rightarrow> Inr (path_append p (path_append p d ''dgramtunneler'') ''config.toml'')
           | None \<Rightarrow>
               (case set_var ''HOME'' of
                  Some d \<Rightarrow> Inr (path_append p (path_append p (path_append p d ''.config'') ''dgramtunneler'')
                    ''config.toml'')
                | None \<Rightarrow> failure)))"

text \<open>The text \<open>writeSampleConfiguration\<close> writes.\<close>

definition sample_lines :: "string list" where
  "sample_lines =
     [''version = 1'',
      '''',
      ''# Replace these values with local interface names or IPv4 addresses.'',
      ''[tunnels.example-client]'',
      ''mode = '' @ [quote] @ ''client'' @ [quote],
      ''udp_interface = '' @ [quote] @ ''192.168.1.20'' @ [quote],
      ''udp_group = '' @ [quote] @ ''239.1.2.3:5000'' @ [quote],
      ''tcp_server = '' @ [quote] @ ''192.168.1.10:14052'' @ [quote],
      '''',
      ''[tunnels.example-server]'',
      ''mode = '' @ [quote] @ ''server'' @ [quote],
      ''udp_interface = '' @ [quote] @ ''192.168.1.10'' @ [quote],
      ''tcp_listen_port = 14052'',
      ''udp_destination = '' @ [quote] @ ''replicate_client'' @ [quote]]"

definition sample_text :: string where
  "sample_text = concat (map (\<lambda>line. line @ newline) sample_lines)"

text \<open>
  \<open>writeSampleConfiguration\<close> in a file system; \<open>directories_error\<close> is what \<open>create_directories\<close> throws, if
  it does, and \<open>creatable\<close> tells whether the file can be opened for writing.
\<close>

definition writeSampleConfiguration ::
  "string option \<Rightarrow> bool \<Rightarrow> string \<Rightarrow> file_system \<Rightarrow> string + file_system" where
  "writeSampleConfiguration directories_error creatable path fs =
     (if fs path \<noteq> None then Inl (''configuration file already exists at '' @ quoted path)
      else case directories_error of
        Some e \<Rightarrow> Inl e
      | None \<Rightarrow>
          if \<not> creatable then Inl (''could not create configuration file '' @ quoted path)
          else Inr (fs(path \<mapsto> sample_text)))"

section \<open>Facts about the text functions\<close>

lemma trim_no_space:
  assumes "s = [] \<or> \<not> isspace (hd s) \<and> \<not> isspace (last s)"
  shows "trim s = s"
proof (cases "s = []")
  case False
  then have "takeWhile isspace s = []" "takeWhile isspace (rev s) = []"
    using assms by (auto simp: neq_Nil_conv last_rev hd_rev takeWhile_eq_Nil_iff)
  with False show ?thesis by (simp add: trim_def)
qed (simp add: trim_def)

lemma trim_spaces:
  assumes "s \<noteq> []" and "\<not> isspace (hd s)" and "\<not> isspace (last s)"
    and "list_all isspace before" and "list_all isspace after"
  shows "trim (before @ s @ after) = s"
proof -
  have "takeWhile isspace (before @ s @ after) = before"
    using assms by (simp add: takeWhile_append2 list_all_iff takeWhile_eq_Nil_iff)
  moreover have "takeWhile isspace (rev (before @ s @ after)) = rev after"
    using assms unfolding rev_append append_assoc
    by (subst takeWhile_append2) (auto simp: list_all_iff takeWhile_eq_Nil_iff hd_rev hd_append)
  ultimately show ?thesis
    using assms(1) by (simp add: trim_def)
qed

lemma removeComment_quoted_text:
  "quote \<notin> set v \<Longrightarrow> removeComment_from True (v @ quote # rest) = v @ quote # removeComment_from False rest"
  by (induction v) auto

lemma removeComment_plain:
  "quote \<notin> set k \<Longrightarrow> CHR ''#'' \<notin> set k \<Longrightarrow>
   removeComment_from False (k @ rest) = k @ removeComment_from False rest"
  by (induction k) auto

lemma quote_not_digit: "quote \<notin> set (to_string n)" "CHR ''#'' \<notin> set (to_string n)"
    "CHR '':'' \<notin> set (to_string n)" "CHR 0x0A \<notin> set (to_string n)" "CHR '' '' \<notin> set (to_string n)"
  using to_string_isdigit [of _ n] by (auto simp: quote_def isdigit_def char_code_def dest!: to_string_isdigit)

lemma parsePort_Inr:
  assumes "parsePort v f = Inr p"
  shows "p \<noteq> 0"
proof
  assume "p = 0"
  with assms obtain port where "0 < port" "port \<le> 65535" "(of_nat port :: u16) = 0"
    by (auto simp: parsePort_def Let_def split: sum.splits if_splits)
  moreover from this(2) have "unat (of_nat port :: u16) = port"
    by (simp add: unat_of_nat)
  ultimately show False by simp
qed

lemma unat_u16_bound: "unat (p :: u16) \<le> 65535"
proof -
  have "unat p < 65536"
    using unsigned_less [of p] by simp
  then show ?thesis by simp
qed

lemma parsePort_to_string:
  assumes "p \<noteq> 0"
  shows "parsePort (to_string (unat p)) f = Inr p"
proof -
  have "stoul (to_string (unat p)) = Inr (unat p, length (to_string (unat p)))"
    using unat_u16_bound [of p] by (intro stoul_to_string) simp
  with assms unat_u16_bound [of p] show ?thesis
    by (simp add: parsePort_def unat_eq_zero not_less)
qed

text \<open>\<open>endpoint\<close> of \<open>ControlService.cpp\<close>, what \<open>parseEndpoint\<close> reads.\<close>

definition endpoint :: "string \<Rightarrow> u16 \<Rightarrow> string" where
  "endpoint addr port = addr @ '':'' @ to_string (unat port)"

lemma parseEndpoint_endpoint:
  assumes "isIpv4Address os a" and "a \<noteq> []" and "p \<noteq> 0"
  shows "parseEndpoint os (endpoint a p) f = Inr (a, p)"
proof -
  have "rfind_char (CHR '':'') (endpoint a p) = Some (length a)"
    using rfind_char_append [of "CHR '':''" "to_string (unat p)" a] by (simp add: endpoint_def quote_not_digit)
  with assms parsePort_to_string [OF assms(3)] show ?thesis
    by (simp add: parseEndpoint_def endpoint_def)
qed

lemma parseEndpoint_Inr:
  "parseEndpoint os v f = Inr (a, p) \<Longrightarrow> isIpv4Address os a \<and> a \<noteq> [] \<and> p \<noteq> 0"
  by (auto simp: parseEndpoint_def Let_def and_then_eq_Inr dest: parsePort_Inr
      split: option.splits if_splits)

lemma parseValue_quoted: "quote \<notin> set v \<Longrightarrow> parseValue (quote # v @ [quote]) f = Inr v"
  by (simp add: parseValue_def)

lemma requiredField_Inr: "requiredField flds name al = Inr v \<longleftrightarrow> map_of flds name = Some v \<and> v \<noteq> []"
  by (auto simp: requiredField_def split: option.splits)

section \<open>What a loaded tunnel is\<close>

text \<open>
  The configurations a file can give: complete, with an interface that resolves, IPv4 addresses where the
  side has them, and the fields of the other side at their defaults.
\<close>

definition loaded_config :: "os \<Rightarrow> config \<Rightarrow> bool" where
  "loaded_config os cfg \<longleftrightarrow>
     isComplete cfg \<and> udp_iface_reference cfg \<noteq> [] \<and>
     resolveInterfaceIpv4 os (udp_iface_reference cfg) = Some (udp_iface_ip cfg) \<and>
     tcp_iface_ip cfg = [] \<and> \<not> verbose_output cfg \<and>
     (if is_client cfg then isIpv4Address os (tcp_srv_ip cfg) \<and> isIpv4Address os (udp_dst_ip cfg) \<and> \<not> use_clt_grp cfg
      else tcp_srv_ip cfg = [] \<and>
        (if use_clt_grp cfg then udp_dst_ip cfg = [] \<and> udp_dst_port cfg = 0
         else isIpv4Address os (udp_dst_ip cfg)))"

lemma client_fields_Inr:
  assumes "client_fields os al flds cfg = Inr cfg'"
  shows "\<exists>a p g q. cfg' = cfg\<lparr>is_client := True, tcp_srv_ip := a, tcp_srv_port := p, udp_dst_ip := g,
      udp_dst_port := q, use_clt_grp := False\<rparr> \<and> isIpv4Address os a \<and> isIpv4Address os g"
  using assms
  by (auto simp: client_fields_def and_then_eq_Inr dest!: parseEndpoint_Inr split: if_splits)

lemma server_fields_Inr:
  assumes "server_fields os al flds cfg = Inr cfg'"
  shows "\<exists>p. cfg' = cfg\<lparr>is_client := False, tcp_srv_port := p, use_clt_grp := True\<rparr> \<or>
    (\<exists>a q. cfg' = cfg\<lparr>is_client := False, tcp_srv_port := p, use_clt_grp := False, udp_dst_ip := a,
       udp_dst_port := q\<rparr> \<and> isIpv4Address os a)"
  using assms
  by (auto simp: server_fields_def and_then_eq_Inr Let_def dest!: parseEndpoint_Inr split: if_splits)

lemma makeTunnel_loaded:
  assumes "makeTunnel os al flds = Inr t"
  shows "tunnel_alias t = al \<and> loaded_config os (tunnel_config t)"
proof -
  obtain reference ip mode cfg where r: "requiredField flds ''udp_interface'' al = Inr reference"
    "resolveInterfaceIpv4 os reference = Some ip"
    and c: "side_fields os al flds mode (default_config\<lparr>udp_iface_reference := reference, udp_iface_ip := ip\<rparr>) =
      Inr cfg"
    and t: "isComplete cfg" "t = \<lparr>tunnel_alias = al, tunnel_config = cfg\<rparr>"
    using assms by (auto simp: makeTunnel_def and_then_eq_Inr Let_def split: option.splits if_splits)
  from c show ?thesis
    using r t by (auto simp: side_fields_def loaded_config_def requiredField_Inr default_config_def
        split: if_splits dest!: client_fields_Inr server_fields_Inr)
qed

section \<open>The parser keeps its tables in order\<close>

definition parse_inv :: "parse_state \<Rightarrow> bool" where
  "parse_inv st \<longleftrightarrow>
     ascending (sections st) \<and> (\<forall>al flds. map_of (sections st) al = Some flds \<longrightarrow> isAlias al \<and> ascending flds) \<and>
     (active_alias st = [] \<and> sections st = [] \<or> contains (sections st) (active_alias st))"

lemma parse_section_inv:
  assumes "parse_inv st" and "parse_section content st = Inr st'"
  shows "parse_inv st'"
proof -
  obtain al where al: "isAlias al" "\<not> contains (sections st) al"
    "st' = st\<lparr>active_alias := al, sections := emplace al [] (sections st)\<rparr>"
    using assms(2) by (auto simp: parse_section_def Let_def split: if_splits)
  have inv: "ascending (sections st)" "\<forall>k v. map_of (sections st) k = Some v \<longrightarrow> isAlias k \<and> ascending v"
    using assms(1) by (simp_all add: parse_inv_def)
  have "\<forall>k v. map_of (emplace al [] (sections st)) k = Some v \<longrightarrow> isAlias k \<and> ascending v"
    by (rule smap.all_add [OF inv]) (simp add: al(1))
  with inv al show ?thesis
    by (simp add: parse_inv_def ascending_emplace contains_def map_of_emplace)
qed

lemma emplace_present: "ascending m \<Longrightarrow> contains m k \<Longrightarrow> emplace k v m = m"
proof (induction k v m rule: emplace.induct)
  case (2 k v k' v' m)
  have "\<not> k < k'" if "k \<noteq> k'"
  proof
    assume "k < k'"
    moreover have "k \<in> fst ` set m"
      using "2.prems"(2) that by (auto simp: contains_def map_of_eq_None_iff split: if_splits)
    ultimately show False
      using "2.prems"(1) by (auto simp: ascending_def dest: less_trans)
  qed
  with 2 show ?case
    by (auto simp: contains_def ascending_def split: if_splits)
qed (simp add: contains_def)

lemma store_field_inv:
  assumes "parse_inv st" and "active_alias st \<noteq> []" and "store_field key value st = Inr st'"
  shows "parse_inv st'"
proof -
  have inv: "ascending (sections st)" "\<forall>k v. map_of (sections st) k = Some v \<longrightarrow> isAlias k \<and> ascending v"
    "contains (sections st) (active_alias st)"
    using assms(1,2) by (auto simp: parse_inv_def)
  have st': "st' = st\<lparr>sections := map_entry (active_alias st) (emplace key value) (sections st)\<rparr>"
    using assms(3) emplace_present [OF inv(1,3)] by (auto simp: store_field_def Let_def split: if_splits)
  have entries: "\<forall>k v. map_of (map_entry (active_alias st) (emplace key value) (sections st)) k = Some v \<longrightarrow>
      isAlias k \<and> ascending v"
  proof (rule smap.all_change [OF inv(1,2)])
    fix flds
    assume "map_of (sections st) (active_alias st) = Some flds"
    with inv(2) have "isAlias (active_alias st)" "ascending flds"
      by simp_all
    then show "isAlias (active_alias st) \<and> ascending (emplace key value flds)"
      by (simp add: ascending_emplace)
  qed
  have "contains (map_entry (active_alias st) (emplace key value) (sections st)) (active_alias st)"
    using inv(3) by (simp add: contains_def map_of_map_entry)
  with entries ascending_map_entry [OF inv(1)] show ?thesis
    unfolding st' parse_inv_def by simp
qed

lemma parse_line_inv:
  assumes "parse_inv st" and "parse_line line st = Inr st'"
  shows "parse_inv st'"
proof -
  let ?st = "st\<lparr>line_number := line_number st + 1\<rparr>"
  have i: "parse_inv ?st"
    using assms(1) by (simp add: parse_inv_def)
  have "parse_inv st'" if "parse_assignment content ?st = Inr st'" for content
    using that i store_field_inv [OF i]
    by (auto simp: parse_assignment_def Let_def and_then_eq_Inr parse_inv_def split: option.splits if_splits)
  then show ?thesis
    using assms(2) i parse_section_inv [OF i]
    by (auto simp: parse_line_def Let_def split: if_splits)
qed

lemma parse_lines_inv: "parse_inv st \<Longrightarrow> parse_lines lines st = Inr st' \<Longrightarrow> parse_inv st'"
  by (induction lines arbitrary: st) (auto simp: and_then_eq_Inr dest: parse_line_inv)

lemma parse_inv_start: "parse_inv parse_start"
  by (simp add: parse_inv_def parse_start_def)

lemma loaded_tunnels:
  assumes "parseConfiguration os text = Inr ts"
  shows "sorted_wrt (<) (map tunnel_alias ts) \<and>
    list_all (\<lambda>t. isAlias (tunnel_alias t) \<and> loaded_config os (tunnel_config t)) ts"
proof -
  obtain st where st: "parse_lines (getlines text) parse_start = Inr st"
    and ts: "list_all2 (\<lambda>s t. makeTunnel os (fst s) (snd s) = Inr t) (sections st) ts"
    using assms by (auto simp: parseConfiguration_def and_then_eq_Inr map_result_Inr case_prod_beta
        split: if_splits)
  note inv = parse_lines_inv [OF parse_inv_start st]
  have "list_all2 (\<lambda>s t. fst s = tunnel_alias t \<and> loaded_config os (tunnel_config t)) (sections st) ts"
    using ts by (rule list.rel_mono_strong) (auto dest: makeTunnel_loaded)
  then have names: "map tunnel_alias ts = map fst (sections st)"
    and configs: "list_all (\<lambda>t. loaded_config os (tunnel_config t)) ts"
    by (induction rule: list_all2_induct) auto
  have "list_all (\<lambda>(al, flds). isAlias al \<and> ascending flds) (sections st)"
    using inv by (intro smap.entries_all) (simp_all add: parse_inv_def)
  then have "list_all isAlias (map tunnel_alias ts)"
    unfolding names by (auto simp: list_all_iff)
  moreover have "sorted_wrt (<) (map tunnel_alias ts)"
    unfolding names using inv by (simp add: parse_inv_def ascending_def)
  ultimately show ?thesis
    using configs by (simp add: list_all_iff)
qed

section \<open>Loading\<close>

text \<open>
  C23. What a configuration file can give: whenever it loads, the aliases are distinct (strictly
  ascending), each a name of 1 to 64 letters, digits, hyphens and underscores, and every tunnel is
  complete: its interface resolves, the addresses its side needs are IPv4 addresses, its ports are not
  zero, and the fields of the other side are untouched.
\<close>

theorem configuration_valid:
  assumes "parseConfiguration os text = Inr ts"
  shows "sorted_wrt (<) (map tunnel_alias ts) \<and>
    list_all (\<lambda>t. isAlias (tunnel_alias t) \<and> loaded_config os (tunnel_config t)) ts"
  using assms by (rule loaded_tunnels)

text \<open>
  In a loaded configuration an alias names one tunnel: the lookup yields the tunnel of that alias if
  there is one, wherever it stands, and throws the message that names the alias otherwise.
\<close>

theorem findTunnel_loaded:
  assumes "loadConfiguration os fs path = Inr ts"
  shows "(findTunnel ts al = Inr t \<longleftrightarrow> t \<in> set ts \<and> tunnel_alias t = al) \<and>
    (findTunnel ts al = Inl message \<longleftrightarrow>
       al \<notin> set (map tunnel_alias ts) \<and> message = ''no tunnel named '' @ quoted al)"
proof -
  have "sorted_wrt (<) (map tunnel_alias ts)"
    using assms by (auto simp: loadConfiguration_def split: option.splits dest: loaded_tunnels)
  then have "distinct (map tunnel_alias ts)"
    by (simp add: strict_sorted_iff)
  then show ?thesis
    by (induction ts) (auto simp: findTunnel_def split: option.splits)
qed

text \<open>
  \<open>parsePort\<close> reads every port it should, and never yields zero; but \<open>std::stoul\<close> stops at the first
  character that is no digit and takes a sign, so text after the number is ignored, and a negative number
  is read modulo the size of \<open>unsigned long\<close>.
\<close>

theorem parsePort_reads:
  "(p \<noteq> 0 \<longrightarrow> parsePort (to_string (unat p)) f = Inr p) \<and>
   (parsePort v f = Inr q \<longrightarrow> q \<noteq> 0) \<and>
   (p \<noteq> 0 \<and> (junk = [] \<or> \<not> isdigit (hd junk)) \<longrightarrow> parsePort (to_string (unat p) @ junk) f = Inr p) \<and>
   (p \<noteq> 0 \<longrightarrow> parsePort (CHR ''-'' # to_string (2 ^ 64 - unat p)) f = Inr p)"
proof (intro conjI impI)
  show "parsePort (to_string (unat p)) f = Inr p" if "p \<noteq> 0"
    using that by (rule parsePort_to_string)
  show "q \<noteq> 0" if "parsePort v f = Inr q"
    using that by (rule parsePort_Inr)
  show "parsePort (to_string (unat p) @ junk) f = Inr p"
    if "p \<noteq> 0 \<and> (junk = [] \<or> \<not> isdigit (hd junk))"
  proof -
    have "stoul (to_string (unat p) @ junk) = Inr (unat p, length (to_string (unat p)))"
      using that unat_u16_bound [of p] by (intro stoul_with_junk) auto
    with that unat_u16_bound [of p] show ?thesis
      by (simp add: parsePort_def unat_eq_zero not_less)
  qed
  show "parsePort (CHR ''-'' # to_string (2 ^ 64 - unat p)) f = Inr p" if "p \<noteq> 0"
  proof -
    have p: "0 < unat p" "unat p \<le> 65535"
      using that unat_u16_bound [of p] by (simp_all add: unat_gt_0)
    have "stoul (CHR ''-'' # to_string (2 ^ 64 - unat p)) =
        Inr ((2 ^ 64 - (2 ^ 64 - unat p)) mod 2 ^ 64, Suc (length (to_string (2 ^ 64 - unat p))))"
      using p by (intro stoul_negative) simp
    moreover have "(2 ^ 64 - (2 ^ 64 - unat p)) mod 2 ^ 64 = unat p"
      using p by simp
    ultimately show ?thesis
      using p by (simp add: parsePort_def)
  qed
qed

section \<open>Writing a configuration\<close>

text \<open>
  The fields of a loaded tunnel, in the order of a \<open>std::map\<close>, and the file that has them: the
  specification of what the parser reads.
\<close>

definition fields_of :: "config \<Rightarrow> tunnel_fields" where
  "fields_of cfg =
     (if is_client cfg then
        [(''mode'', ''client''), (''tcp_server'', endpoint (tcp_srv_ip cfg) (tcp_srv_port cfg)),
         (''udp_group'', endpoint (udp_dst_ip cfg) (udp_dst_port cfg)),
         (''udp_interface'', udp_iface_reference cfg)]
      else
        [(''mode'', ''server''), (''tcp_listen_port'', to_string (unat (tcp_srv_port cfg))),
         (''udp_destination'', if use_clt_grp cfg then kReplicateClientDestination
            else endpoint (udp_dst_ip cfg) (udp_dst_port cfg)),
         (''udp_interface'', udp_iface_reference cfg)])"

definition field_line :: "string \<times> string \<Rightarrow> string" where
  "field_line kv = fst kv @ '' = '' @ [quote] @ snd kv @ [quote]"

definition section_lines :: "string \<times> tunnel_fields \<Rightarrow> string list" where
  "section_lines s = (''[tunnels.'' @ fst s @ '']'') # map field_line (snd s)"

definition file_lines :: "tunnel_fields string_map \<Rightarrow> string list" where
  "file_lines secs = ''version = 1'' # concat (map section_lines secs)"

definition file_text :: "tunnel_fields string_map \<Rightarrow> string" where
  "file_text secs = concat (map (\<lambda>line. line @ newline) (file_lines secs))"

text \<open>Keys and values that can stand in a line.\<close>

definition plain_key :: "string \<Rightarrow> bool" where
  "plain_key k \<longleftrightarrow> k \<noteq> [] \<and> list_all (\<lambda>c. isalnum c \<or> c = CHR ''_'') k"

definition plain_value :: "string \<Rightarrow> bool" where
  "plain_value v \<longleftrightarrow> quote \<notin> set v \<and> CHR 0x0A \<notin> set v"

lemma getlines_concat:
  "list_all (\<lambda>l. CHR 0x0A \<notin> set l) ls \<Longrightarrow> getlines (concat (map (\<lambda>l. l @ newline) ls)) = ls"
  using text_lines.read_all [of ls] by (simp add: newline_def)

lemma name_chars:
  assumes "isalnum c \<or> c = CHR ''-'' \<or> c = CHR ''_''"
  shows "\<not> isspace c" "c \<noteq> quote" "c \<noteq> CHR ''#''" "c \<noteq> CHR ''=''" "c \<noteq> CHR ''[''" "c \<noteq> CHR 0x0A"
  using assms by (auto simp: char_class_defs quote_def)

lemma alias_text:
  assumes "isAlias al"
  shows "quote \<notin> set al" "CHR ''#'' \<notin> set al" "CHR 0x0A \<notin> set al"
proof -
  have all: "isalnum c \<or> c = CHR ''-'' \<or> c = CHR ''_''" if "c \<in> set al" for c
    using assms that by (auto simp: isAlias_def list_all_iff)
  show "quote \<notin> set al" "CHR ''#'' \<notin> set al" "CHR 0x0A \<notin> set al"
    using name_chars(2,3,6) [OF all] by metis+
qed

lemma alias_nonempty: "isAlias al \<Longrightarrow> al \<noteq> []"
  by (simp add: isAlias_def)

lemma key_text:
  assumes "plain_key k"
  shows "quote \<notin> set k" "CHR ''#'' \<notin> set k" "CHR 0x0A \<notin> set k" "CHR ''='' \<notin> set k" "k \<noteq> []"
    "\<not> isspace (hd k)" "\<not> isspace (last k)" "hd k \<noteq> CHR ''[''"
proof -
  have all: "isalnum c \<or> c = CHR ''-'' \<or> c = CHR ''_''" if "c \<in> set k" for c
    using assms that by (auto simp: plain_key_def list_all_iff)
  show "k \<noteq> []"
    using assms by (simp add: plain_key_def)
  then have ends: "hd k \<in> set k" "last k \<in> set k"
    by simp_all
  show "\<not> isspace (hd k)" "\<not> isspace (last k)" "hd k \<noteq> CHR ''[''"
    using name_chars [OF all [OF ends(1)]] name_chars [OF all [OF ends(2)]] by blast+
  show "quote \<notin> set k" "CHR ''#'' \<notin> set k" "CHR 0x0A \<notin> set k" "CHR ''='' \<notin> set k"
    using name_chars(2,3,4,6) [OF all] by metis+
qed

section \<open>The parser reads the file\<close>

lemma parse_field_line:
  assumes "plain_key k" and "plain_value v" and "active_alias st \<noteq> []"
  shows "parse_line (field_line (k, v)) st = store_field k v (st\<lparr>line_number := line_number st + 1\<rparr>)"
proof -
  note key = key_text [OF assms(1)]
  have space: "isspace (CHR '' '')"
    by code_simp
  have quote: "\<not> isspace quote"
    by code_simp
  let ?line = "k @ '' = '' @ [quote] @ v @ [quote]"
  have "removeComment ?line = ?line"
    using key assms(2) removeComment_quoted_text [of v "[]"]
    by (simp add: removeComment_def removeComment_plain plain_value_def quote_def)
  moreover have "trim ?line = ?line"
    using key quote by (intro trim_no_space) simp
  moreover have "find_char (CHR ''='') ?line = Some (length k + 1)"
    using find_char_append [of "CHR ''=''" "k @ '' ''" "'' '' @ [quote] @ v @ [quote]"] key by simp
  moreover have "trim (take (length k + 1) ?line) = k"
    using trim_spaces [of k "[]" "'' ''"] key space by simp
  moreover have "trim (drop (length k + 1 + 1) ?line) = quote # v @ [quote]"
    using trim_spaces [of "quote # v @ [quote]" "'' ''" "[]"] quote space by simp
  moreover have "hd ?line \<noteq> CHR ''[''"
    using key by simp
  moreover have "parseValue (quote # v @ [quote]) k = Inr v"
    using assms(2) by (intro parseValue_quoted) (simp add: plain_value_def)
  ultimately show ?thesis
    using key(5) assms(3)
    by (simp add: parse_line_def parse_assignment_def Let_def field_line_def del: append_assoc)
qed

lemma parse_section_line:
  assumes "isAlias al" and "\<not> contains (sections st) al"
  shows "parse_line (''[tunnels.'' @ al @ '']'') st =
    Inr (st\<lparr>active_alias := al, sections := emplace al [] (sections st), line_number := line_number st + 1\<rparr>)"
proof -
  let ?line = "''[tunnels.'' @ al @ '']''"
  have "removeComment ?line = ?line"
    using alias_text [OF assms(1)] removeComment_plain [of al "'']''"]
    by (simp add: removeComment_def quote_def)
  moreover have "\<not> isspace (CHR ''['')" "\<not> isspace (CHR '']'')"
    by code_simp+
  then have "trim ?line = ?line"
    by (intro trim_no_space) simp
  ultimately show ?thesis
    using assms by (simp add: parse_line_def parse_section_def Let_def)
qed

lemma emplace_after: "\<forall>k' \<in> set (map fst m). k' < k \<Longrightarrow> emplace k v m = m @ [(k, v)]"
  by (induction m) (auto simp: less_not_sym)

lemma map_entry_last: "k \<notin> set (map fst m) \<Longrightarrow> map_entry k f (m @ [(k, v)]) = m @ [(k, f v)]"
  by (induction m) auto

lemma contains_iff: "contains m k \<longleftrightarrow> k \<in> set (map fst m)"
  by (auto simp: contains_def map_of_eq_None_iff)

lemma parse_field_lines:
  assumes "list_all (\<lambda>(k, v). plain_key k \<and> plain_value v) flds" and "ascending (before @ flds)"
    and "\<forall>k \<in> set (map fst secs). k < al" and "al \<noteq> []" and "ascending secs"
  shows "parse_lines (map field_line flds)
      \<lparr>version = 1, sections = secs @ [(al, before)], active_alias = al, line_number = n\<rparr> =
    Inr \<lparr>version = 1, sections = secs @ [(al, before @ flds)], active_alias = al, line_number = n + length flds\<rparr>"
  using assms
proof (induction flds arbitrary: before n)
  case (Cons kv flds)
  obtain k v where kv: "kv = (k, v)"
    by (cases kv)
  let ?secs = "secs @ [(al, before)]"
  have al: "al \<notin> set (map fst secs)"
    using Cons.prems(3) by auto
  have asc: "ascending ?secs" "contains ?secs al"
    using Cons.prems(3,5) by (auto simp: ascending_def sorted_wrt_append contains_iff)
  have below: "\<forall>k' \<in> set (map fst before). k' < k"
    using Cons.prems(2) by (auto simp: kv ascending_def sorted_wrt_append)
  then have absent: "\<not> contains before k"
    by (auto simp: contains_iff)
  have "map_of ?secs al = Some before"
    using al by (simp add: map_add_Some_iff map_of_eq_None_iff)
  then have "store_field k v \<lparr>version = 1, sections = ?secs, active_alias = al, line_number = n + 1\<rparr> =
      Inr \<lparr>version = 1, sections = secs @ [(al, before @ [(k, v)])], active_alias = al, line_number = n + 1\<rparr>"
    using al absent below emplace_present [OF asc]
    by (simp add: store_field_def Let_def map_entry_last emplace_after)
  moreover have "parse_lines (map field_line flds)
      \<lparr>version = 1, sections = secs @ [(al, before @ [(k, v)])], active_alias = al, line_number = n + 1\<rparr> =
    Inr \<lparr>version = 1, sections = secs @ [(al, (before @ [(k, v)]) @ flds)], active_alias = al,
      line_number = n + 1 + length flds\<rparr>"
    using Cons.prems by (intro Cons.IH) (simp_all add: kv)
  ultimately show ?case
    using Cons.prems(1,4) by (simp add: kv parse_field_line)
qed simp

definition plain_section :: "string \<times> tunnel_fields \<Rightarrow> bool" where
  "plain_section s \<longleftrightarrow> isAlias (fst s) \<and> ascending (snd s) \<and>
     list_all (\<lambda>(k, v). plain_key k \<and> plain_value v) (snd s)"

lemma parse_lines_append:
  "parse_lines (xs @ ys) st = and_then (parse_lines xs st) (parse_lines ys)"
  by (induction xs arbitrary: st) (auto simp: and_then_def split: sum.split)

lemma parse_sections:
  assumes "list_all plain_section later" and "ascending (secs @ later)"
  shows "\<exists>al n'. parse_lines (concat (map section_lines later))
      \<lparr>version = 1, sections = secs, active_alias = al0, line_number = n\<rparr> =
    Inr \<lparr>version = 1, sections = secs @ later, active_alias = al, line_number = n'\<rparr>"
  using assms
proof (induction later arbitrary: secs al0 n)
  case (Cons s later)
  obtain al flds where s: "s = (al, flds)"
    by (cases s)
  have plain: "isAlias al" "ascending flds" "list_all (\<lambda>(k, v). plain_key k \<and> plain_value v) flds"
    using Cons.prems(1) by (simp_all add: s plain_section_def)
  have below: "\<forall>k \<in> set (map fst secs). k < al" and asc: "ascending secs"
    using Cons.prems(2) by (auto simp: s ascending_def sorted_wrt_append)
  then have absent: "\<not> contains secs al"
    by (auto simp: contains_iff)
  have "parse_lines (section_lines s) \<lparr>version = 1, sections = secs, active_alias = al0, line_number = n\<rparr> =
      Inr \<lparr>version = 1, sections = secs @ [(al, flds)], active_alias = al, line_number = n + 1 + length flds\<rparr>"
    using parse_field_lines [of flds "[]" secs al "n + 1"] plain below asc
      parse_section_line [OF plain(1), of "\<lparr>version = 1, sections = secs, active_alias = al0, line_number = n\<rparr>"]
      absent alias_nonempty [OF plain(1)]
    by (simp add: s section_lines_def emplace_after)
  with Cons.IH [of "secs @ [(al, flds)]" al "n + 1 + length flds"] Cons.prems show ?case
    by (simp add: parse_lines_append s)
qed auto

lemma version_line: "parse_line ''version = 1'' parse_start =
    Inr \<lparr>version = 1, sections = [], active_alias = [], line_number = 1\<rparr>"
  by code_simp

lemma section_lines_no_newline:
  assumes "plain_section s"
  shows "list_all (\<lambda>l. CHR 0x0A \<notin> set l) (section_lines s)"
  using assms alias_text key_text(3)
  by (auto simp: plain_section_def section_lines_def field_line_def list_all_iff plain_value_def quote_def)

text \<open>The file of sections in order gives back the sections.\<close>

lemma parse_file_text:
  assumes "list_all plain_section secs" and "ascending secs"
  shows "parseConfiguration os (file_text secs) = map_result (\<lambda>(al, flds). makeTunnel os al flds) secs"
proof -
  have "list_all (\<lambda>l. CHR 0x0A \<notin> set l) (file_lines secs)"
    using assms(1) section_lines_no_newline by (auto simp: file_lines_def list_all_iff)
  then have "getlines (file_text secs) = file_lines secs"
    unfolding file_text_def by (rule getlines_concat)
  then show ?thesis
    using parse_sections [of secs "[]" "[]" 1] assms
    by (auto simp: parseConfiguration_def file_lines_def version_line)
qed

section \<open>Files and tunnels\<close>

definition printable :: "config \<Rightarrow> bool" where
  "printable cfg \<longleftrightarrow> plain_value (udp_iface_reference cfg) \<and> plain_value (tcp_srv_ip cfg) \<and>
     plain_value (udp_dst_ip cfg)"

definition configuration_text :: "named_tunnel list \<Rightarrow> string" where
  "configuration_text ts = file_text (map (\<lambda>t. (tunnel_alias t, fields_of (tunnel_config t))) ts)"

lemma field_order:
  "''mode'' < ''tcp_server''" "''tcp_server'' < ''udp_group''" "''udp_group'' < ''udp_interface''"
  "''mode'' < ''tcp_listen_port''" "''tcp_listen_port'' < ''udp_destination''"
  "''udp_destination'' < ''udp_interface''"
  by code_simp+

lemma fields_ascending: "ascending (fields_of cfg)"
  using field_order less_trans [OF field_order(1,2)] less_trans [OF field_order(2,3)]
    less_trans [OF less_trans [OF field_order(1,2)] field_order(3)] less_trans [OF field_order(4,5)]
    less_trans [OF field_order(5,6)] less_trans [OF less_trans [OF field_order(4,5)] field_order(6)]
  by (simp add: ascending_def fields_of_def del: Cons_less_Cons)

lemma plain_keys:
  "plain_key ''mode''" "plain_key ''tcp_server''" "plain_key ''udp_group''" "plain_key ''udp_interface''"
  "plain_key ''tcp_listen_port''" "plain_key ''udp_destination''"
  "plain_value ''client''" "plain_value ''server''" "plain_value kReplicateClientDestination"
  by code_simp+

lemma plain_endpoint: "plain_value a \<Longrightarrow> plain_value (endpoint a p)"
  using quote_not_digit [of "unat p"] by (simp add: plain_value_def endpoint_def quote_def)

lemma fields_plain: "printable cfg \<Longrightarrow> list_all (\<lambda>(k, v). plain_key k \<and> plain_value v) (fields_of cfg)"
  using quote_not_digit [of "unat (tcp_srv_port cfg)"]
  by (simp add: fields_of_def printable_def plain_keys plain_endpoint) (simp add: plain_value_def)

lemma section_plain: "isAlias al \<Longrightarrow> printable cfg \<Longrightarrow> plain_section (al, fields_of cfg)"
  using fields_plain [of cfg] by (simp add: plain_section_def fields_ascending)

lemma endpoint_nonempty: "endpoint a p \<noteq> []"
  by (simp add: endpoint_def)

lemma endpoint_not_replicate: "endpoint a p \<noteq> kReplicateClientDestination"
proof -
  have "CHR '':'' \<in> set (endpoint a p)"
    by (simp add: endpoint_def)
  moreover have "CHR '':'' \<notin> set kReplicateClientDestination"
    by code_simp
  ultimately show ?thesis by metis
qed

lemma known_fields: "check_fields al (fields_of cfg) = Inr ()"
  by (simp add: check_fields_def fields_of_def allowed_fields_def)

lemma side_fields_of:
  assumes "loaded_config os cfg"
  shows "side_fields os al (fields_of cfg) (if is_client cfg then ''client'' else ''server'')
    (default_config\<lparr>udp_iface_reference := udp_iface_reference cfg, udp_iface_ip := udp_iface_ip cfg\<rparr>) = Inr cfg"
proof (cases "is_client cfg")
  case True
  have "parseEndpoint os (endpoint (tcp_srv_ip cfg) (tcp_srv_port cfg)) f = Inr (tcp_srv_ip cfg, tcp_srv_port cfg)"
    "parseEndpoint os (endpoint (udp_dst_ip cfg) (udp_dst_port cfg)) f = Inr (udp_dst_ip cfg, udp_dst_port cfg)" for f
    using assms True by (auto simp: loaded_config_def isComplete_iff intro!: parseEndpoint_endpoint)
  with True assms show ?thesis
    by (simp add: side_fields_def client_fields_def fields_of_def contains_def requiredField_def
        endpoint_nonempty default_config_def loaded_config_def)
next
  case False
  have listen: "parsePort (to_string (unat (tcp_srv_port cfg))) f = Inr (tcp_srv_port cfg)" for f
    using assms by (auto simp: loaded_config_def isComplete_iff intro!: parsePort_to_string)
  show ?thesis
  proof (cases "use_clt_grp cfg")
    case True
    with False assms listen show ?thesis
      by (simp add: side_fields_def server_fields_def fields_of_def contains_def requiredField_def Let_def
          default_config_def loaded_config_def)
  next
    case dest: False
    have "parseEndpoint os (endpoint (udp_dst_ip cfg) (udp_dst_port cfg)) f = Inr (udp_dst_ip cfg, udp_dst_port cfg)" for f
      using assms False dest by (auto simp: loaded_config_def isComplete_iff intro!: parseEndpoint_endpoint)
    with False dest assms listen show ?thesis
      by (simp add: side_fields_def server_fields_def fields_of_def contains_def requiredField_def Let_def
          endpoint_not_replicate default_config_def loaded_config_def)
  qed
qed

lemma makeTunnel_fields_of:
  assumes "loaded_config os cfg"
  shows "makeTunnel os al (fields_of cfg) = Inr \<lparr>tunnel_alias = al, tunnel_config = cfg\<rparr>"
proof -
  have "requiredField (fields_of cfg) ''udp_interface'' al = Inr (udp_iface_reference cfg)"
    "requiredField (fields_of cfg) ''mode'' al = Inr (if is_client cfg then ''client'' else ''server'')"
    using assms by (auto simp: fields_of_def requiredField_def loaded_config_def)
  moreover have "resolveInterfaceIpv4 os (udp_iface_reference cfg) = Some (udp_iface_ip cfg)" "isComplete cfg"
    using assms by (simp_all add: loaded_config_def)
  ultimately show ?thesis
    using side_fields_of [OF assms, of al]
    by (simp add: makeTunnel_def known_fields Let_def)
qed

text \<open>
  C9. The parser reads every configuration it can give: the file that lists loaded tunnels in the order
  of their aliases, with texts that fit between quotes, loads as exactly these tunnels.
\<close>

theorem configuration_round_trip:
  assumes "sorted_wrt (<) (map tunnel_alias ts)"
    and "list_all (\<lambda>t. isAlias (tunnel_alias t) \<and> loaded_config os (tunnel_config t) \<and>
      printable (tunnel_config t)) ts"
  shows "parseConfiguration os (configuration_text ts) = Inr ts"
proof -
  let ?secs = "map (\<lambda>t. (tunnel_alias t, fields_of (tunnel_config t))) ts"
  have "list_all plain_section ?secs"
    using assms(2) section_plain by (simp add: list_all_iff)
  moreover have "ascending ?secs"
    using assms(1) by (simp add: ascending_def comp_def)
  moreover have "map_result (\<lambda>(al, flds). makeTunnel os al flds) ?secs = Inr ts"
    using assms(2) by (simp add: map_result_Inr list_all2_conv_all_nth list_all_length makeTunnel_fields_of)
  ultimately show ?thesis
    unfolding configuration_text_def by (simp add: parse_file_text)
qed

lemma sample_sections:
  "\<exists>st. parse_lines (getlines sample_text) parse_start = Inr st \<and> version st = 1 \<and>
    sections st =
      [(''example-client'', [(''mode'', ''client''), (''tcp_server'', ''192.168.1.10:14052''),
         (''udp_group'', ''239.1.2.3:5000''), (''udp_interface'', ''192.168.1.20'')]),
       (''example-server'', [(''mode'', ''server''), (''tcp_listen_port'', ''14052''),
         (''udp_destination'', ''replicate_client''), (''udp_interface'', ''192.168.1.10'')])]"
proof -
  have "case parse_lines (getlines sample_text) parse_start of Inl e \<Rightarrow> False
    | Inr st \<Rightarrow> version st = 1 \<and>
    sections st =
      [(''example-client'', [(''mode'', ''client''), (''tcp_server'', ''192.168.1.10:14052''),
         (''udp_group'', ''239.1.2.3:5000''), (''udp_interface'', ''192.168.1.20'')]),
       (''example-server'', [(''mode'', ''server''), (''tcp_listen_port'', ''14052''),
         (''udp_destination'', ''replicate_client''), (''udp_interface'', ''192.168.1.10'')])]"
    by code_simp
  then show ?thesis
    by (simp split: sum.splits)
qed

definition sample_client :: config where
  "sample_client = default_config\<lparr>is_client := True, udp_iface_reference := ''192.168.1.20'',
     udp_iface_ip := ''192.168.1.20'', tcp_srv_ip := ''192.168.1.10'', tcp_srv_port := 14052,
     udp_dst_ip := ''239.1.2.3'', udp_dst_port := 5000\<rparr>"

definition sample_server :: config where
  "sample_server = default_config\<lparr>udp_iface_reference := ''192.168.1.10'', udp_iface_ip := ''192.168.1.10'',
     tcp_srv_port := 14052, use_clt_grp := True\<rparr>"

lemma sample_fields:
  "fields_of sample_client = [(''mode'', ''client''), (''tcp_server'', ''192.168.1.10:14052''),
     (''udp_group'', ''239.1.2.3:5000''), (''udp_interface'', ''192.168.1.20'')]"
  "fields_of sample_server = [(''mode'', ''server''), (''tcp_listen_port'', ''14052''),
     (''udp_destination'', ''replicate_client''), (''udp_interface'', ''192.168.1.10'')]"
  by (simp_all add: fields_of_def sample_client_def sample_server_def default_config_def endpoint_def
      kReplicateClientDestination_def to_string.simps digit_char_simps)

lemma resolve_text: "isIpv4Address os s \<Longrightarrow> resolveInterfaceIpv4 os s = Some s"
  by (simp add: isIpv4Address_def resolveInterfaceIpv4_def)

lemma sample_parses:
  assumes "isIpv4Address os ''192.168.1.20''" and "isIpv4Address os ''192.168.1.10''"
    and "isIpv4Address os ''239.1.2.3''"
  shows "parseConfiguration os sample_text =
    Inr [\<lparr>tunnel_alias = ''example-client'', tunnel_config = sample_client\<rparr>,
         \<lparr>tunnel_alias = ''example-server'', tunnel_config = sample_server\<rparr>]"
proof -
  have "loaded_config os sample_client" "loaded_config os sample_server"
    using assms resolve_text
    by (simp_all add: loaded_config_def sample_client_def sample_server_def default_config_def isComplete_def)
  note tunnels = makeTunnel_fields_of [OF this(1), unfolded sample_fields]
    makeTunnel_fields_of [OF this(2), unfolded sample_fields]
  obtain st where "parse_lines (getlines sample_text) parse_start = Inr st" "version st = 1"
    "map_result (\<lambda>(al, flds). makeTunnel os al flds) (sections st) =
      Inr [\<lparr>tunnel_alias = ''example-client'', tunnel_config = sample_client\<rparr>,
         \<lparr>tunnel_alias = ''example-server'', tunnel_config = sample_server\<rparr>]"
    using sample_sections tunnels by auto
  then show ?thesis
    by (simp add: parseConfiguration_def)
qed

text \<open>
  The sample file the program writes is one it loads: on a machine whose \<open>inet_pton\<close> accepts the four
  addresses in it, it gives a client that forwards 239.1.2.3:5000 to the server 192.168.1.10:14052 and a
  server on that port that republishes to the client's group. It is never written over a file.
\<close>

theorem sample_loads:
  assumes "isIpv4Address os ''192.168.1.20''" and "isIpv4Address os ''192.168.1.10''"
    and "isIpv4Address os ''239.1.2.3''" and "writeSampleConfiguration directories_error creatable path fs = Inr fs'"
  shows "fs path = None \<and> loadConfiguration os fs' path =
    Inr [\<lparr>tunnel_alias = ''example-client'', tunnel_config = sample_client\<rparr>,
         \<lparr>tunnel_alias = ''example-server'', tunnel_config = sample_server\<rparr>]"
proof -
  have "fs path = None" "fs' path = Some sample_text"
    using assms(4) by (auto simp: writeSampleConfiguration_def split: if_splits option.splits)
  then show ?thesis
    using sample_parses [OF assms(1-3)] by (simp add: loadConfiguration_def)
qed

end
