(* ===== verification/Command_Line.thy ===== *)
theory Command_Line
  imports Tunneler
begin

text \<open>
  \<open>src/src/CommandLine.cpp\<close>: the options of a tunnel started directly. \<open>DEATH\<close> logs its message and exits;
  \<open>std::out_of_range\<close> of \<open>std::stoi\<close> is not caught there. The arguments are those after the program name.
\<close>

datatype cl_exit = Exit_death string | Uncaught_out_of_range

definition getPort :: "string \<Rightarrow> cl_exit + u16" where
  "getPort port_arg =
     (case stoi port_arg of
        Inl Invalid_argument \<Rightarrow> Inl (Exit_death (''Invalid port '' @ c_str port_arg @ ''!''))
      | Inl Out_of_range \<Rightarrow> Inl Uncaught_out_of_range
      | Inr port_int \<Rightarrow>
          if port_int < 0 \<or> port_int > 65535 then
            Inl (Exit_death (''Invalid port '' @ show_int port_int @ ''!''))
          else Inr (of_int port_int))"

definition getIpAndPort :: "string \<Rightarrow> cl_exit + string \<times> u16" where
  "getIpAndPort ip_port_arg =
     (let bad = Inl (Exit_death (''Invalid ip-port argument '' @ quoted (c_str ip_port_arg) @ ''.''))
      in case find_char (CHR '':'') ip_port_arg of
           None \<Rightarrow> bad
         | Some pos \<Rightarrow>
             if pos = length ip_port_arg - 1 then bad
             else and_then (getPort (drop (pos + 1) ip_port_arg)) (\<lambda>port. Inr (take pos ip_port_arg, port)))"

record cl_state =
  cl_config :: config
  side_selected :: bool
  cl_log :: "output_call list"

definition cl_info :: "string \<Rightarrow> cl_state \<Rightarrow> cl_state" where
  "cl_info message st = st\<lparr>cl_log := cl_log st @ [INFO message]\<rparr>"

definition set_config :: "(config \<Rightarrow> config) \<Rightarrow> cl_state \<Rightarrow> cl_state" where
  "set_config f st = st\<lparr>cl_config := f (cl_config st)\<rparr>"

text \<open>An option with an argument: the state it leaves, and how the program exits if it does.\<close>

definition apply_option :: "string \<Rightarrow> string \<Rightarrow> cl_state \<Rightarrow> cl_state \<times> (cl_exit + cl_state)" where
  "apply_option option argument st =
     (if option = ''--udpiface'' \<or> option = ''-i'' then
        (let st = cl_info (''UDP interface:               '' @ argument) st
         in (st, Inr (set_config (\<lambda>cfg. cfg\<lparr>udp_iface_ip := argument, udp_iface_reference := argument\<rparr>) st)))
      else if option = ''--tcpiface'' \<or> option = ''-j'' then
        (let st = cl_info (''TCP interface:               '' @ argument) st;
             st = set_config (\<lambda>cfg. cfg\<lparr>tcp_iface_ip := argument\<rparr>) st
         in (st, Inr (st\<lparr>cl_log := cl_log st @ [WARN ''TCP interface selection is not supported yet'']\<rparr>)))
      else if option = ''--udpgroup'' \<or> option = ''-u'' then
        (let st = cl_info (''UDP destination IP and port: '' @ argument) st;
             st = set_config (\<lambda>cfg. cfg\<lparr>use_clt_grp := False\<rparr>) st
         in (st, and_then (getIpAndPort argument) (\<lambda>(ip, port).
              Inr (set_config (\<lambda>cfg. cfg\<lparr>udp_dst_ip := ip, udp_dst_port := port\<rparr>) st))))
      else if option = ''--tcpsrv'' \<or> option = ''-t'' then
        (if is_client (cl_config st) then
           (let st = cl_info (''TCP server IP and port:      '' @ argument) st
            in (st, and_then (getIpAndPort argument) (\<lambda>(ip, port).
                 Inr (set_config (\<lambda>cfg. cfg\<lparr>tcp_srv_ip := ip, tcp_srv_port := port\<rparr>) st))))
         else
           (let st = cl_info (''TCP server listen port:      '' @ argument) st
            in (st, and_then (getPort argument) (\<lambda>port.
                 Inr (set_config (\<lambda>cfg. cfg\<lparr>tcp_srv_port := port\<rparr>) st)))))
      else (st, Inl (Exit_death (''Invalid option '' @ option))))"

text \<open>\<open>DEATH\<close> leaves its message in the log.\<close>

fun exit_log :: "cl_exit \<Rightarrow> output_call list" where
  "exit_log (Exit_death message) = [LogMessage Death message]"
| "exit_log Uncaught_out_of_range = []"

definition cl_stop :: "cl_state \<Rightarrow> cl_exit \<Rightarrow> output_call list \<times> (cl_exit + config)" where
  "cl_stop st e = (cl_log st @ exit_log e, Inl e)"

fun parse_options :: "string list \<Rightarrow> cl_state \<Rightarrow> output_call list \<times> (cl_exit + config)" where
  "parse_options [] st = (cl_log st, Inr (cl_config st))"
| "parse_options (option # args) st =
     (if option = ''--server'' \<or> option = ''-s'' then
        parse_options args (set_config (\<lambda>cfg. cfg\<lparr>is_client := False\<rparr>)
          (cl_info ''Mode:                        server'' (st\<lparr>side_selected := True\<rparr>)))
      else if option = ''--client'' \<or> option = ''-c'' then
        parse_options args (set_config (\<lambda>cfg. cfg\<lparr>is_client := True\<rparr>)
          (cl_info ''Mode:                        client'' (st\<lparr>side_selected := True\<rparr>)))
      else if option = ''--verbose'' then
        parse_options args (set_config (\<lambda>cfg. cfg\<lparr>verbose_output := True\<rparr>) st)
      else if \<not> side_selected st then
        cl_stop st (Exit_death ''First argument needs to select server or client mode! (--server or --client)'')
      else (case args of
          [] \<Rightarrow> cl_stop st (Exit_death (''Option '' @ option @ '' requires an argument.''))
        | argument # args' \<Rightarrow>
            (case apply_option option argument st of
               (st', Inl e) \<Rightarrow> cl_stop st' e
             | (_, Inr st') \<Rightarrow> parse_options args' st')))"

text \<open>
  \<open>parseCommandLineConfig\<close>: the log, and the exit or the result with the configuration it leaves. The
  warning is followed by \<open>getchar()\<close>.
\<close>

definition parseCommandLineConfig ::
  "string list \<Rightarrow> config \<Rightarrow> output_call list \<times> (cl_exit + bool \<times> config)" where
  "parseCommandLineConfig args cfg =
     (let (calls, result) = parse_options args
            \<lparr>cl_config = cfg\<lparr>use_clt_grp := True\<rparr>, side_selected = False, cl_log = []\<rparr>
      in case result of
           Inl e \<Rightarrow> (calls, Inl e)
         | Inr cfg \<Rightarrow>
             if \<not> isComplete cfg then (calls, Inr (False, cfg))
             else if \<not> is_client cfg \<and> use_clt_grp cfg then
               (calls @ [WARN (''The server is set to publish tunneled packets on the same multicast group '' @
                  ''joined by the client.This is dangerous if both client and server are on the same subnet.'' @
                  [CHR 0x0A] @ ''Press Ctrl-C to quit or any key to continue'')], Inr (True, cfg))
             else (calls, Inr (True, cfg)))"

section \<open>Ports and endpoints\<close>

lemma unat_u16_less: "unat (p :: u16) < 65536"
  using unsigned_less [of p] by simp

lemma stoi_with_junk:
  assumes "junk = [] \<or> \<not> isdigit (hd junk)"
  shows "stoi (to_string n @ junk) = (if n < 2 ^ 31 then Inr (int n) else Inl Out_of_range)"
  using strto_parts_junk [OF assms, of n] by (simp add: stoi_def)

lemma getPort_to_string: "getPort (to_string (unat p)) = Inr p"
proof -
  have r: "stoi (to_string (unat p)) = Inr (int (unat p))"
    using stoi_with_junk [of "[]" "unat p"] unat_u16_less [of p] by simp
  have "\<not> (int (unat p) < 0 \<or> int (unat p) > 65535)"
    using unat_u16_less [of p] by linarith
  then have "getPort (to_string (unat p)) = Inr (of_int (int (unat p)))"
    unfolding getPort_def r by (simp only: sum.case if_False)
  then show ?thesis by simp
qed

lemma getIpAndPort_text:
  assumes "CHR '':'' \<notin> set ip"
  shows "getIpAndPort (ip @ '':'' @ to_string (unat p)) = Inr (ip, p)"
proof -
  have "to_string (unat p) \<noteq> []"
    by simp
  then have "length ip \<noteq> length (ip @ '':'' @ to_string (unat p)) - 1"
    by (cases "to_string (unat p)") auto
  then show ?thesis
    using find_char_append [OF assms, of "to_string (unat p)"]
    by (simp add: getIpAndPort_def getPort_to_string Let_def)
qed

text \<open>
  The port of an option is read by \<open>std::stoi\<close>: the ports are read as they should, zero included;
  text after the number is ignored; a number beyond the ports ends the program with a message, but one
  beyond \<open>int\<close> ends it with an exception nobody catches there.
\<close>

theorem getPort_reads:
  assumes "junk = [] \<or> \<not> isdigit (hd junk)"
  shows "getPort (to_string n @ junk) =
    (if n < 2 ^ 16 then Inr (of_nat n)
     else if n < 2 ^ 31 then Inl (Exit_death (''Invalid port '' @ to_string n @ ''!''))
     else Inl Uncaught_out_of_range)"
  using stoi_with_junk [OF assms, of n] by (auto simp: getPort_def show_int_def)

theorem getPort_reads_witness:
  "getPort ''99999999999'' = Inl Uncaught_out_of_range"
proof -
  have "to_string 99999999999 = ''99999999999''"
    by (simp add: to_string.simps digit_char_simps)
  then show ?thesis
    using getPort_reads [of "[]" 99999999999] by simp
qed

end
