(* ===== verification/Control_Service.thy ===== *)
theory Control_Service
  imports Configuration Command_Line
begin

text \<open>
  \<open>src/src/control/ControlService.h\<close> and \<open>src/src/control/ControlService.cpp\<close>: the catalogue of named
  tunnels, and the replacement of the configuration file.
\<close>

section \<open>Summaries\<close>

record tunnel_summary =
  summary_alias :: string
  summary_mode :: string
  summary_destination :: string
  equivalent_direct_command :: string

definition modeName :: "named_tunnel \<Rightarrow> string" where
  "modeName t = (if is_client (tunnel_config t) then ''client'' else ''server'')"

definition udpDestination :: "named_tunnel \<Rightarrow> string" where
  "udpDestination t =
     (if \<not> is_client (tunnel_config t) \<and> use_clt_grp (tunnel_config t) then kReplicateClientDestination
      else endpoint (udp_dst_ip (tunnel_config t)) (udp_dst_port (tunnel_config t)))"

definition directCommand :: "named_tunnel \<Rightarrow> string" where
  "directCommand t =
     (let cfg = tunnel_config t;
          iface = (if udp_iface_reference cfg = [] then udp_iface_ip cfg else udp_iface_reference cfg)
      in if is_client cfg then
           ''dgramtunneler --client -i '' @ iface @ '' -t '' @ endpoint (tcp_srv_ip cfg) (tcp_srv_port cfg) @
           '' -u '' @ endpoint (udp_dst_ip cfg) (udp_dst_port cfg)
         else
           ''dgramtunneler --server -i '' @ iface @ '' -t '' @ to_string (unat (tcp_srv_port cfg)) @
           (if use_clt_grp cfg then [] else '' -u '' @ endpoint (udp_dst_ip cfg) (udp_dst_port cfg)))"

section \<open>The service\<close>

record service =
  configuration_path :: string
  configuration :: "named_tunnel list"

text \<open>The operations hold the mutex from beginning to end, so each of them is one step.\<close>

definition construct_service :: "os \<Rightarrow> file_system \<Rightarrow> string \<Rightarrow> string + service" where
  "construct_service os fs path =
     and_then (loadConfiguration os fs path)
       (\<lambda>ts. Inr \<lparr>configuration_path = path, configuration = ts\<rparr>)"

definition listTunnels :: "service \<Rightarrow> tunnel_summary list" where
  "listTunnels svc = map (\<lambda>t. \<lparr>summary_alias = tunnel_alias t, summary_mode = modeName t,
     summary_destination = udpDestination t, equivalent_direct_command = directCommand t\<rparr>) (configuration svc)"

definition service_tunnel :: "service \<Rightarrow> string \<Rightarrow> string + named_tunnel" where
  "service_tunnel svc al = findTunnel (configuration svc) al"

definition validate :: "service \<Rightarrow> string \<Rightarrow> string + unit" where
  "validate svc al = (if al \<noteq> [] then and_then (service_tunnel svc al) (\<lambda>_. Inr ()) else Inr ())"

definition configurationToml :: "file_system \<Rightarrow> service \<Rightarrow> string + string" where
  "configurationToml fs svc =
     (case fs (configuration_path svc) of
        None \<Rightarrow> Inl (''could not read configuration at '' @ configuration_path svc)
      | Some text \<Rightarrow> Inr text)"

text \<open>
  What the file system does during a replacement: whether the temporary file can be opened, whether the
  stream is still good after the insertion, how many of the bytes have reached the file once the stream is
  closed, whether each call of \<open>rename\<close> fails, whether \<open>remove\<close> fails, and what the last \<open>remove\<close>, of the
  temporary file, throws when it fails.
\<close>

record write_env =
  can_open :: bool
  stream_good :: bool
  bytes_on_disk :: nat
  rename_fails :: bool
  remove_fails :: bool
  second_rename_fails :: bool
  cleanup_error :: "string option"

definition move_file :: "string \<Rightarrow> string \<Rightarrow> file_system \<Rightarrow> file_system" where
  "move_file src dst fs = (fs(dst := fs src))(src := None)"

definition temporary_path :: "service \<Rightarrow> string" where
  "temporary_path svc = configuration_path svc @ ''.tmp''"

definition rename_step :: "platform \<Rightarrow> write_env \<Rightarrow> service \<Rightarrow> file_system \<Rightarrow> bool \<times> file_system" where
  "rename_step p env svc fs =
     (let tmp = temporary_path svc; path = configuration_path svc
      in if \<not> rename_fails env then (True, move_file tmp path fs)
         else if p = Windows then
           (if remove_fails env then (False, fs)
            else if second_rename_fails env then (False, fs(path := None))
            else (True, move_file tmp path (fs(path := None))))
         else (False, fs))"

text \<open>The first component is the exception that was thrown, if one was; the service is changed in place.\<close>

definition replaceConfiguration ::
  "os \<Rightarrow> write_env \<Rightarrow> string \<Rightarrow> service \<Rightarrow> file_system \<Rightarrow> string option \<times> service \<times> file_system" where
  "replaceConfiguration os env toml svc fs =
     (case parseConfiguration os toml of
        Inl e \<Rightarrow> (Some e, svc, fs)
      | Inr replacement \<Rightarrow>
          (let tmp = temporary_path svc;
               failure = Some (''could not write configuration at '' @ tmp)
           in if \<not> can_open env then (failure, svc, fs)
              else
                (let fs = fs(tmp \<mapsto> take (bytes_on_disk env) toml)
                 in if \<not> stream_good env then (failure, svc, fs)
                    else
                      (let (renamed, fs) = rename_step (os_platform os) env svc fs
                       in if \<not> renamed then
                            (case cleanup_error env of
                               Some message \<Rightarrow> (Some message, svc, fs)
                             | None \<Rightarrow>
                                 (Some (''could not replace configuration at '' @ configuration_path svc), svc,
                                  fs(tmp := None)))
                          else (None, svc\<lparr>configuration := replacement\<rparr>, fs)))))"

section \<open>The catalogue and the file\<close>

text \<open>
  The two ways in which the file can come to differ from the catalogue: on Windows the file is removed and
  then \<open>rename\<close> fails a second time; or the end of a text is lost after the stream was checked, as it is
  flushed only when it is closed.
\<close>

definition file_lost :: "os \<Rightarrow> write_env \<Rightarrow> bool" where
  "file_lost os env \<longleftrightarrow> os_platform os = Windows \<and> rename_fails env \<and> \<not> remove_fails env \<and> second_rename_fails env"

definition text_cut :: "write_env \<Rightarrow> string \<Rightarrow> bool" where
  "text_cut env toml \<longleftrightarrow> stream_good env \<and> bytes_on_disk env < length toml"

definition rename_succeeds :: "os \<Rightarrow> write_env \<Rightarrow> bool" where
  "rename_succeeds os env \<longleftrightarrow>
     \<not> rename_fails env \<or> os_platform os = Windows \<and> \<not> remove_fails env \<and> \<not> second_rename_fails env"

lemma temporary_path_neq [simp]: "temporary_path svc \<noteq> configuration_path svc"
  "configuration_path svc \<noteq> temporary_path svc"
  by (simp_all add: temporary_path_def)

lemmas replace_defs = replaceConfiguration_def rename_step_def move_file_def file_lost_def rename_succeeds_def Let_def

lemma replace_thrown:
  assumes "replaceConfiguration os env toml svc fs = (Some message, svc', fs')"
  shows "svc' = svc \<and> (fs' (configuration_path svc) = fs (configuration_path svc) \<or>
      fs' (configuration_path svc) = None \<and> file_lost os env)"
  using assms by (auto simp: replace_defs split: sum.splits if_splits option.splits)

lemma replace_returned:
  assumes "replaceConfiguration os env toml svc fs = (None, svc', fs')"
  shows "configuration_path svc' = configuration_path svc \<and> parseConfiguration os toml = Inr (configuration svc') \<and>
    fs' (configuration_path svc) = Some (take (bytes_on_disk env) toml) \<and> fs' (temporary_path svc) = None \<and>
    stream_good env"
  using assms by (auto simp: replace_defs split: sum.splits if_splits option.splits)

lemma replace_succeeds:
  "fst (replaceConfiguration os env toml svc fs) = None \<longleftrightarrow>
     (\<exists>ts. parseConfiguration os toml = Inr ts) \<and> can_open env \<and> stream_good env \<and> rename_succeeds os env"
  by (auto simp: replace_defs split: sum.splits option.splits)

lemma replace_loses:
  assumes "file_lost os env" and "parseConfiguration os toml = Inr ts" and "can_open env" and "stream_good env"
  shows "snd (snd (replaceConfiguration os env toml svc fs)) (configuration_path svc) = None"
  using assms by (auto simp: replace_defs split: option.split)

lemma replace_other_files:
  assumes "path \<noteq> configuration_path svc" and "path \<noteq> temporary_path svc"
  shows "snd (snd (replaceConfiguration os env toml svc fs)) path = fs path"
  using assms by (auto simp: replace_defs split: sum.split option.split)

text \<open>
  C14. What a replacement of the configuration leaves, on every platform. It succeeds exactly when the text
  loads, the temporary file can be opened and written, and \<open>rename\<close> succeeds, on Windows at the second attempt
  after the old file was removed. After a success the catalogue is what the text says, and the file holds
  the bytes that reached it: all of them only when none were left to write as the stream was closed, since
  it is checked before it is flushed. After a failure the catalogue is as it was, and so is the file, with
  one exception: when on Windows the second \<open>rename\<close> fails the file is gone. No other file is touched but the
  temporary one, which is gone after a success.
\<close>

theorem replaceConfiguration_atomic:
  assumes "replaceConfiguration os env toml svc fs = (thrown, svc', fs')"
  shows "(thrown = None \<longleftrightarrow> (\<exists>ts. parseConfiguration os toml = Inr ts) \<and> can_open env \<and> stream_good env \<and>
      (\<not> rename_fails env \<or> os_platform os = Windows \<and> \<not> remove_fails env \<and> \<not> second_rename_fails env)) \<and>
    configuration_path svc' = configuration_path svc \<and>
    (thrown = None \<longrightarrow> parseConfiguration os toml = Inr (configuration svc') \<and>
       fs' (configuration_path svc) = Some (take (bytes_on_disk env) toml) \<and> fs' (temporary_path svc) = None) \<and>
    (thrown \<noteq> None \<longrightarrow> configuration svc' = configuration svc \<and>
       fs' (configuration_path svc) =
         (if os_platform os = Windows \<and> rename_fails env \<and> \<not> remove_fails env \<and> second_rename_fails env \<and>
             (\<exists>ts. parseConfiguration os toml = Inr ts) \<and> can_open env \<and> stream_good env
          then None else fs (configuration_path svc))) \<and>
    (\<forall>path. path \<noteq> configuration_path svc \<and> path \<noteq> temporary_path svc \<longrightarrow> fs' path = fs path)"
proof -
  have other: "fs' path = fs path" if "path \<noteq> configuration_path svc" "path \<noteq> temporary_path svc" for path
    using replace_other_files [OF that, of os env toml fs] assms by simp
  have failed: "configuration svc' = configuration svc \<and> fs' (configuration_path svc) =
      (if file_lost os env \<and> (\<exists>ts. parseConfiguration os toml = Inr ts) \<and> can_open env \<and> stream_good env
       then None else fs (configuration_path svc))" if "thrown \<noteq> None"
    using assms that by (auto simp: replace_defs split: sum.splits if_splits option.splits)
  have path: "configuration_path svc' = configuration_path svc"
    using assms replace_thrown [of os env toml svc fs _ svc' fs'] replace_returned [of os env toml svc fs svc' fs']
    by (cases thrown) auto
  show ?thesis
    using replace_succeeds [of os env toml svc fs] replace_returned [of os env toml svc fs svc' fs'] assms other failed path
    unfolding rename_succeeds_def file_lost_def by (simp add: conj_assoc)
qed

text \<open>
  The catalogue follows the texts that were accepted: it is always what the last of them says, and the file
  holds that text, or a beginning of it if a text was cut, or is missing if it was lost.
\<close>

definition follows :: "os \<Rightarrow> string \<Rightarrow> bool \<Rightarrow> bool \<Rightarrow> service \<times> file_system \<Rightarrow> bool" where
  "follows os path lost shortened = (\<lambda>(svc, fs). configuration_path svc = path \<and>
     (\<exists>text. parseConfiguration os text = Inr (configuration svc) \<and>
        (case fs path of None \<Rightarrow> lost | Some t \<Rightarrow> t = text \<or> shortened \<and> prefix t text)))"

lemma replace_follows:
  assumes "follows os path lost shortened (svc, fs)" and "replaceConfiguration os env toml svc fs = (thrown, svc', fs')"
  shows "follows os path (lost \<or> file_lost os env) (shortened \<or> text_cut env toml) (svc', fs')"
proof (cases thrown)
  case None
  with replace_returned [of os env toml svc fs svc' fs'] assms(2)
  have "configuration_path svc' = configuration_path svc" "parseConfiguration os toml = Inr (configuration svc')"
    "fs' (configuration_path svc) = Some (take (bytes_on_disk env) toml)" "stream_good env"
    by simp_all
  with assms(1) show ?thesis
    by (auto simp: follows_def text_cut_def take_is_prefix intro!: exI [of _ toml])
next
  case (Some message)
  then have keep: "svc' = svc" "fs' (configuration_path svc) = fs (configuration_path svc) \<or>
      fs' (configuration_path svc) = None \<and> file_lost os env"
    using replace_thrown [of os env toml svc fs message svc' fs'] assms(2) by simp_all
  obtain u where "configuration_path svc = path" "parseConfiguration os u = Inr (configuration svc)"
    "case fs path of None \<Rightarrow> lost | Some t \<Rightarrow> t = u \<or> shortened \<and> prefix t u"
    using assms(1) by (auto simp: follows_def)
  with keep show ?thesis
    unfolding follows_def prod.case by (intro conjI exI [of _ u]) (auto split: option.splits)
qed

lemma follows_mono: "follows os path lost shortened sf \<Longrightarrow> (lost \<Longrightarrow> lost') \<Longrightarrow> (shortened \<Longrightarrow> shortened') \<Longrightarrow> follows os path lost' shortened' sf"
  by (auto simp: follows_def split: prod.splits option.splits)

lemma follows_constructed: "construct_service os fs path = Inr svc \<Longrightarrow> follows os path False False (svc, fs)"
  by (auto simp: construct_service_def and_then_eq_Inr follows_def loadConfiguration_def split: option.splits)

lemma follows_loads: "follows os path False False (svc, fs) \<Longrightarrow> construct_service os fs path = Inr svc"
  by (cases svc) (auto simp: construct_service_def follows_def loadConfiguration_def split: option.splits)

text \<open>A history of replacements, each in its own circumstances.\<close>

fun replace_all :: "os \<Rightarrow> (write_env \<times> string) list \<Rightarrow> service \<Rightarrow> file_system \<Rightarrow> service \<times> file_system" where
  "replace_all os [] svc fs = (svc, fs)"
| "replace_all os ((env, toml) # rs) svc fs =
     (let (thrown, svc', fs') = replaceConfiguration os env toml svc fs in replace_all os rs svc' fs')"

text \<open>
  The catalogue never drifts from the file. Started from a file that loads, and through any history of
  replacements, failed ones included, in which no text is cut and no file is lost, the service answers what
  a new service would answer after loading the file.
\<close>

theorem service_in_step:
  assumes "construct_service os fs path = Inr svc"
    and "list_all (\<lambda>(env, toml). \<not> text_cut env toml \<and> \<not> file_lost os env) rs"
    and "replace_all os rs svc fs = (svc', fs')"
  shows "construct_service os fs' path = Inr svc'"
proof -
  have "follows os path False False (svc', fs')"
    using follows_constructed [OF assms(1)] assms(2,3)
  proof (induction os rs svc fs rule: replace_all.induct)
    case (2 os env toml rs svc fs)
    obtain thrown svc1 fs1 where r: "replaceConfiguration os env toml svc fs = (thrown, svc1, fs1)"
      by (metis prod_cases3)
    have "follows os path False False (svc1, fs1)"
      using replace_follows [OF "2.prems"(1) r] "2.prems"(2) by simp
    with "2.IH" [OF r [symmetric] refl] r "2.prems"(2,3) show ?case
      by simp
  qed simp
  then show ?thesis
    by (rule follows_loads)
qed

section \<open>The direct command\<close>

text \<open>The words of a command line without quoting.\<close>

fun words :: "string \<Rightarrow> string list" where
  "words [] = [[]]"
| "words (c # cs) =
     (if c = CHR '' '' then [] # words cs
      else (case words cs of w # ws \<Rightarrow> (c # w) # ws | [] \<Rightarrow> [[c]]))"

lemma words_word: "CHR '' '' \<notin> set w \<Longrightarrow> words w = [w]"
  by (induction w) auto

lemma words_append: "CHR '' '' \<notin> set w \<Longrightarrow> words (w @ CHR '' '' # rest) = w # words rest"
  by (induction w) auto

definition command_word :: "string \<Rightarrow> bool" where
  "command_word w \<longleftrightarrow> CHR '' '' \<notin> set w \<and> CHR '':'' \<notin> set w"

lemma words_endpoint:
  "command_word a \<Longrightarrow> CHR '' '' \<notin> set (endpoint a p)"
  using quote_not_digit [of "unat p"] by (simp add: command_word_def endpoint_def)

lemma client_words:
  assumes "CHR '' '' \<notin> set i" and "CHR '' '' \<notin> set t" and "CHR '' '' \<notin> set u"
  shows "words (''dgramtunneler --client -i '' @ i @ '' -t '' @ t @ '' -u '' @ u) =
    [''dgramtunneler'', ''--client'', ''-i'', i, ''-t'', t, ''-u'', u]"
  using assms by (simp add: words_append words_word)

lemma server_words:
  assumes "CHR '' '' \<notin> set i" and "CHR '' '' \<notin> set t" and "CHR '' '' \<notin> set u"
  shows "words (''dgramtunneler --server -i '' @ i @ '' -t '' @ t) =
    [''dgramtunneler'', ''--server'', ''-i'', i, ''-t'', t]"
  and "words (''dgramtunneler --server -i '' @ i @ '' -t '' @ t @ '' -u '' @ u) =
    [''dgramtunneler'', ''--server'', ''-i'', i, ''-t'', t, ''-u'', u]"
  using assms by (simp_all add: words_append words_word)

lemma getIpAndPort_endpoint: "command_word a \<Longrightarrow> getIpAndPort (endpoint a p) = Inr (a, p)"
  using getIpAndPort_text [of a p] by (simp add: endpoint_def command_word_def)

lemma command_arguments:
  assumes "loaded_config os cfg" and "CHR '' '' \<notin> set (udp_iface_reference cfg)"
    and "command_word (tcp_srv_ip cfg)" and "command_word (udp_dst_ip cfg)"
  shows "tl (words (directCommand \<lparr>tunnel_alias = al, tunnel_config = cfg\<rparr>)) =
    (if is_client cfg then
       [''--client'', ''-i'', udp_iface_reference cfg, ''-t'', endpoint (tcp_srv_ip cfg) (tcp_srv_port cfg),
        ''-u'', endpoint (udp_dst_ip cfg) (udp_dst_port cfg)]
     else
       [''--server'', ''-i'', udp_iface_reference cfg, ''-t'', to_string (unat (tcp_srv_port cfg))] @
       (if use_clt_grp cfg then [] else [''-u'', endpoint (udp_dst_ip cfg) (udp_dst_port cfg)]))"
proof -
  have "udp_iface_reference cfg \<noteq> []"
    using assms(1) by (simp add: loaded_config_def)
  moreover note words = client_words [OF assms(2) words_endpoint [OF assms(3)] words_endpoint [OF assms(4)]]
    server_words [OF assms(2) quote_not_digit(5) words_endpoint [OF assms(4)]]
  ultimately show ?thesis
    unfolding directCommand_def by (simp add: Let_def words del: append_Cons)
qed

text \<open>
  The command shown for a tunnel starts that tunnel: split at its spaces, its options are accepted, and
  the configuration they give, once its interface is resolved by the constructor, is the configuration of
  the tunnel. (For texts without spaces and addresses without colons.)
\<close>

theorem direct_command_round_trip:
  assumes "loaded_config os cfg" and "CHR '' '' \<notin> set (udp_iface_reference cfg)"
    and "command_word (tcp_srv_ip cfg)" and "command_word (udp_dst_ip cfg)"
  shows "\<exists>cfg'. snd (parseCommandLineConfig
        (tl (words (directCommand \<lparr>tunnel_alias = al, tunnel_config = cfg\<rparr>))) default_config) = Inr (True, cfg') \<and>
      resolve_config os cfg' = Inr cfg"
proof -
  let ?cfg = "cfg\<lparr>udp_iface_ip := udp_iface_reference cfg\<rparr>"
  have l: "isComplete cfg" "udp_iface_reference cfg \<noteq> []" "tcp_iface_ip cfg = []" "\<not> verbose_output cfg"
    "resolveInterfaceIpv4 os (udp_iface_reference cfg) = Some (udp_iface_ip cfg)"
    "is_client cfg \<Longrightarrow> \<not> use_clt_grp cfg" "\<not> is_client cfg \<Longrightarrow> tcp_srv_ip cfg = []"
    "\<not> is_client cfg \<Longrightarrow> use_clt_grp cfg \<Longrightarrow> udp_dst_ip cfg = [] \<and> udp_dst_port cfg = 0"
    using assms(1) by (auto simp: loaded_config_def split: if_splits)
  have complete: "isComplete ?cfg"
    using l(1,2) by (simp add: isComplete_iff)
  have "parse_options (tl (words (directCommand \<lparr>tunnel_alias = al, tunnel_config = cfg\<rparr>)))
      \<lparr>cl_config = default_config\<lparr>use_clt_grp := True\<rparr>, side_selected = False, cl_log = []\<rparr> =
    (fst (parse_options (tl (words (directCommand \<lparr>tunnel_alias = al, tunnel_config = cfg\<rparr>)))
      \<lparr>cl_config = default_config\<lparr>use_clt_grp := True\<rparr>, side_selected = False, cl_log = []\<rparr>), Inr ?cfg)"
    unfolding command_arguments [OF assms]
    using l(3,4,6-8) getIpAndPort_endpoint [OF assms(3)] getIpAndPort_endpoint [OF assms(4)]
    by (cases "is_client cfg"; cases "use_clt_grp cfg")
      (simp_all add: apply_option_def set_config_def cl_info_def getPort_to_string default_config_def Let_def)
  then have "snd (parseCommandLineConfig
        (tl (words (directCommand \<lparr>tunnel_alias = al, tunnel_config = cfg\<rparr>))) default_config) = Inr (True, ?cfg)"
    using complete by (simp add: parseCommandLineConfig_def case_prod_beta prod_eq_iff)
  moreover have "resolve_config os ?cfg = Inr cfg"
    using l(2,5) by (simp add: resolve_config_def Let_def)
  ultimately show ?thesis by blast
qed

end
