(* ===== verification/Control_Types.thy ===== *)
theory Control_Types
  imports Control_Service
begin

text \<open>
  The data of \<open>src/src/control/ControlTypes.h\<close>: lifecycle states, metrics, snapshots and events.
  Timestamps are milliseconds of the system clock, latencies and rates are doubles.
\<close>

datatype tunnel_state =
    TS_Stopped | TS_Starting | TS_Connecting | TS_Connected | TS_Running | TS_Stopping | TS_Failed

datatype runtime_kind = Kind_tunnel | Kind_producer

datatype event_kind = Event_lifecycle | Event_log | Event_metrics

datatype event_severity = Severity_info | Severity_warning | Severity_error

record tunnel_metrics =
  datagrams :: u64
  byte_total :: u64
  throughput :: double
  average_ms :: "double option"
  p50_ms :: "double option"
  p99_ms :: "double option"
  maximum_ms :: "double option"

record datagram_detail =
  detail_time :: nat
  detail_bytes :: u64
  detail_latency :: "double option"

record tunnel_snapshot =
  snap_alias :: string
  snap_kind :: runtime_kind
  snap_state :: tunnel_state
  snap_metrics :: tunnel_metrics
  snap_recent :: "datagram_detail list"
  snap_detail :: string

record control_event =
  event_kind_of :: event_kind
  event_severity_of :: event_severity
  event_time :: nat
  event_alias :: string
  event_message :: string
  event_snapshot :: "tunnel_snapshot option"

definition no_metrics :: tunnel_metrics where
  "no_metrics = \<lparr>datagrams = 0, byte_total = 0, throughput = 0, average_ms = None, p50_ms = None,
     p99_ms = None, maximum_ms = None\<rparr>"

text \<open>The states from which a worker does not come back, and those a start refuses.\<close>

definition terminal :: "tunnel_state \<Rightarrow> bool" where
  "terminal s \<longleftrightarrow> s = TS_Stopped \<or> s = TS_Failed"

definition active_state :: "tunnel_state \<Rightarrow> bool" where
  "active_state s \<longleftrightarrow> s = TS_Starting \<or> s = TS_Connecting \<or> s = TS_Connected \<or> s = TS_Running \<or> s = TS_Stopping"

lemma active_not_terminal: "active_state s \<longleftrightarrow> \<not> terminal s"
  by (cases s) (simp_all add: active_state_def terminal_def)

end
