(* ===== verification/Managed_Runtime.thy ===== *)
theory Managed_Runtime
  imports Control_Types "HOL-Library.Multiset"
begin

text \<open>
  \<open>src/src/control/ManagedTunnelRuntime.cpp\<close>: the supervisor of the worker threads. Callers and worker
  threads run concurrently and meet in the critical sections of one mutex, so each section is one step,
  and a publication to the event sink is another; a step of a call in progress is chosen freely among all
  callers and all threads.

  A worker is an object with an identity (\<open>std::shared_ptr\<close>): \<open>heap\<close> holds the objects ever made, the
  table maps keys to their indices. What a thread does inside the tunneler or the producer is a free
  choice of its observable actions.
\<close>

section \<open>State\<close>

text \<open>
  A thread: not created, before its first action, in \<open>run\<close>, after its last transition, ended. A thread that
  has made a transition publishes the snapshot before it does anything else (\<open>pending\<close>).
\<close>

datatype thread_state = No_thread | At_entry | In_run | Exiting | Exited

record worker =
  wkey :: string
  snap :: tunnel_snapshot
  wconfig :: config
  thread :: thread_state
  joined :: bool
  stop_requested :: bool
  pending :: "(tunnel_snapshot \<times> event_severity) option"
  started :: nat
  latencies :: "double list"

record runtime =
  heap :: "worker list"
  table :: "nat string_map"
  sink :: "control_event list"

definition initial_runtime :: runtime where
  "initial_runtime = \<lparr>heap = [], table = [], sink = []\<rparr>"

definition workerKey :: "runtime_kind \<Rightarrow> string \<Rightarrow> string" where
  "workerKey kind al = (case kind of Kind_tunnel \<Rightarrow> ''tunnel:'' | Kind_producer \<Rightarrow> ''producer:'') @ al"

definition lifecycle_event :: "nat \<Rightarrow> tunnel_snapshot \<times> event_severity \<Rightarrow> control_event" where
  "lifecycle_event now ev =
     \<lparr>event_kind_of = Event_lifecycle, event_severity_of = snd ev, event_time = now,
      event_alias = snap_alias (fst ev), event_message = snap_detail (fst ev), event_snapshot = Some (fst ev)\<rparr>"

definition publish :: "nat \<Rightarrow> tunnel_snapshot \<times> event_severity \<Rightarrow> runtime \<Rightarrow> runtime" where
  "publish now ev rt = rt\<lparr>sink := sink rt @ [lifecycle_event now ev]\<rparr>"

definition update_worker :: "nat \<Rightarrow> (worker \<Rightarrow> worker) \<Rightarrow> runtime \<Rightarrow> runtime" where
  "update_worker i f rt = rt\<lparr>heap := (heap rt)[i := f (heap rt ! i)]\<rparr>"

section \<open>Worker threads\<close>

text \<open>\<open>transition\<close>: the section, with the snapshot that is to be published next.\<close>

definition set_state :: "tunnel_state \<Rightarrow> string \<Rightarrow> worker \<Rightarrow> worker" where
  "set_state st detail w = w\<lparr>snap := (snap w)\<lparr>snap_state := st, snap_detail := detail\<rparr>\<rparr>"

definition transition :: "tunnel_state \<Rightarrow> string \<Rightarrow> worker \<Rightarrow> worker" where
  "transition st detail w =
     (let w = set_state st detail w
      in w\<lparr>pending := Some (snap w, if st = TS_Failed then Severity_error else Severity_info)\<rparr>)"

text \<open>
  \<open>recordDatagram\<close>, given the steady clock in nanoseconds and the system clock in milliseconds.
\<close>

definition latency_metrics :: "double list \<Rightarrow> tunnel_metrics \<Rightarrow> tunnel_metrics" where
  "latency_metrics samples m =
     (let sorted_samples = sort samples
      in m\<lparr>average_ms := Some (average_latency sorted_samples),
           p50_ms := Some (percentile sorted_samples p50), p99_ms := Some (percentile sorted_samples p99),
           maximum_ms := Some (last sorted_samples)\<rparr>)"

definition count_datagram :: "double \<Rightarrow> nat \<Rightarrow> tunnel_metrics \<Rightarrow> tunnel_metrics" where
  "count_datagram elapsed_seconds n m =
     (let m = m\<lparr>datagrams := datagrams m + 1, byte_total := byte_total m + of_nat n\<rparr>
      in if elapsed_seconds > 0
         then m\<lparr>throughput := double_div (double_of (unat (byte_total m))) elapsed_seconds\<rparr> else m)"

definition recordDatagram :: "nat \<Rightarrow> nat \<Rightarrow> nat \<Rightarrow> double option \<Rightarrow> worker \<Rightarrow> worker" where
  "recordDatagram steady system n latency w =
     (let elapsed_seconds = double_div (double_of (steady - started w)) (double_of 1000000000);
          s = (snap w)\<lparr>snap_metrics := count_datagram elapsed_seconds n (snap_metrics (snap w)),
            snap_recent := push_bounded 10
              \<lparr>detail_time = system, detail_bytes = of_nat n, detail_latency = latency\<rparr> (snap_recent (snap w))\<rparr>
      in case latency of
           None \<Rightarrow> w\<lparr>snap := s\<rparr>
         | Some ms \<Rightarrow>
             (let samples = push_bounded 1024 ms (latencies w)
              in w\<lparr>latencies := samples, snap := s\<lparr>snap_metrics := latency_metrics samples (snap_metrics s)\<rparr>\<rparr>))"

text \<open>
  The actions of a worker thread: it begins (with the clock), \<open>run\<close> reports a datagram or a connection,
  \<open>run\<close> returns or throws, a pending snapshot is published, the thread ends.
\<close>

datatype thread_action =
    Begin nat
  | Datagram_seen nat nat nat "double option"
  | Connection_made
  | Run_returned
  | Run_threw string
  | Publish_pending nat
  | End_thread

definition server_text :: "config \<Rightarrow> string" where
  "server_text cfg = endpoint (tcp_srv_ip cfg) (tcp_srv_port cfg)"

definition finished_detail :: "worker \<Rightarrow> string" where
  "finished_detail w =
     (if stop_requested w then ''Stopped by request''
      else case snap_kind (snap w) of Kind_tunnel \<Rightarrow> ''Tunnel finished'' | Kind_producer \<Rightarrow> ''Producer finished'')"

definition begin_worker :: "nat \<Rightarrow> worker \<Rightarrow> worker" where
  "begin_worker now w =
     (case snap_kind (snap w) of
        Kind_tunnel \<Rightarrow>
          (let w = w\<lparr>started := now, thread := In_run\<rparr>
           in if is_client (wconfig w) then w else transition TS_Running ''Running'' w)
      | Kind_producer \<Rightarrow> transition TS_Running ''Running'' (w\<lparr>thread := In_run\<rparr>))"

text \<open>
  \<open>None\<close>: the thread cannot do that now. When \<open>run\<close> returns or throws is left open, as it depends on the
  tunneler or the producer, on its sockets and on the stop token: \<open>Tunnel_Client\<close>, \<open>Tunnel_Server\<close> and \<open>Producer\<close>
  say when they return, and \<open>Managed_Tunnel\<close> runs the tunneler in this place.
\<close>

definition worker_action :: "thread_action \<Rightarrow> worker \<Rightarrow> worker option" where
  "worker_action act w =
     (if pending w \<noteq> None then None
      else case act of
        Begin now \<Rightarrow> if thread w = At_entry then Some (begin_worker now w) else None
      | Datagram_seen steady system n latency \<Rightarrow>
          if thread w = In_run \<and> snap_kind (snap w) = Kind_tunnel
          then Some (recordDatagram steady system n latency w) else None
      | Connection_made \<Rightarrow>
          if thread w = In_run \<and> snap_kind (snap w) = Kind_tunnel \<and> is_client (wconfig w)
          then Some (transition TS_Connected (''Connected to '' @ server_text (wconfig w)) w) else None
      | Run_returned \<Rightarrow>
          if thread w = In_run then Some ((transition TS_Stopped (finished_detail w) w)\<lparr>thread := Exiting\<rparr>)
          else None
      | Run_threw message \<Rightarrow>
          if thread w = In_run then Some ((transition TS_Failed message w)\<lparr>thread := Exiting\<rparr>) else None
      | End_thread \<Rightarrow> if thread w = Exiting then Some (w\<lparr>thread := Exited\<rparr>) else None
      | Publish_pending now \<Rightarrow> None)"

definition thread_step :: "thread_action \<Rightarrow> nat \<Rightarrow> runtime \<Rightarrow> runtime option" where
  "thread_step act i rt =
     (if length (heap rt) \<le> i then None
      else case act of
        Publish_pending now \<Rightarrow>
          (case pending (heap rt ! i) of
             None \<Rightarrow> None
           | Some ev \<Rightarrow> Some (publish now ev (update_worker i (\<lambda>w. w\<lparr>pending := None\<rparr>) rt)))
      | _ \<Rightarrow> map_option (\<lambda>w. update_worker i (\<lambda>_. w) rt) (worker_action act (heap rt ! i)))"

section \<open>Callers\<close>

text \<open>
  Where a call of the interface is: nothing in progress, then the sections of \<open>start\<close>, of \<open>stop\<close> (alone or
  as the first part of \<open>restart\<close>), of \<open>joinAndRemove\<close> and of the destructor. \<open>Thrown\<close> is a call that ended
  with an exception.
\<close>

datatype caller =
    Idle
  | Lookup runtime_kind string
  | Release runtime_kind string config
  | Join_released nat runtime_kind string config
  | Insert runtime_kind string config
  | Announce nat
  | Spawn nat
  | Request_stop bool runtime_kind string
  | Announce_stop tunnel_snapshot bool runtime_kind string
  | Find_worker runtime_kind string
  | Join_worker nat runtime_kind string
  | Remove_worker nat runtime_kind string
  | Destroy
  | Destroy_join "nat list"
  | Thrown string

text \<open>\<open>new_worker\<close>: the object \<open>startTunnel\<close> and \<open>startProducerWorker\<close> make.\<close>

definition new_worker :: "runtime_kind \<Rightarrow> string \<Rightarrow> config \<Rightarrow> worker" where
  "new_worker kind al cfg =
     (let connecting = (kind = Kind_tunnel \<and> is_client cfg)
      in \<lparr>wkey = workerKey kind al,
          snap = \<lparr>snap_alias = al, snap_kind = kind,
            snap_state = (if connecting then TS_Connecting else TS_Starting),
            snap_metrics = no_metrics, snap_recent = [],
            snap_detail = (if connecting then ''Connecting to '' @ server_text cfg else ''Starting'')\<rparr>,
          wconfig = cfg, thread = No_thread, joined = False, stop_requested = False, pending = None,
          started = 0, latencies = []\<rparr>)"

text \<open>\<open>releaseFinishedSlot\<close>, its section: the worker to join, if there is one.\<close>

definition release_section :: "runtime_kind \<Rightarrow> string \<Rightarrow> runtime \<Rightarrow> string + nat option \<times> runtime" where
  "release_section kind al rt =
     (case map_of (table rt) (workerKey kind al) of
        None \<Rightarrow> Inr (None, rt)
      | Some i \<Rightarrow>
          if active_state (snap_state (snap (heap rt ! i))) then
            Inl (''runtime '' @ quoted al @ '' is already active'')
          else Inr (Some i, rt\<lparr>table := erase (workerKey kind al) (table rt)\<rparr>))"

definition insert_section :: "runtime_kind \<Rightarrow> string \<Rightarrow> config \<Rightarrow> runtime \<Rightarrow> nat \<times> runtime" where
  "insert_section kind al cfg rt =
     (length (heap rt),
      rt\<lparr>heap := heap rt @ [new_worker kind al cfg],
         table := emplace (workerKey kind al) (length (heap rt)) (table rt)\<rparr>)"

text \<open>
  \<open>request_stop\<close> of a \<open>std::jthread\<close>: there is nothing to stop before the thread has been created, and
  creating it makes a fresh token.
\<close>

definition request_stop :: "worker \<Rightarrow> worker" where
  "request_stop w = (if thread w = No_thread then w else w\<lparr>stop_requested := True\<rparr>)"

text \<open>\<open>requestStop\<close>, its section: the snapshot to publish, unless the worker has finished.\<close>

definition stop_section :: "runtime_kind \<Rightarrow> string \<Rightarrow> runtime \<Rightarrow> string + tunnel_snapshot option \<times> runtime" where
  "stop_section kind al rt =
     (case map_of (table rt) (workerKey kind al) of
        None \<Rightarrow> Inl (''runtime '' @ quoted al @ '' is not managed'')
      | Some i \<Rightarrow>
          if terminal (snap_state (snap (heap rt ! i))) then Inr (None, rt)
          else
            (let rt = update_worker i (\<lambda>w. request_stop (set_state TS_Stopping ''Stopping'' w)) rt
             in Inr (Some (snap (heap rt ! i)), rt)))"

definition after_stop :: "bool \<Rightarrow> runtime_kind \<Rightarrow> string \<Rightarrow> caller" where
  "after_stop restarting kind al = (if restarting then Find_worker kind al else Idle)"

text \<open>
  \<open>thread.join()\<close> if it is joinable; \<open>None\<close> while it would block. (Two callers that join one thread at the same
  time are undefined behaviour in C++; here the second finds it joined.)
\<close>

definition join_step :: "nat \<Rightarrow> runtime \<Rightarrow> runtime option" where
  "join_step i rt =
     (let w = heap rt ! i
      in if thread w = No_thread \<or> joined w then Some rt
         else if thread w = Exited then Some (update_worker i (\<lambda>w. w\<lparr>joined := True\<rparr>) rt)
         else None)"

text \<open>The two sections of \<open>joinAndRemove\<close>, before and after the join, and the beginning of the destructor.\<close>

definition find_section :: "runtime_kind \<Rightarrow> string \<Rightarrow> runtime \<Rightarrow> string + nat \<times> runtime" where [simp]:
  "find_section kind al rt =
     (case map_of (table rt) (workerKey kind al) of
        None \<Rightarrow> Inl (''runtime '' @ quoted al @ '' is not managed'')
      | Some i \<Rightarrow> Inr (i, update_worker i request_stop rt))"

definition remove_section :: "nat \<Rightarrow> runtime_kind \<Rightarrow> string \<Rightarrow> runtime \<Rightarrow> runtime" where [simp]:
  "remove_section i kind al rt =
     (if map_of (table rt) (workerKey kind al) = Some i
      then rt\<lparr>table := erase (workerKey kind al) (table rt)\<rparr> else rt)"

definition destroy_section :: "runtime \<Rightarrow> nat list \<times> runtime" where [simp]:
  "destroy_section rt =
     (map snd (table rt), fold (\<lambda>i. update_worker i request_stop) (map snd (table rt)) rt)"

text \<open>
  One step of a call: \<open>spawned\<close> tells whether the thread can be created, \<open>now\<close> is the clock of a
  publication. \<open>None\<close>: the call is blocked or there is none.
\<close>

fun caller_step ::
  "named_tunnel list \<Rightarrow> bool \<Rightarrow> nat \<Rightarrow> caller \<Rightarrow> runtime \<Rightarrow> (caller \<times> runtime) option" where
  "caller_step ts spawned now Idle rt = None"
| "caller_step ts spawned now (Thrown message) rt = None"
| "caller_step ts spawned now (Lookup kind al) rt =
     (case findTunnel ts al of
        Inl message \<Rightarrow> Some (Thrown message, rt)
      | Inr t \<Rightarrow>
          if kind = Kind_producer \<and> \<not> is_client (tunnel_config t) then
            Some (Thrown (''producer alias '' @ quoted al @ '' must name a client tunnel''), rt)
          else Some (Release kind al (tunnel_config t), rt))"
| "caller_step ts spawned now (Release kind al cfg) rt =
     (case release_section kind al rt of
        Inl message \<Rightarrow> Some (Thrown message, rt)
      | Inr (None, rt') \<Rightarrow> Some (Insert kind al cfg, rt')
      | Inr (Some i, rt') \<Rightarrow> Some (Join_released i kind al cfg, rt'))"
| "caller_step ts spawned now (Join_released i kind al cfg) rt =
     map_option (Pair (Insert kind al cfg)) (join_step i rt)"
| "caller_step ts spawned now (Insert kind al cfg) rt =
     (let (i, rt') = insert_section kind al cfg rt in Some (Announce i, rt'))"
| "caller_step ts spawned now (Announce i) rt =
     Some (Spawn i, publish now (snap (heap rt ! i), Severity_info) rt)"
| "caller_step ts spawned now (Spawn i) rt =
     (if spawned then Some (Idle, update_worker i (\<lambda>w. w\<lparr>thread := At_entry\<rparr>) rt)
      else Some (Thrown ''thread'', rt\<lparr>table := erase (wkey (heap rt ! i)) (table rt)\<rparr>))"
| "caller_step ts spawned now (Request_stop restarting kind al) rt =
     (case stop_section kind al rt of
        Inl message \<Rightarrow> Some (Thrown message, rt)
      | Inr (None, rt') \<Rightarrow> Some (after_stop restarting kind al, rt')
      | Inr (Some s, rt') \<Rightarrow> Some (Announce_stop s restarting kind al, rt'))"
| "caller_step ts spawned now (Announce_stop s restarting kind al) rt =
     Some (after_stop restarting kind al, publish now (s, Severity_info) rt)"
| "caller_step ts spawned now (Find_worker kind al) rt =
     (case find_section kind al rt of
        Inl message \<Rightarrow> Some (Thrown message, rt)
      | Inr (i, rt') \<Rightarrow> Some (Join_worker i kind al, rt'))"
| "caller_step ts spawned now (Join_worker i kind al) rt =
     map_option (Pair (Remove_worker i kind al)) (join_step i rt)"
| "caller_step ts spawned now (Remove_worker i kind al) rt =
     Some (Lookup kind al, remove_section i kind al rt)"
| "caller_step ts spawned now Destroy rt =
     (let (is, rt') = destroy_section rt in Some (Destroy_join is, rt'))"
| "caller_step ts spawned now (Destroy_join []) rt = Some (Idle, rt)"
| "caller_step ts spawned now (Destroy_join (i # is)) rt = map_option (Pair (Destroy_join is)) (join_step i rt)"

text \<open>The calls of the interface, as the first step of each.\<close>

fun call_begin :: "caller \<Rightarrow> bool" where
  "call_begin (Lookup kind al) = True"
| "call_begin (Request_stop restarting kind al) = True"
| "call_begin Destroy = True"
| "call_begin _ = False"

text \<open>
  \<open>snapshots\<close>: a list of the snapshots of the tracked workers, ordered by alias. The order in which a tunnel
  and a producer of the same alias come is that of a hash table and of an unstable sort, so it is left open.
\<close>

definition snapshots :: "runtime \<Rightarrow> tunnel_snapshot list \<Rightarrow> bool" where
  "snapshots rt ss \<longleftrightarrow> sorted (map snap_alias ss) \<and> mset ss = mset (map (\<lambda>(key, i). snap (heap rt ! i)) (table rt))"

section \<open>The system\<close>

text \<open>
  The runtime with the calls in progress, one per caller. In each step a caller that has finished begins a
  call, a call moves, or a thread moves. The catalogue may be another one at each step.
\<close>

inductive system_step :: "runtime \<times> caller list \<Rightarrow> runtime \<times> caller list \<Rightarrow> bool" where
  begin_call: "c < length cs \<Longrightarrow> cs ! c = Idle \<or> (\<exists>message. cs ! c = Thrown message) \<Longrightarrow> call_begin call \<Longrightarrow>
    system_step (rt, cs) (rt, cs[c := call])"
| move_call: "c < length cs \<Longrightarrow> caller_step ts spawned now (cs ! c) rt = Some (call, rt') \<Longrightarrow>
    system_step (rt, cs) (rt', cs[c := call])"
| move_thread: "thread_step act i rt = Some rt' \<Longrightarrow> system_step (rt, cs) (rt', cs)"

inductive_cases system_stepE: "system_step (rt, cs) s'"

inductive reachable :: "nat \<Rightarrow> runtime \<times> caller list \<Rightarrow> bool" for n where
  initial: "reachable n (initial_runtime, replicate n Idle)"
| further: "reachable n s \<Longrightarrow> system_step s s' \<Longrightarrow> reachable n s'"

end
