(* ===== verification/Runtime_Invariants.thy ===== *)
theory Runtime_Invariants
  imports Managed_Runtime
begin

text \<open>
  What holds in every state of the supervisor of \<open>Managed_Runtime\<close>, however callers and threads interleave:
  invariants of the workers and the table, and, for one caller at a time, that no running thread is lost.
\<close>

section \<open>Updates\<close>

lemma update_worker_simps [simp]:
  "length (heap (update_worker i f rt)) = length (heap rt)"
  "table (update_worker i f rt) = table rt" "sink (update_worker i f rt) = sink rt"
  "j < length (heap rt) \<Longrightarrow> heap (update_worker i f rt) ! j = (if j = i then f (heap rt ! i) else heap rt ! j)"
  by (auto simp: update_worker_def nth_list_update)

lemma publish_simps [simp]:
  "heap (publish now ev rt) = heap rt" "table (publish now ev rt) = table rt"
  by (simp_all add: publish_def)

section \<open>Workers\<close>

definition finishing :: "worker \<Rightarrow> bool" where
  "finishing w \<longleftrightarrow> thread w = Exiting \<or> thread w = Exited"

definition thread_running :: "worker \<Rightarrow> bool" where
  "thread_running w \<longleftrightarrow> thread w = At_entry \<or> thread w = In_run \<or> thread w = Exiting"

text \<open>
  A worker is in a terminal state exactly when its thread has made its last transition; only an ended
  thread has been joined; the histories are bounded; the key is that of kind and alias.
\<close>

definition worker_ok :: "worker \<Rightarrow> bool" where
  "worker_ok w \<longleftrightarrow>
     length (snap_recent (snap w)) \<le> 10 \<and> length (latencies w) \<le> 1024 \<and>
     wkey w = workerKey (snap_kind (snap w)) (snap_alias (snap w)) \<and>
     (terminal (snap_state (snap w)) \<longleftrightarrow> finishing w) \<and>
     (joined w \<longrightarrow> thread w = Exited) \<and>
     (thread w = Exited \<or> thread w = At_entry \<or> thread w = No_thread \<longrightarrow> pending w = None)"

lemmas worker_defs = worker_ok_def finishing_def terminal_def set_state_def transition_def Let_def

lemma request_stop_simps [simp]:
  "wkey (request_stop w) = wkey w" "snap (request_stop w) = snap w" "thread (request_stop w) = thread w"
  "joined (request_stop w) = joined w" "pending (request_stop w) = pending w"
  "latencies (request_stop w) = latencies w"
  by (simp_all add: request_stop_def)

lemma worker_ok_requested: "worker_ok w \<Longrightarrow> worker_ok (request_stop w)"
  by (simp add: worker_ok_def finishing_def)

lemma worker_ok_joined: "worker_ok w \<Longrightarrow> thread w = Exited \<Longrightarrow> worker_ok (w\<lparr>joined := True\<rparr>)"
  by (simp add: worker_ok_def finishing_def)

lemma worker_ok_stopping:
  "worker_ok w \<Longrightarrow> \<not> terminal (snap_state (snap w)) \<Longrightarrow>
   worker_ok (request_stop (set_state TS_Stopping detail w))"
  by (auto simp: worker_defs)

lemma worker_ok_published: "worker_ok w \<Longrightarrow> worker_ok (w\<lparr>pending := None\<rparr>)"
  by (simp add: worker_ok_def finishing_def)

lemma worker_ok_new: "worker_ok (new_worker kind al cfg)"
  by (simp add: new_worker_def worker_defs)

lemma worker_ok_spawned: "worker_ok w \<Longrightarrow> thread w = No_thread \<Longrightarrow> worker_ok (w\<lparr>thread := At_entry\<rparr>)"
  by (auto simp: worker_defs)

lemma recordDatagram_simps [simp]:
  "wkey (recordDatagram st sy n l w) = wkey w" "thread (recordDatagram st sy n l w) = thread w"
  "joined (recordDatagram st sy n l w) = joined w" "pending (recordDatagram st sy n l w) = pending w"
  "snap_state (snap (recordDatagram st sy n l w)) = snap_state (snap w)"
  "snap_kind (snap (recordDatagram st sy n l w)) = snap_kind (snap w)"
  "snap_alias (snap (recordDatagram st sy n l w)) = snap_alias (snap w)"
  "stop_requested (recordDatagram st sy n l w) = stop_requested w"
  by (simp_all add: recordDatagram_def Let_def split: option.split)

lemma worker_ok_recorded: "worker_ok w \<Longrightarrow> worker_ok (recordDatagram st sy n l w)"
  by (auto simp: worker_ok_def finishing_def recordDatagram_def Let_def push_bounded_length split: option.split)

lemma worker_ok_action:
  assumes "worker_ok w" and "worker_action act w = Some w'"
  shows "worker_ok w'"
proof (cases act)
  case (Datagram_seen st sy n l)
  then show ?thesis
    using assms by (auto simp: worker_action_def worker_ok_recorded split: if_splits)
next
  case (Begin now)
  with assms show ?thesis
    by (cases "snap_kind (snap w)")
      (auto simp: worker_action_def begin_worker_def worker_defs split: if_splits)
next
  case End_thread
  then have "pending w = None"
    using assms(2) by (cases "pending w") (auto simp: worker_action_def split: if_splits)
  with End_thread assms show ?thesis
    by (auto simp: worker_action_def worker_defs split: if_splits)
qed (use assms in \<open>auto simp: worker_action_def worker_defs split: if_splits\<close>)

lemma action_keeps:
  assumes "worker_action act w = Some w'"
  shows "wkey w' = wkey w \<and> thread w \<noteq> No_thread \<and>
    (thread_running w' \<longrightarrow> thread_running w) \<and> thread w' \<noteq> No_thread"
  using assms
  by (cases act)
    (auto simp: worker_action_def begin_worker_def transition_def set_state_def Let_def thread_running_def
      split: if_splits runtime_kind.splits)

lemma action_finished:
  assumes "worker_ok w" and "terminal (snap_state (snap w))" and "worker_action act w = Some w'"
  shows "snap w' = snap w \<and> latencies w' = latencies w"
  using assms by (cases act) (auto simp: worker_action_def worker_ok_def finishing_def split: if_splits)

section \<open>States\<close>

text \<open>The workers whose thread a call is about to create.\<close>

fun making :: "caller \<Rightarrow> nat option" where
  "making (Announce i) = Some i"
| "making (Spawn i) = Some i"
| "making _ = None"

definition heap_ok :: "runtime \<Rightarrow> bool" where
  "heap_ok rt \<longleftrightarrow> (\<forall>i < length (heap rt). worker_ok (heap rt ! i))"

definition table_ok :: "runtime \<Rightarrow> bool" where
  "table_ok rt \<longleftrightarrow> ascending (table rt) \<and>
     (\<forall>key i. map_of (table rt) key = Some i \<longrightarrow> i < length (heap rt) \<and> wkey (heap rt ! i) = key)"

definition callers_ok :: "runtime \<Rightarrow> caller list \<Rightarrow> bool" where
  "callers_ok rt cs \<longleftrightarrow>
     (\<forall>c < length cs. \<forall>i. making (cs ! c) = Some i \<longrightarrow> i < length (heap rt) \<and> thread (heap rt ! i) = No_thread) \<and>
     (\<forall>c < length cs. \<forall>d < length cs. \<forall>i. making (cs ! c) = Some i \<and> making (cs ! d) = Some i \<longrightarrow> c = d)"

definition system_ok :: "runtime \<times> caller list \<Rightarrow> bool" where
  "system_ok s \<longleftrightarrow> heap_ok (fst s) \<and> table_ok (fst s) \<and> callers_ok (fst s) (snd s)"

lemma heap_ok_update:
  assumes "heap_ok rt" and "i < length (heap rt) \<Longrightarrow> worker_ok (heap rt ! i) \<Longrightarrow> worker_ok (f (heap rt ! i))"
  shows "heap_ok (update_worker i f rt)"
  using assms by (auto simp: heap_ok_def)

lemma table_ok_update:
  assumes "table_ok rt" and "\<And>w. wkey (f w) = wkey w"
  shows "table_ok (update_worker i f rt)"
  using assms by (auto simp: table_ok_def)

lemma table_ok_erase: "table_ok rt \<Longrightarrow> table_ok (rt\<lparr>table := erase key (table rt)\<rparr>)"
  by (auto simp: table_ok_def ascending_erase map_of_erase)

lemma requests_keep:
  "heap_ok rt \<Longrightarrow> heap_ok (fold (\<lambda>i. update_worker i request_stop) is rt)"
  "table_ok rt \<Longrightarrow> table_ok (fold (\<lambda>i. update_worker i request_stop) is rt)"
  "length (heap (fold (\<lambda>i. update_worker i request_stop) is rt)) = length (heap rt)"
  "table (fold (\<lambda>i. update_worker i request_stop) is rt) = table rt"
  "j < length (heap rt) \<Longrightarrow>
   thread (heap (fold (\<lambda>i. update_worker i request_stop) is rt) ! j) = thread (heap rt ! j)"
  "j < length (heap rt) \<Longrightarrow>
   wkey (heap (fold (\<lambda>i. update_worker i request_stop) is rt) ! j) = wkey (heap rt ! j)"
  "j < length (heap rt) \<Longrightarrow>
   snap (heap (fold (\<lambda>i. update_worker i request_stop) is rt) ! j) = snap (heap rt ! j)"
  by (induction "is" arbitrary: rt) (simp_all add: heap_ok_update worker_ok_requested table_ok_update)

text \<open>
  A step of a call: the workers and the table stay well-formed, and threads are only created by the call
  that made the worker.
\<close>

definition call_frame :: "caller \<Rightarrow> runtime \<Rightarrow> runtime \<Rightarrow> bool" where
  "call_frame c rt rt' \<longleftrightarrow>
     length (heap rt) \<le> length (heap rt') \<and>
     (\<forall>i < length (heap rt). wkey (heap rt' ! i) = wkey (heap rt ! i) \<and>
        (thread (heap rt' ! i) = thread (heap rt ! i) \<or> (c = Spawn i \<and> thread (heap rt' ! i) = At_entry)) \<and>
        (terminal (snap_state (snap (heap rt ! i))) \<longrightarrow> snap (heap rt' ! i) = snap (heap rt ! i)))"

lemma join_step_ok:
  assumes "heap_ok rt" and "table_ok rt" and "join_step i rt = Some rt'"
  shows "heap_ok rt' \<and> table_ok rt' \<and> call_frame c rt rt' \<and> table rt' = table rt \<and>
    length (heap rt') = length (heap rt)"
  using assms
  by (auto simp: join_step_def Let_def call_frame_def worker_ok_joined table_ok_update
      intro!: heap_ok_update split: if_splits)

definition made_ok :: "caller \<Rightarrow> caller \<Rightarrow> runtime \<Rightarrow> runtime \<Rightarrow> bool" where
  "made_ok c c' rt rt' \<longleftrightarrow>
     making c' = None \<or> (making c' = making c \<and> (\<forall>j. c \<noteq> Spawn j)) \<or>
     (making c' = Some (length (heap rt)) \<and> length (heap rt') = Suc (length (heap rt)) \<and>
      thread (heap rt' ! length (heap rt)) = No_thread)"

lemma call_frame_same: "heap rt' = heap rt \<Longrightarrow> call_frame c rt rt'"
  by (simp add: call_frame_def)

lemma heap_ok_same: "heap rt' = heap rt \<Longrightarrow> heap_ok rt \<Longrightarrow> heap_ok rt'"
  by (simp add: heap_ok_def)

lemma table_ok_same: "heap rt' = heap rt \<Longrightarrow> table rt' = table rt \<Longrightarrow> table_ok rt \<Longrightarrow> table_ok rt'"
  by (simp add: table_ok_def)

lemma release_section_ok:
  assumes "release_section kind al rt = Inr (r, rt')" and "table_ok rt"
  shows "heap rt' = heap rt \<and> table_ok rt'"
  using assms by (auto simp: release_section_def table_ok_erase split: option.splits if_splits)

lemma insert_section_ok:
  assumes "heap_ok rt" and "table_ok rt" and "insert_section kind al cfg rt = (i, rt')"
  shows "heap_ok rt' \<and> table_ok rt' \<and> call_frame c rt rt' \<and> i = length (heap rt) \<and>
    length (heap rt') = Suc (length (heap rt)) \<and> thread (heap rt' ! length (heap rt)) = No_thread"
proof -
  let ?w = "new_worker kind al cfg"
  have rt': "rt' = rt\<lparr>heap := heap rt @ [?w], table := emplace (workerKey kind al) (length (heap rt)) (table rt)\<rparr>"
    using assms(3) by (auto simp: insert_section_def)
  have i: "i = length (heap rt)"
    using assms(3) by (auto simp: insert_section_def)
  have w: "thread ?w = No_thread" "wkey ?w = workerKey kind al"
    by (simp_all add: new_worker_def Let_def)
  have "heap_ok rt'"
    using assms(1) worker_ok_new [of kind al cfg] by (auto simp: heap_ok_def rt' nth_append less_Suc_eq)
  moreover have "table_ok rt'"
    using assms(2) w(2) by (auto simp: table_ok_def rt' ascending_emplace map_of_emplace nth_append less_Suc_eq
        split: if_splits)
  moreover have "call_frame c rt rt'"
    by (simp add: call_frame_def rt' nth_append)
  ultimately show ?thesis
    using w(1) i by (simp add: rt')
qed

lemma stop_section_ok:
  assumes "heap_ok rt" and "table_ok rt" and "stop_section kind al rt = Inr (r, rt')"
  shows "heap_ok rt' \<and> table_ok rt' \<and> call_frame c rt rt'"
proof (cases "map_of (table rt) (workerKey kind al)")
  case (Some i)
  show ?thesis
  proof (cases "terminal (snap_state (snap (heap rt ! i)))")
    case True
    with Some assms show ?thesis
      by (simp add: stop_section_def call_frame_same)
  next
    case False
    let ?f = "\<lambda>w. request_stop (set_state TS_Stopping ''Stopping'' w)"
    have rt': "rt' = update_worker i ?f rt"
      using Some False assms(3) by (simp add: stop_section_def Let_def)
    have "call_frame c rt rt'"
      using False by (auto simp: call_frame_def rt' set_state_def)
    moreover have "table_ok rt'"
      unfolding rt' by (rule table_ok_update [OF assms(2)]) (simp add: set_state_def)
    ultimately show ?thesis
      unfolding rt' using False by (auto intro!: heap_ok_update [OF assms(1)] worker_ok_stopping)
  qed
qed (use assms in \<open>simp add: stop_section_def\<close>)

lemma requested_frame: "call_frame c rt (update_worker i request_stop rt)"
  by (simp add: call_frame_def)

lemma spawn_ok:
  assumes "heap_ok rt" and "table_ok rt" and "thread (heap rt ! i) = No_thread"
  shows "heap_ok (update_worker i (\<lambda>w. w\<lparr>thread := At_entry\<rparr>) rt) \<and>
    table_ok (update_worker i (\<lambda>w. w\<lparr>thread := At_entry\<rparr>) rt) \<and>
    call_frame (Spawn i) rt (update_worker i (\<lambda>w. w\<lparr>thread := At_entry\<rparr>) rt)"
  using assms
  by (auto simp: call_frame_def intro!: heap_ok_update table_ok_update worker_ok_spawned)

lemma caller_step_ok:
  assumes "heap_ok rt" and "table_ok rt" and "caller_step ts sp now c rt = Some (c', rt')"
    and "\<And>i. making c = Some i \<Longrightarrow> i < length (heap rt) \<and> thread (heap rt ! i) = No_thread"
  shows "heap_ok rt' \<and> table_ok rt' \<and> call_frame c rt rt' \<and> made_ok c c' rt rt'"
proof (cases c)
  case (Lookup kind al)
  with assms show ?thesis
    by (auto simp: made_ok_def call_frame_same split: sum.splits if_splits)
next
  case (Release kind al cfg)
  then show ?thesis
    using assms release_section_ok [of kind al rt]
    by (auto simp: made_ok_def call_frame_same heap_ok_same split: sum.splits option.splits)
next
  case (Join_released i kind al cfg)
  with assms show ?thesis
    using join_step_ok [OF assms(1,2), of i] by (auto simp: made_ok_def)
next
  case (Insert kind al cfg)
  with assms show ?thesis
    using insert_section_ok [OF assms(1,2), of kind al cfg] by (auto simp: made_ok_def split: prod.splits)
next
  case (Announce i)
  with assms show ?thesis
    by (auto simp: made_ok_def call_frame_same intro: heap_ok_same table_ok_same)
next
  case (Spawn i)
  with assms show ?thesis
    using spawn_ok [OF assms(1,2), of i]
    by (auto simp: made_ok_def call_frame_same table_ok_erase intro: heap_ok_same split: if_splits)
next
  case (Request_stop restarting kind al)
  show ?thesis
  proof (cases "stop_section kind al rt")
    case (Inl message)
    with Request_stop assms show ?thesis
      by (auto simp: made_ok_def call_frame_same)
  next
    case (Inr r)
    obtain s rt1 where r: "r = (s, rt1)"
      by (cases r)
    from stop_section_ok [OF assms(1,2) Inr [unfolded r], of c] show ?thesis
      using Request_stop Inr r assms(3)
      by (cases s; cases restarting) (auto simp: made_ok_def after_stop_def)
  qed
next
  case (Announce_stop s restarting kind al)
  with assms show ?thesis
    by (cases restarting) (auto simp: made_ok_def call_frame_same after_stop_def intro: heap_ok_same table_ok_same)
next
  case (Find_worker kind al)
  with assms show ?thesis
    by (auto simp: made_ok_def call_frame_same requested_frame split: option.splits
        intro!: heap_ok_update worker_ok_requested table_ok_update)
next
  case (Join_worker i kind al)
  with assms show ?thesis
    using join_step_ok [OF assms(1,2), of i] by (auto simp: made_ok_def)
next
  case (Remove_worker i kind al)
  with assms show ?thesis
    by (auto simp: made_ok_def call_frame_same table_ok_erase intro: heap_ok_same split: if_splits)
next
  case Destroy
  with assms show ?thesis
    by (auto simp: made_ok_def call_frame_def requests_keep)
next
  case (Destroy_join "is")
  with assms show ?thesis
    using join_step_ok [OF assms(1,2)] by (cases "is") (auto simp: made_ok_def call_frame_same)
qed (use assms in simp_all)

text \<open>A step of a thread changes its own worker only.\<close>

definition thread_frame :: "runtime \<Rightarrow> runtime \<Rightarrow> bool" where
  "thread_frame rt rt' \<longleftrightarrow>
     length (heap rt') = length (heap rt) \<and> table rt' = table rt \<and>
     (\<forall>i < length (heap rt). wkey (heap rt' ! i) = wkey (heap rt ! i) \<and>
        (thread (heap rt' ! i) = No_thread \<longleftrightarrow> thread (heap rt ! i) = No_thread) \<and>
        (thread_running (heap rt' ! i) \<longrightarrow> thread_running (heap rt ! i)) \<and>
        (terminal (snap_state (snap (heap rt ! i))) \<longrightarrow> snap (heap rt' ! i) = snap (heap rt ! i)))"

lemma publishing_step:
  assumes "thread_step (Publish_pending now) i rt = Some rt'"
  obtains ev where "rt' = publish now ev (update_worker i (\<lambda>w. w\<lparr>pending := None\<rparr>) rt)" "i < length (heap rt)"
  using assms by (auto simp: thread_step_def split: if_splits option.splits)

lemma acting_step:
  assumes "thread_step act i rt = Some rt'" and "\<forall>now. act \<noteq> Publish_pending now"
  obtains w where "worker_action act (heap rt ! i) = Some w" "rt' = update_worker i (\<lambda>_. w) rt" "i < length (heap rt)"
  using assms by (cases act) (auto simp: thread_step_def split: if_splits)

lemma table_ok_frame:
  assumes "table_ok rt" and "table rt' = table rt" and "length (heap rt') = length (heap rt)"
    and "\<forall>i < length (heap rt). wkey (heap rt' ! i) = wkey (heap rt ! i)"
  shows "table_ok rt'"
  using assms by (auto simp: table_ok_def)

lemma thread_step_ok:
  assumes "heap_ok rt" and "table_ok rt" and "thread_step act i rt = Some rt'"
  shows "heap_ok rt' \<and> table_ok rt' \<and> thread_frame rt rt'"
proof (cases "\<exists>now. act = Publish_pending now")
  case True
  then obtain now where act: "act = Publish_pending now" ..
  obtain ev where rt': "rt' = publish now ev (update_worker i (\<lambda>w. w\<lparr>pending := None\<rparr>) rt)"
    using publishing_step [OF assms(3) [unfolded act]] by blast
  have "heap_ok (update_worker i (\<lambda>w. w\<lparr>pending := None\<rparr>) rt)"
    by (rule heap_ok_update [OF assms(1) worker_ok_published])
  then have "heap_ok rt'"
    by (simp add: rt' heap_ok_def)
  moreover have "thread_frame rt rt'"
    by (simp add: rt' thread_frame_def thread_running_def)
  ultimately show ?thesis
    using table_ok_frame [OF assms(2), of rt'] by (auto simp: thread_frame_def)
next
  case False
  then obtain w where w: "worker_action act (heap rt ! i) = Some w"
    and rt': "rt' = update_worker i (\<lambda>_. w) rt" and i: "i < length (heap rt)"
    using acting_step [OF assms(3)] by blast
  have ok: "worker_ok (heap rt ! i)"
    using assms(1) i by (simp add: heap_ok_def)
  have "heap_ok rt'"
    unfolding rt' by (rule heap_ok_update [OF assms(1) worker_ok_action [OF _ w]])
  moreover have "thread_frame rt rt'"
    using action_keeps [OF w] action_finished [OF ok _ w] by (auto simp: rt' thread_frame_def)
  ultimately show ?thesis
    using table_ok_frame [OF assms(2), of rt'] by (auto simp: thread_frame_def)
qed

section \<open>The invariant of the system\<close>

lemma callers_ok_thread: "callers_ok rt cs \<Longrightarrow> thread_frame rt rt' \<Longrightarrow> callers_ok rt' cs"
  by (simp add: callers_ok_def thread_frame_def)

lemma callers_ok_begin:
  assumes "callers_ok rt cs" and "making call = None"
  shows "callers_ok rt (cs[c := call])"
proof -
  have "making (cs[c := call] ! d) = Some i \<Longrightarrow> d < length cs \<Longrightarrow> making (cs ! d) = Some i" for d i
    using assms(2) by (cases "d = c") auto
  then show ?thesis
    using assms(1) unfolding callers_ok_def length_list_update by blast
qed

lemma callers_ok_move:
  assumes ok: "callers_ok rt cs" and c: "c < length cs" and frame: "call_frame (cs ! c) rt rt'"
    and made: "made_ok (cs ! c) call rt rt'"
  shows "callers_ok rt' (cs[c := call])"
proof -
  have other: "i < length (heap rt) \<and> i < length (heap rt') \<and> thread (heap rt' ! i) = No_thread"
    if "d < length cs" "d \<noteq> c" "making (cs ! d) = Some i" for d i
  proof -
    have i: "i < length (heap rt)" "thread (heap rt ! i) = No_thread"
      using ok that(1,3) by (auto simp: callers_ok_def)
    have "cs ! c \<noteq> Spawn i"
      using ok c that by (auto simp: callers_ok_def)
    then show ?thesis
      using frame i by (auto simp: call_frame_def)
  qed
  have own: "(i = length (heap rt) \<or> making (cs ! c) = Some i) \<and>
      i < length (heap rt') \<and> thread (heap rt' ! i) = No_thread" if call: "making call = Some i" for i
  proof -
    consider (kept) "making (cs ! c) = Some i" "\<forall>j. cs ! c \<noteq> Spawn j"
      | (fresh) "i = length (heap rt)" "length (heap rt') = Suc (length (heap rt))"
          "thread (heap rt' ! length (heap rt)) = No_thread"
      using made call by (auto simp: made_ok_def)
    then show ?thesis
    proof cases
      case kept
      then have "i < length (heap rt)" "thread (heap rt ! i) = No_thread"
        using ok c by (auto simp: callers_ok_def)
      with kept frame show ?thesis
        by (auto simp: call_frame_def)
    qed simp
  qed
  have one: "i < length (heap rt') \<and> thread (heap rt' ! i) = No_thread"
    if "d < length cs" "making (cs[c := call] ! d) = Some i" for d i
    using that other [of d i] own [of i] c by (cases "d = c") auto
  have two: "d = e" if d: "d < length cs" and e: "e < length cs"
    and eq: "making (cs[c := call] ! d) = Some i \<and> making (cs[c := call] ! e) = Some i" for d e i
  proof -
    consider "d = c" "e = c" | "d \<noteq> c" "e \<noteq> c" | "d = c" "e \<noteq> c" | "d \<noteq> c" "e = c" by blast
    then show ?thesis
    proof cases
      case 2
      then show ?thesis using ok d e eq by (auto simp: callers_ok_def)
    next
      case 3
      then show ?thesis using own [of i] other [of e i] ok c d e eq by (auto simp: callers_ok_def)
    next
      case 4
      then show ?thesis using own [of i] other [of d i] ok c d e eq by (auto simp: callers_ok_def)
    qed simp
  qed
  show ?thesis
    unfolding callers_ok_def length_list_update using one two by blast
qed

lemma system_step_ok:
  assumes "system_ok s" and "system_step s s'"
  shows "system_ok s'"
  using assms(2,1)
proof cases
  case (begin_call c cs call rt)
  then show ?thesis
    using assms(1) by (cases call) (auto simp: system_ok_def intro!: callers_ok_begin)
next
  case (move_call c cs ts sp now rt call rt')
  have ok: "heap_ok rt" "table_ok rt" "callers_ok rt cs"
    using assms(1) move_call(1) by (auto simp: system_ok_def)
  have "heap_ok rt' \<and> table_ok rt' \<and> call_frame (cs ! c) rt rt' \<and> made_ok (cs ! c) call rt rt'"
    using ok(3) move_call(3) by (intro caller_step_ok [OF ok(1,2) move_call(4)]) (auto simp: callers_ok_def)
  then show ?thesis
    using callers_ok_move [OF ok(3) move_call(3)] by (simp add: system_ok_def move_call(2))
next
  case (move_thread act i rt rt' cs)
  then have "heap_ok rt" "table_ok rt" "callers_ok rt cs"
    using assms(1) by (auto simp: system_ok_def)
  with thread_step_ok [OF _ _ move_thread(3)] show ?thesis
    using callers_ok_thread by (auto simp: system_ok_def move_thread(2))
qed

lemma initial_ok: "system_ok (initial_runtime, replicate n Idle)"
  by (auto simp: system_ok_def heap_ok_def table_ok_def callers_ok_def initial_runtime_def ascending_def)

lemma reachable_ok: "reachable n s \<Longrightarrow> system_ok s"
  by (induction rule: reachable.induct) (auto simp: initial_ok intro: system_step_ok)

lemma reachable_callers: "reachable n s \<Longrightarrow> length (snd s) = n"
  by (induction rule: reachable.induct) (auto elim!: system_step.cases)

end
