(* ===== verification/Example_OS.thy ===== *)
theory Example_OS
  imports Network
begin

text \<open>
  A concrete operating system for the closed instances of the theorems: a little endian Linux host
  whose \<open>inet_pton\<close> reads four decimal numbers below 256 separated by dots, whose \<open>inet_ntop\<close> writes
  them, and which has one interface. It models no code under \<open>src/\<close>.
\<close>

text \<open>\<open>s_addr\<close> of a little endian host from the four bytes in network order, and back.\<close>

definition quad_address :: "nat \<Rightarrow> nat \<Rightarrow> nat \<Rightarrow> nat \<Rightarrow> u32" where
  "quad_address a b c d = load Little (map word_of_nat [a, b, c, d])"

definition address_quad :: "u32 \<Rightarrow> nat list" where
  "address_quad w = map unat (store Little 4 w)"

fun dotted :: "nat list \<Rightarrow> string" where
  "dotted [] = []"
| "dotted [a] = to_string a"
| "dotted (a # as) = to_string a @ ''.'' @ dotted as"

text \<open>A decimal number without superfluous zeros: the text \<open>to_string\<close> writes for its value.\<close>

definition read_octet :: "string \<Rightarrow> nat option" where
  "read_octet s =
     (let n = nat_of_digits s in if s = to_string n \<and> n < 256 then Some n else None)"

text \<open>The parts of a text between dots.\<close>

fun split_dots :: "string \<Rightarrow> string list" where
  "split_dots [] = [[]]"
| "split_dots (c # cs) =
     (if c = CHR ''.'' then [] # split_dots cs
      else (case split_dots cs of p # ps \<Rightarrow> (c # p) # ps | [] \<Rightarrow> [[c]]))"

definition example_pton :: "string \<Rightarrow> u32 option" where
  "example_pton s = (case map read_octet (split_dots s) of
       [Some a, Some b, Some c, Some d] \<Rightarrow> Some (quad_address a b c d) | _ \<Rightarrow> None)"

definition example_ntop :: "u32 \<Rightarrow> string" where
  "example_ntop w = dotted (address_quad w)"

definition example_os :: os where
  "example_os = \<lparr>os_platform = Linux, os_order = Little, os_inet_pton = example_pton,
     os_inet_addr = (\<lambda>s. case example_pton s of Some a \<Rightarrow> a | None \<Rightarrow> - 1),
     os_inet_ntop = example_ntop,
     os_getifaddrs = Some [\<lparr>ifa_name = Some ''eth0'',
       ifa_addr = Some \<lparr>family_inet = True, address = quad_address 192 168 1 20\<rparr>\<rparr>],
     os_adapters = None\<rparr>"

lemma example_os_simps [simp]:
  "os_platform example_os = Linux" "os_order example_os = Little"
  "os_inet_pton example_os = example_pton" "os_inet_ntop example_os = example_ntop"
  by (simp_all add: example_os_def)

lemma read_octet_to_string [simp]: "n < 256 \<Longrightarrow> read_octet (to_string n) = Some n"
  by (simp add: read_octet_def)

lemma split_dots_append [simp]:
  "CHR ''.'' \<notin> set s \<Longrightarrow> split_dots (s @ CHR ''.'' # rest) = s # split_dots rest"
  "CHR ''.'' \<notin> set s \<Longrightarrow> split_dots s = [s]"
  by (induction s) auto

lemma dot_not_in_to_string [simp]: "CHR ''.'' \<notin> set (to_string n)"
  using to_string_isdigit [of "CHR ''.''" n] by (auto simp: isdigit_def char_code_def)

lemma zero_not_in_to_string [simp]: "CHR 0x00 \<notin> set (to_string n)"
  using to_string_isdigit [of "CHR 0x00" n] by (auto simp: isdigit_def char_code_def)

lemma example_pton_dotted:
  "a < 256 \<Longrightarrow> b < 256 \<Longrightarrow> c < 256 \<Longrightarrow> d < 256 \<Longrightarrow>
   example_pton (dotted [a, b, c, d]) = Some (quad_address a b c d)"
  by (simp add: example_pton_def)

lemma ntop_readable_example: "ntop_readable example_os"
proof -
  have "example_pton (example_ntop w) = Some w \<and> CHR 0x00 \<notin> set (example_ntop w)" for w
  proof -
    obtain a b c d where s: "store Little 4 w = [a, b, c, d]"
      using length_store [of Little 4 w] by (auto simp: length_Suc_conv numeral_eq_Suc simp del: length_store)
    have "quad_address (unat a) (unat b) (unat c) (unat d) = load Little (store Little 4 w)"
      by (simp add: quad_address_def s)
    also have "\<dots> = w"
      by (rule load_store) simp
    finally have q: "quad_address (unat a) (unat b) (unat c) (unat d) = w" .
    have "unat x < 256" for x :: u8
      using unsigned_less [of x] by simp
    then show ?thesis
      using example_pton_dotted [of "unat a" "unat b" "unat c" "unat d"]
      by (simp add: example_ntop_def address_quad_def s q)
  qed
  then show ?thesis
    by (simp add: ntop_readable_def)
qed

end
