(* ===== verification/Example_Run.thy ===== *)
theory Example_Run
  imports Tunneler Example_OS
begin

text \<open>
  Concrete configurations and inputs for the closed instances of the theorems on the tunnel. They model
  no code under \<open>src/\<close>.
\<close>

definition example_mode :: run_mode where
  "example_mode = \<lparr>ndebug = False, compact_mode = True, verbose_mode = False\<rparr>"

definition example_client :: config where
  "example_client = default_config\<lparr>is_client := True, udp_iface_ip := ''192.168.1.20'',
     tcp_srv_ip := ''10.0.0.2'', tcp_srv_port := 9000, udp_dst_ip := ''239.1.2.3'', udp_dst_port := 5000\<rparr>"

definition example_server :: config where
  "example_server = default_config\<lparr>udp_iface_ip := ''192.168.1.21'', tcp_srv_port := 9000,
     use_clt_grp := True\<rparr>"

lemma example_mode_simps [simp]:
  "\<not> ndebug example_mode" "compact_mode example_mode" "\<not> verbose_mode example_mode"
  by (simp_all add: example_mode_def)

theorem construct_ready_witness:
  "\<exists>cfg' calls. construct_tunneler example_os (\<lambda>c. None) (example_client\<lparr>udp_iface_ip := ''eth0''\<rparr>) =
      Inr (cfg', calls) \<and> (\<exists>a. example_pton (c_str (udp_iface_ip cfg')) = Some a) \<and>
    udp_iface_reference cfg' = ''eth0''"
proof -
  let ?cfg = "example_client\<lparr>udp_iface_ip := ''eth0''\<rparr>"
  have "example_pton (c_str ''eth0'') = None"
    by (simp add: example_pton_def c_str_def split: option.split)
  then have "resolveInterfaceIpv4 example_os ''eth0'' \<noteq> None"
    by (simp add: resolveInterfaceIpv4_def) (simp add: example_os_def)
  then obtain cfg' calls where
    c: "construct_tunneler example_os (\<lambda>c. None) ?cfg = Inr (cfg', calls)"
    by (auto simp: construct_tunneler_def resolve_config_def Let_def example_client_def default_config_def
        setupClient_def createSocket_def call_or_throw_def)
  have "cfg' = ?cfg\<lparr>udp_iface_ip := udp_iface_ip cfg', udp_iface_reference := ''eth0''\<rparr>"
    using construct_ready [OF ntop_readable_example c] by (simp add: example_client_def default_config_def)
  then have "udp_iface_reference cfg' = ''eth0''"
    by (metis config.select_convs(3) config.surjective config.update_convs(3))
  with c construct_ready [OF ntop_readable_example c] show ?thesis
    by auto
qed

end
