(* ===== verification/Runtime_Properties.thy ===== *)
theory Runtime_Properties
  imports Runtime_Invariants Example_Run
begin

text \<open>
  The properties of the supervisor: the invariant in terms of the code, finality of finished workers, what
  a single caller at a time guarantees, and schedules that show what two callers, or a stop that meets a
  transition, can do. Schedules are lists of moves that compute.
\<close>

section \<open>Every interleaving\<close>

text \<open>
  C11. In every state that any number of callers and threads can reach: the snapshot of a worker shows at
  most ten datagrams, its latency window has at most 1024 entries, a worker is stopped or failed exactly
  when its thread has left \<open>run\<close>, only threads that have ended are joined, and each entry of the table is a
  worker of that kind and alias.
\<close>

theorem runtime_invariant:
  assumes "reachable n (rt, cs)"
  shows "(\<forall>w \<in> set (heap rt). length (snap_recent (snap w)) \<le> 10 \<and> length (latencies w) \<le> 1024 \<and>
      (terminal (snap_state (snap w)) \<longleftrightarrow> thread w = Exiting \<or> thread w = Exited) \<and>
      (joined w \<longrightarrow> thread w = Exited)) \<and>
    (\<forall>(key, i) \<in> set (table rt). i < length (heap rt) \<and>
      key = workerKey (snap_kind (snap (heap rt ! i))) (snap_alias (snap (heap rt ! i))))"
proof -
  have ok: "heap_ok rt" "table_ok rt"
    using reachable_ok [OF assms] by (auto simp: system_ok_def)
  have "worker_ok w" if "w \<in> set (heap rt)" for w
    using ok(1) that by (auto simp: heap_ok_def in_set_conv_nth)
  moreover have "i < length (heap rt) \<and> key = wkey (heap rt ! i)" if "(key, i) \<in> set (table rt)" for key i
  proof -
    have "map_of (table rt) key = Some i"
      using ok(2) that ascending_distinct [of "table rt"] by (auto simp: table_ok_def)
    then show ?thesis
      using ok(2) by (auto simp: table_ok_def)
  qed
  ultimately show ?thesis
    by (fastforce simp: worker_ok_def finishing_def)
qed

text \<open>
  C21. Once a worker is stopped or failed its snapshot never changes again, whatever step the system takes.
\<close>

theorem finished_is_final:
  assumes "reachable n (rt, cs)" and "system_step (rt, cs) (rt', cs')"
    and "i < length (heap rt)" and "terminal (snap_state (snap (heap rt ! i)))"
  shows "i < length (heap rt') \<and> snap (heap rt' ! i) = snap (heap rt ! i)"
proof -
  have ok: "heap_ok rt" "table_ok rt" "callers_ok rt cs"
    using reachable_ok [OF assms(1)] by (auto simp: system_ok_def)
  from assms(2) show ?thesis
  proof cases
    case (begin_call c call)
    with assms(3) show ?thesis by simp
  next
    case (move_call c ts sp now call)
    have "call_frame (cs ! c) rt rt'"
      using caller_step_ok [OF ok(1,2) move_call(3)] ok(3) move_call(2) by (auto simp: callers_ok_def)
    with assms(3,4) show ?thesis
      by (simp add: call_frame_def)
  next
    case (move_thread act j)
    have "thread_frame rt rt'"
      using thread_step_ok [OF ok(1,2) move_thread(2)] by simp
    with assms(3,4) show ?thesis
      by (simp add: thread_frame_def)
  qed
qed

section \<open>One caller at a time\<close>

definition tracked :: "runtime \<Rightarrow> nat \<Rightarrow> bool" where
  "tracked rt i \<longleftrightarrow> map_of (table rt) (wkey (heap rt ! i)) = Some i"

text \<open>What the single call in progress knows about the table.\<close>

fun call_knows :: "caller \<Rightarrow> runtime \<Rightarrow> bool" where
  "call_knows (Join_released i kind al cfg) rt \<longleftrightarrow> map_of (table rt) (workerKey kind al) = None"
| "call_knows (Insert kind al cfg) rt \<longleftrightarrow> map_of (table rt) (workerKey kind al) = None"
| "call_knows (Announce i) rt \<longleftrightarrow> tracked rt i"
| "call_knows (Spawn i) rt \<longleftrightarrow> tracked rt i"
| "call_knows (Join_worker i kind al) rt \<longleftrightarrow> map_of (table rt) (workerKey kind al) = Some i"
| "call_knows (Remove_worker i kind al) rt \<longleftrightarrow>
     map_of (table rt) (workerKey kind al) = Some i \<and> \<not> thread_running (heap rt ! i)"
| "call_knows (Destroy_join is) rt \<longleftrightarrow>
     (\<forall>i < length (heap rt). thread_running (heap rt ! i) \<longrightarrow> i \<in> set is)"
| "call_knows _ rt \<longleftrightarrow> True"

definition releases :: "caller \<Rightarrow> nat \<Rightarrow> bool" where
  "releases c i \<longleftrightarrow> (\<exists>kind al cfg. c = Join_released i kind al cfg)"

definition single_ok :: "caller \<Rightarrow> runtime \<Rightarrow> bool" where
  "single_ok c rt \<longleftrightarrow> call_knows c rt \<and>
     (\<forall>i < length (heap rt). thread_running (heap rt ! i) \<longrightarrow> tracked rt i \<or> releases c i)"

lemma single_thread:
  assumes "single_ok c rt" and "thread_frame rt rt'" and "table_ok rt"
    and "\<And>i. making c = Some i \<Longrightarrow> i < length (heap rt)"
  shows "single_ok c rt'"
proof -
  have "call_knows c rt'"
    using assms by (cases c) (auto simp: single_ok_def thread_frame_def table_ok_def tracked_def)
  moreover have "tracked rt' i = tracked rt i" if "i < length (heap rt)" for i
    using that assms(2) by (simp add: tracked_def thread_frame_def)
  ultimately show ?thesis
    using assms(1,2) by (auto simp: single_ok_def thread_frame_def)
qed

lemma joined_not_running:
  assumes "join_step i rt = Some rt'" and "heap_ok rt"
  shows "table rt' = table rt \<and> length (heap rt') = length (heap rt) \<and>
    (\<forall>j < length (heap rt). wkey (heap rt' ! j) = wkey (heap rt ! j) \<and>
      (thread_running (heap rt' ! j) \<longrightarrow> thread_running (heap rt ! j) \<and> j \<noteq> i))"
  using assms by (auto simp: join_step_def Let_def thread_running_def heap_ok_def worker_ok_def split: if_splits)

text \<open>A join, in whichever call: the worker is no longer running, the others are tracked as before.\<close>

lemma single_join:
  assumes "join_step i rt = Some rt'" and "heap_ok rt" and "single_ok c rt"
    and "\<And>j. releases c j \<Longrightarrow> j = i"
  shows "j < length (heap rt') \<Longrightarrow> thread_running (heap rt' ! j) \<Longrightarrow>
    tracked rt' j \<and> j \<noteq> i \<and> thread_running (heap rt ! j)"
  using joined_not_running [OF assms(1,2)] assms(3,4) by (auto simp: single_ok_def tracked_def)

lemma single_same:
  assumes "single_ok c rt" and "heap rt' = heap rt" and "call_knows c' rt'"
    and "\<And>i. i < length (heap rt) \<Longrightarrow> thread_running (heap rt ! i) \<Longrightarrow> tracked rt i \<or> releases c i \<Longrightarrow>
      tracked rt' i \<or> releases c' i"
  shows "single_ok c' rt'"
  using assms by (auto simp: single_ok_def)

lemma single_begin: "single_ok c rt \<Longrightarrow> c = Idle \<or> c = Thrown m \<Longrightarrow> call_begin call \<Longrightarrow> single_ok call rt"
  by (cases call) (auto simp: single_ok_def releases_def)


lemma single_move:
  assumes single: "single_ok c rt" and ok: "heap_ok rt" "table_ok rt"
    and step: "caller_step ts sp now c rt = Some (c', rt')"
    and new: "\<And>i. making c = Some i \<Longrightarrow> i < length (heap rt) \<and> thread (heap rt ! i) = No_thread"
  shows "single_ok c' rt'"
proof (cases c)
  case (Lookup kind al)
  with single step show ?thesis
    by (auto simp: single_ok_def releases_def split: sum.splits if_splits)
next
  case (Release kind al cfg)
  show ?thesis
  proof (cases "map_of (table rt) (workerKey kind al)")
    case None
    with Release single step show ?thesis
      by (auto simp: release_section_def single_ok_def releases_def)
  next
    case (Some i)
    with Release single step show ?thesis
      by (cases "active_state (snap_state (snap (heap rt ! i)))")
        (auto simp: release_section_def single_ok_def releases_def tracked_def map_of_erase, fastforce)
  qed
next
  case (Join_released i kind al cfg)
  then obtain "c' = Insert kind al cfg" "join_step i rt = Some rt'"
    using step by auto
  with Join_released single joined_not_running [OF _ ok(1)] single_join [OF _ ok(1) single] show ?thesis
    by (auto simp: single_ok_def releases_def)
next
  case (Insert kind al cfg)
  let ?w = "new_worker kind al cfg" and ?n = "length (heap rt)"
  have w: "thread ?w = No_thread" "wkey ?w = workerKey kind al"
    by (simp_all add: new_worker_def Let_def)
  have c': "c' = Announce ?n" and rt': "heap rt' = heap rt @ [?w]"
      "table rt' = emplace (workerKey kind al) ?n (table rt)"
    using Insert step by (auto simp: insert_section_def)
  have free: "map_of (table rt) (workerKey kind al) = None"
    using Insert single by (simp add: single_ok_def)
  have map: "map_of (table rt') = (map_of (table rt))(workerKey kind al \<mapsto> ?n)"
    using ok(2) free by (simp add: rt'(2) table_ok_def map_of_emplace)
  have keep: "tracked rt' i" if "i < ?n" "thread_running (heap rt ! i)" for i
    using that single Insert free by (auto simp: single_ok_def releases_def tracked_def map rt'(1) nth_append)
  have "j < ?n \<and> thread_running (heap rt ! j)" if "j < length (heap rt')" "thread_running (heap rt' ! j)" for j
    using that w by (auto simp: rt'(1) nth_append less_Suc_eq thread_running_def)
  moreover have "call_knows c' rt'"
    using w by (simp add: c' tracked_def map rt'(1))
  ultimately show ?thesis
    using keep by (auto simp: single_ok_def)
next
  case (Announce i)
  with single step show ?thesis
    by (auto simp: single_ok_def releases_def tracked_def)
next
  case (Spawn i)
  have i: "i < length (heap rt)" "thread (heap rt ! i) = No_thread" "tracked rt i"
    using new Spawn single by (auto simp: single_ok_def)
  have running: "tracked rt j \<and> wkey (heap rt ! j) \<noteq> wkey (heap rt ! i)"
    if "j < length (heap rt)" "thread_running (heap rt ! j)" for j
  proof -
    have "tracked rt j"
      using single Spawn that by (auto simp: single_ok_def releases_def)
    moreover have "j \<noteq> i"
      using i(2) that(2) by (auto simp: thread_running_def)
    ultimately show ?thesis
      using i(3) by (auto simp: tracked_def)
  qed
  show ?thesis
  proof (cases sp)
    case True
    then have "c' = Idle" "rt' = update_worker i (\<lambda>w. w\<lparr>thread := At_entry\<rparr>) rt"
      using Spawn step by simp_all
    with running i show ?thesis
      by (auto simp: single_ok_def tracked_def)
  next
    case False
    then have "call_knows c' rt'" "rt' = rt\<lparr>table := erase (wkey (heap rt ! i)) (table rt)\<rparr>"
      using Spawn step by auto
    with running show ?thesis
      by (auto simp: single_ok_def tracked_def map_of_erase)
  qed
next
  case (Request_stop restarting kind al)
  show ?thesis
  proof (cases "stop_section kind al rt")
    case (Inl message)
    with Request_stop single step show ?thesis
      by (auto simp: single_ok_def releases_def)
  next
    case (Inr r)
    obtain s rt1 where r: "r = (s, rt1)"
      by (cases r)
    have c': "rt' = rt1" "call_knows c' rt'"
      using Request_stop Inr r step by (cases s; cases restarting; auto simp: after_stop_def)+
    have "table rt1 = table rt \<and> length (heap rt1) = length (heap rt) \<and>
        (\<forall>i < length (heap rt). wkey (heap rt1 ! i) = wkey (heap rt ! i) \<and>
          thread_running (heap rt1 ! i) = thread_running (heap rt ! i))"
      using Inr by (auto simp: r stop_section_def Let_def thread_running_def set_state_def
          split: option.splits if_splits)
    with c' Request_stop single show ?thesis
      by (auto simp: single_ok_def releases_def tracked_def)
  qed
next
  case (Announce_stop s restarting kind al)
  with single step show ?thesis
    by (cases restarting) (auto simp: single_ok_def releases_def tracked_def after_stop_def)
next
  case (Find_worker kind al)
  with single step show ?thesis
    by (auto simp: single_ok_def releases_def tracked_def thread_running_def split: option.splits)
next
  case (Join_worker i kind al)
  then have c': "c' = Remove_worker i kind al" and join: "join_step i rt = Some rt'"
    using step by auto
  have i: "map_of (table rt) (workerKey kind al) = Some i" "i < length (heap rt)"
    using single Join_worker ok(2) by (auto simp: single_ok_def table_ok_def)
  have "tracked rt' j" if "j < length (heap rt')" "thread_running (heap rt' ! j)" for j
    using single_join [OF join ok(1) single _ that] Join_worker by (auto simp: releases_def)
  moreover have "call_knows c' rt'"
    using i joined_not_running [OF join ok(1)] by (auto simp: c')
  ultimately show ?thesis
    by (simp add: single_ok_def)
next
  case (Remove_worker i kind al)
  with single step show ?thesis
    by (auto simp: single_ok_def releases_def tracked_def map_of_erase split: if_splits, metis option.inject)
next
  case Destroy
  with single step show ?thesis
    by (auto simp: single_ok_def releases_def tracked_def requests_keep thread_running_def
        dest!: map_of_SomeD intro!: rev_image_eqI)
next
  case (Destroy_join "is")
  show ?thesis
  proof (cases "is")
    case Nil
    with Destroy_join single step show ?thesis
      by (auto simp: single_ok_def releases_def)
  next
    case (Cons i js)
    then have c': "c' = Destroy_join js" and join: "join_step i rt = Some rt'"
      using Destroy_join step by auto
    have "tracked rt' j \<and> j \<in> set js" if "j < length (heap rt')" "thread_running (heap rt' ! j)" for j
      using single_join [OF join ok(1) single _ that] joined_not_running [OF join ok(1)] that
        single Destroy_join Cons
      by (auto simp: releases_def single_ok_def)
    then show ?thesis
      by (simp add: single_ok_def c')
  qed
qed (use step in simp_all)

lemma single_reachable: "reachable 1 s \<Longrightarrow> single_ok (hd (snd s)) (fst s)"
proof (induction rule: reachable.induct)
  case initial
  then show ?case
    by (simp add: single_ok_def initial_runtime_def)
next
  case (further s s')
  obtain rt c where s: "s = (rt, [c])"
    using reachable_callers [OF further(1)] by (cases s) (auto simp: length_Suc_conv)
  have ok: "heap_ok rt" "table_ok rt" "callers_ok rt [c]"
    using reachable_ok [OF further(1)] by (auto simp: system_ok_def s)
  have new: "making c = Some i \<Longrightarrow> i < length (heap rt) \<and> thread (heap rt ! i) = No_thread" for i
    using ok(3) by (auto simp: callers_ok_def)
  have single: "single_ok c rt"
    using further(3) by (simp add: s)
  from further(2) show ?case
    unfolding s
  proof cases
    case (begin_call d call)
    then show ?thesis
      using single_begin [OF single] by auto
  next
    case (move_call d ts sp now call rt')
    then show ?thesis
      using single_move [OF single ok(1,2) _ new] by auto
  next
    case (move_thread act i rt')
    then show ?thesis
      using single_thread [OF single _ ok(2)] thread_step_ok [OF ok(1,2)] new by auto
  qed
qed

text \<open>
  C8. When calls are made one after the other, no thread is ever lost: a running thread belongs to the worker
  the table holds for its kind and alias, or to the one that the call in progress has taken out and is
  waiting for; and when the destructor has joined, no thread runs.
\<close>

theorem single_caller_tracks:
  assumes "reachable 1 (rt, [c])" and "i < length (heap rt)" and "thread_running (heap rt ! i)"
  shows "(map_of (table rt) (wkey (heap rt ! i)) = Some i \<or> (\<exists>kind al cfg. c = Join_released i kind al cfg)) \<and>
    c \<noteq> Destroy_join []"
  using single_reachable [OF assms(1)] assms(2,3) by (auto simp: single_ok_def tracked_def releases_def)

section \<open>Schedules\<close>

datatype move = Begin_call nat caller | Call_move nat "named_tunnel list" bool nat | Thread_move thread_action nat

fun resting :: "caller \<Rightarrow> bool" where
  "resting Idle = True"
| "resting (Thrown message) = True"
| "resting _ = False"

fun run_move :: "move \<Rightarrow> runtime \<times> caller list \<Rightarrow> (runtime \<times> caller list) option" where
  "run_move (Begin_call c call) (rt, cs) =
     (if c < length cs \<and> resting (cs ! c) \<and> call_begin call then Some (rt, cs[c := call]) else None)"
| "run_move (Call_move c ts sp now) (rt, cs) =
     (if c < length cs then map_option (\<lambda>(call, rt'). (rt', cs[c := call])) (caller_step ts sp now (cs ! c) rt)
      else None)"
| "run_move (Thread_move act i) (rt, cs) = map_option (\<lambda>rt'. (rt', cs)) (thread_step act i rt)"

abbreviation run_moves :: "move list \<Rightarrow> runtime \<times> caller list \<Rightarrow> (runtime \<times> caller list) option" where
  "run_moves \<equiv> run_steps run_move"

lemma resting_cases: "resting c \<Longrightarrow> c = Idle \<or> (\<exists>message. c = Thrown message)"
  by (cases c) auto

lemma run_move_step:
  assumes "run_move m s = Some s'"
  shows "system_step s s'"
proof -
  obtain rt cs where s: "s = (rt, cs)"
    by (cases s)
  show ?thesis
  proof (cases m)
    case (Begin_call c call)
    with assms show ?thesis
      by (auto simp: s intro!: begin_call dest: resting_cases split: if_splits)
  next
    case (Call_move c ts sp now)
    with assms show ?thesis
      by (auto simp: s intro!: move_call split: if_splits)
  next
    case (Thread_move act i)
    with assms show ?thesis
      by (auto simp: s intro!: move_thread)
  qed
qed

interpretation moves: step_invariant run_move "\<lambda>m. True" "reachable n" for n
  by unfold_locales (rule reachable.further [OF _ run_move_step])

lemma run_moves_reachable: "run_moves ms s = Some s' \<Longrightarrow> reachable n s \<Longrightarrow> reachable n s'"
  using moves.run_keeps by (simp add: list_all_iff)

lemmas schedule_simps = initial_runtime_def release_section_def insert_section_def stop_section_def
  update_worker_def publish_def new_worker_def set_state_def terminal_def request_stop_def thread_step_def
  worker_action_def begin_worker_def transition_def after_stop_def eval_nat_numeral

definition two_starts :: "named_tunnel list \<Rightarrow> string \<Rightarrow> move list" where
  "two_starts ts al =
     [Begin_call 0 (Lookup Kind_tunnel al), Begin_call 1 (Lookup Kind_tunnel al)] @
     concat (replicate 5 [Call_move 0 ts True 0, Call_move 1 ts True 0])"

text \<open>
  C35. Two calls of \<open>start\<close> for the same tunnel at the same time can both succeed: both find the slot free,
  both make a worker, and \<open>emplace\<close> ignores the second one, which runs without being in the table, so that
  no call can stop or join it.
\<close>

theorem concurrent_start_orphan:
  assumes "findTunnel ts al = Inr t"
  shows "\<exists>rt. run_moves (two_starts ts al) (initial_runtime, [Idle, Idle]) = Some (rt, [Idle, Idle]) \<and>
    reachable 2 (rt, [Idle, Idle]) \<and> table rt = [(workerKey Kind_tunnel al, 0)] \<and> length (heap rt) = 2 \<and>
    (\<forall>i < 2. thread_running (heap rt ! i) \<and> wkey (heap rt ! i) = workerKey Kind_tunnel al)"
proof -
  have "\<exists>rt. run_moves (two_starts ts al) (initial_runtime, [Idle, Idle]) = Some (rt, [Idle, Idle]) \<and>
      table rt = [(workerKey Kind_tunnel al, 0)] \<and> length (heap rt) = 2 \<and>
      (\<forall>i < 2. thread_running (heap rt ! i) \<and> wkey (heap rt ! i) = workerKey Kind_tunnel al)"
    using assms by (simp add: two_starts_def schedule_simps thread_running_def less_Suc_eq Let_def)
  moreover have "reachable 2 (initial_runtime, [Idle, Idle])"
    using reachable.initial [of 2] by (simp add: eval_nat_numeral)
  ultimately show ?thesis
    using run_moves_reachable by blast
qed

definition early_stop :: "named_tunnel list \<Rightarrow> string \<Rightarrow> move list" where
  "early_stop ts al =
     Begin_call 0 (Lookup Kind_tunnel al) # replicate 5 (Call_move 0 ts True 0) @
     [Begin_call 0 (Request_stop False Kind_tunnel al), Call_move 0 ts True 0, Call_move 0 ts True 0,
      Thread_move (Begin 0) 0, Thread_move (Publish_pending 0) 0]"

text \<open>
  C36. A stop that comes before a server's thread has begun is shown as \<open>stopping\<close>, and then the thread
  overwrites that state and publishes \<open>running\<close>, although the stop was accepted.
\<close>

theorem stop_overwritten:
  assumes "findTunnel ts al = Inr t" and "\<not> is_client (tunnel_config t)"
  shows "\<exists>rt. run_moves (early_stop ts al) (initial_runtime, [Idle]) = Some (rt, [Idle]) \<and>
    reachable 1 (rt, [Idle]) \<and> stop_requested (heap rt ! 0) \<and> snap_state (snap (heap rt ! 0)) = TS_Running \<and>
    map (\<lambda>e. snap_state (the (event_snapshot e))) (sink rt) = [TS_Starting, TS_Stopping, TS_Running]"
proof -
  have "\<exists>rt. run_moves (early_stop ts al) (initial_runtime, [Idle]) = Some (rt, [Idle]) \<and>
      stop_requested (heap rt ! 0) \<and> snap_state (snap (heap rt ! 0)) = TS_Running \<and>
      map (\<lambda>e. snap_state (the (event_snapshot e))) (sink rt) = [TS_Starting, TS_Stopping, TS_Running]"
    using assms by (simp add: early_stop_def schedule_simps lifecycle_event_def Let_def)
  then obtain rt where run: "run_moves (early_stop ts al) (initial_runtime, [Idle]) = Some (rt, [Idle])"
    and rt: "stop_requested (heap rt ! 0) \<and> snap_state (snap (heap rt ! 0)) = TS_Running \<and>
      map (\<lambda>e. snap_state (the (event_snapshot e))) (sink rt) = [TS_Starting, TS_Stopping, TS_Running]"
    by (elim exE conjE) (rule that, assumption, intro conjI)
  have "reachable 1 (initial_runtime, [Idle])"
    using reachable.initial [of 1] by simp
  with run have "reachable 1 (rt, [Idle])"
    by (rule run_moves_reachable)
  with run rt show ?thesis
    by (intro exI [of _ rt]) simp
qed

section \<open>Calls that are refused\<close>

text \<open>
  A \<open>start\<close> or \<open>stop\<close> that has not changed anything yet, and one that has: from there it ends with an exception
  only when the thread cannot be created.
\<close>

fun early :: "caller \<Rightarrow> bool" where
  "early (Lookup kind al) = True"
| "early (Release kind al cfg) = True"
| "early (Request_stop restarting kind al) = (\<not> restarting)"
| "early (Thrown message) = True"
| "early _ = False"

fun late :: "caller \<Rightarrow> bool" where
  "late Idle = True"
| "late (Join_released i kind al cfg) = True"
| "late (Insert kind al cfg) = True"
| "late (Announce i) = True"
| "late (Spawn i) = True"
| "late (Announce_stop s restarting kind al) = (\<not> restarting)"
| "late _ = False"

text \<open>The moves of one caller, and schedules in which it begins no other call and gets its threads.\<close>

fun own_move :: "nat \<Rightarrow> move \<Rightarrow> bool" where
  "own_move c (Begin_call d call) = (d = c)"
| "own_move c (Call_move d ts spawned now) = (d = c)"
| "own_move c (Thread_move act i) = False"

fun within_call :: "nat \<Rightarrow> move \<Rightarrow> bool" where
  "within_call c (Begin_call d call) = (d \<noteq> c)"
| "within_call c (Call_move d ts spawned now) = (d = c \<longrightarrow> spawned)"
| "within_call c (Thread_move act i) = True"

lemma early_step:
  assumes "caller_step ts True now c rt = Some (c', rt')" and "early c"
  shows "early c' \<and> rt' = rt \<or> late c'"
proof (cases c)
  case (Lookup kind al)
  with assms show ?thesis
    by (auto split: sum.splits if_splits)
next
  case (Release kind al cfg)
  with assms show ?thesis
    by (auto simp: release_section_def split: sum.splits option.splits if_splits)
next
  case (Request_stop restarting kind al)
  with assms show ?thesis
    by (auto simp: stop_section_def after_stop_def Let_def split: sum.splits option.splits if_splits)
qed (use assms in simp_all)

lemma late_step: "caller_step ts True now c rt = Some (c', rt') \<Longrightarrow> late c \<Longrightarrow> late c'"
  by (cases c) (auto simp: after_stop_def split: prod.splits)

interpretation late: step_invariant run_move "within_call c" "\<lambda>s. c < length (snd s) \<and> late (snd s ! c)" for c
proof
  fix m s s'
  assume step: "run_move m s = Some s'" and m: "within_call c m" and s: "c < length (snd s) \<and> late (snd s ! c)"
  obtain rt cs where rt: "s = (rt, cs)"
    by (cases s)
  show "c < length (snd s') \<and> late (snd s' ! c)"
  proof (cases m)
    case (Call_move d ts spawned now)
    with step m s show ?thesis
      by (cases "d = c") (auto simp: rt dest: late_step split: if_splits)
  qed (use step m s in \<open>auto simp: rt split: if_splits\<close>)
qed

lemma refused_run:
  assumes "run_moves ms (rt, cs) = Some (rt', cs')" and "list_all (within_call c) ms" and "c < length cs"
    and "early (cs ! c)" and "cs' ! c = Thrown message"
  shows "run_moves (filter (\<lambda>m. \<not> own_move c m) ms) (rt, cs[c := x]) = Some (rt', cs'[c := x])"
  using assms
proof (induction ms arbitrary: rt cs)
  case (Cons m ms)
  then obtain rt1 cs1 where step: "run_move m (rt, cs) = Some (rt1, cs1)" and run: "run_moves ms (rt1, cs1) = Some (rt', cs')"
    by (auto split: option.splits)
  have ms: "list_all (within_call c) ms" and m: "within_call c m"
    using Cons.prems(2) by simp_all
  show ?case
  proof (cases "own_move c m")
    case True
    then obtain ts now where "m = Call_move c ts True now"
      using m by (cases m) auto
    then obtain call where call: "caller_step ts True now (cs ! c) rt = Some (call, rt1)" "cs1 = cs[c := call]"
      using step by (auto split: if_splits)
    have "\<not> late call"
    proof
      assume "late call"
      with call(2) Cons.prems(3) have "late (cs' ! c)"
        using late.run_keeps [OF run ms] by simp
      with Cons.prems(5) show False
        by simp
    qed
    with early_step [OF call(1) Cons.prems(4)] have "early call" "rt1 = rt"
      by auto
    with Cons.IH [OF run ms] Cons.prems(3,5) call(2) True show ?thesis
      by simp
  next
    case False
    then have "run_move m (rt, cs[c := x]) = Some (rt1, cs1[c := x])" "cs1 ! c = cs ! c" "length cs1 = length cs"
      using step by (cases m; auto simp: list_update_swap split: if_splits)+
    with Cons.IH [OF run ms] Cons.prems(3-5) False show ?thesis
      by simp
  qed
qed simp


text \<open>
  A \<open>restart\<close> that ends with an exception may have stopped the worker and removed it: this happens when the
  tunnel is no longer in the catalogue.
\<close>

definition refused_restart :: "named_tunnel list \<Rightarrow> named_tunnel list \<Rightarrow> string \<Rightarrow> move list" where
  "refused_restart ts ts' al =
     Begin_call 0 (Lookup Kind_tunnel al) # replicate 5 (Call_move 0 ts True 0) @
     [Thread_move (Begin 0) 0, Thread_move (Publish_pending 0) 0,
      Begin_call 0 (Request_stop True Kind_tunnel al), Call_move 0 ts' True 0, Call_move 0 ts' True 0,
      Thread_move Run_returned 0, Thread_move (Publish_pending 0) 0, Thread_move End_thread 0] @
     replicate 4 (Call_move 0 ts' True 0)"

lemma restart_refused_stops:
  assumes "findTunnel ts al = Inr t" and "\<not> is_client (tunnel_config t)" and "findTunnel ts' al = Inl message"
  shows "\<exists>rt. run_moves (refused_restart ts ts' al) (initial_runtime, [Idle]) = Some (rt, [Thrown message]) \<and>
    table rt = [] \<and> snap_state (snap (heap rt ! 0)) = TS_Stopped"
  using assms by (simp add: refused_restart_def schedule_simps join_step_def finished_detail_def erase_def Let_def)

section \<open>Closed instances\<close>

definition example_tunnels :: "named_tunnel list" where
  "example_tunnels = [\<lparr>tunnel_alias = ''in'', tunnel_config = example_server\<rparr>]"

lemma example_found: "findTunnel example_tunnels ''in'' = Inr \<lparr>tunnel_alias = ''in'', tunnel_config = example_server\<rparr>"
  by (simp add: example_tunnels_def findTunnel_def)

definition start_moves :: "named_tunnel list \<Rightarrow> string \<Rightarrow> move list" where
  "start_moves ts al = Begin_call 0 (Lookup Kind_tunnel al) # replicate 5 (Call_move 0 ts True 0)"

definition example_schedule :: "move list" where
  "example_schedule = start_moves example_tunnels ''in'' @
     map (\<lambda>act. Thread_move act 0) [Begin 5, Publish_pending 6, Datagram_seen 7 8 100 (Some 0), Run_returned]"

lemma example_schedule_runs:
  "\<exists>rt rt'. run_moves (take 7 example_schedule) (initial_runtime, [Idle]) = Some (rt, [Idle]) \<and>
     length (heap rt) = 1 \<and> thread (heap rt ! 0) = In_run \<and>
     run_moves example_schedule (initial_runtime, [Idle]) = Some (rt', [Idle]) \<and>
     length (heap rt') = 1 \<and> snap_state (snap (heap rt' ! 0)) = TS_Stopped \<and>
     thread_step (Publish_pending 0) 0 rt' \<noteq> None"
  by (simp add: example_schedule_def start_moves_def schedule_simps example_found Let_def example_server_def
      default_config_def)

lemma example_states:
  obtains rt rt' where "reachable 1 (rt, [Idle])" "length (heap rt) = 1" "thread (heap rt ! 0) = In_run"
    "reachable 1 (rt', [Idle])" "length (heap rt') = 1" "snap_state (snap (heap rt' ! 0)) = TS_Stopped"
    "thread_step (Publish_pending 0) 0 rt' \<noteq> None"
proof -
  have start: "reachable 1 (initial_runtime, [Idle])"
    using reachable.initial [of 1] by simp
  from example_schedule_runs show ?thesis
    by (elim exE conjE) (rule that, (erule run_moves_reachable [OF _ start] | assumption)+)
qed

theorem runtime_invariant_witness:
  "\<exists>rt. reachable 1 (rt, [Idle]) \<and> heap rt \<noteq> [] \<and> (\<forall>w \<in> set (heap rt). length (snap_recent (snap w)) \<le> 10)"
proof -
  obtain rt rt' where "reachable 1 (rt, [Idle])" "length (heap rt) = 1"
    by (rule example_states)
  with runtime_invariant [of 1 rt "[Idle]"] show ?thesis
    by (auto intro!: exI [of _ rt])
qed

theorem finished_is_final_witness:
  "\<exists>rt rt'. system_step (rt, [Idle]) (rt', [Idle]) \<and> snap_state (snap (heap rt ! 0)) = TS_Stopped \<and>
    snap (heap rt' ! 0) = snap (heap rt ! 0)"
proof -
  obtain r rt where r: "reachable 1 (rt, [Idle])" "length (heap rt) = 1" "snap_state (snap (heap rt ! 0)) = TS_Stopped"
      "thread_step (Publish_pending 0) 0 rt \<noteq> None"
    by (rule example_states)
  then obtain rt' where "system_step (rt, [Idle]) (rt', [Idle])"
    by (blast intro: move_thread)
  moreover have "snap (heap rt' ! 0) = snap (heap rt ! 0)"
    using finished_is_final [OF r(1) calculation, of 0] r(2,3) by (simp add: terminal_def)
  ultimately show ?thesis
    using r(3) by blast
qed

theorem single_caller_tracks_witness:
  "\<exists>rt. reachable 1 (rt, [Idle]) \<and> thread_running (heap rt ! 0) \<and> map_of (table rt) (wkey (heap rt ! 0)) = Some 0"
proof -
  obtain rt rt' where r: "reachable 1 (rt, [Idle])" "length (heap rt) = 1" "thread (heap rt ! 0) = In_run"
    by (rule example_states)
  then have "thread_running (heap rt ! 0)"
    by (simp add: thread_running_def)
  with single_caller_tracks [OF r(1), of 0] r(1,2) show ?thesis
    by auto
qed

theorem concurrent_start_orphan_witness:
  "\<exists>rt. reachable 2 (rt, [Idle, Idle]) \<and> length (heap rt) = 2 \<and> length (table rt) = 1"
  using concurrent_start_orphan [OF example_found] by (elim exE conjE) (intro exI conjI, assumption, simp_all)

theorem stop_overwritten_witness:
  "\<exists>rt. reachable 1 (rt, [Idle]) \<and> stop_requested (heap rt ! 0) \<and> snap_state (snap (heap rt ! 0)) = TS_Running"
proof -
  have "\<not> is_client (tunnel_config \<lparr>tunnel_alias = ''in'', tunnel_config = example_server\<rparr>)"
    by (simp add: example_server_def default_config_def)
  from stop_overwritten [OF example_found this] show ?thesis
    by (elim exE conjE) (intro exI conjI)
qed


end
