(* ===== verification/Runtime_History.thy ===== *)
theory Runtime_History
  imports Runtime_Properties
begin

text \<open>
  What the supervisor of \<open>Managed_Runtime\<close> shows of a worker, against the history of the worker's own
  thread: the metrics that \<open>recordDatagram\<close> keeps up to date step by step are a function of all reports
  so far, whatever callers and other threads do in between.
\<close>

section \<open>Histories\<close>

text \<open>What the thread of the \<open>i\<close>-th worker did in a schedule, and the reports among it.\<close>

fun action_of :: "nat \<Rightarrow> move \<Rightarrow> thread_action list" where
  "action_of i (Thread_move act j) = (if j = i then [act] else [])"
| "action_of i (Begin_call c call) = []"
| "action_of i (Call_move c ts spawned now) = []"

definition thread_actions :: "nat \<Rightarrow> move list \<Rightarrow> thread_action list" where
  "thread_actions i ms = concat (map (action_of i) ms)"

record report =
  steady_ns :: nat
  system_ms :: nat
  report_bytes :: nat
  report_latency :: "double option"

fun report_of :: "thread_action \<Rightarrow> report list" where
  "report_of (Datagram_seen steady system n latency) =
     [\<lparr>steady_ns = steady, system_ms = system, report_bytes = n, report_latency = latency\<rparr>]"
| "report_of _ = []"

definition reports :: "thread_action list \<Rightarrow> report list" where
  "reports acts = concat (map report_of acts)"

lemma thread_actions_simps [simp]:
  "thread_actions i [] = []" "thread_actions i (ms @ ms') = thread_actions i ms @ thread_actions i ms'"
  "thread_actions i (m # ms) = action_of i m @ thread_actions i ms"
  by (simp_all add: thread_actions_def)

lemma reports_simps [simp]:
  "reports [] = []" "reports (as @ bs) = reports as @ reports bs" "reports (a # as) = report_of a @ reports as"
  by (simp_all add: reports_def)

section \<open>The metrics of a history\<close>

definition detail_of :: "report \<Rightarrow> datagram_detail" where
  "detail_of r = \<lparr>detail_time = system_ms r, detail_bytes = of_nat (report_bytes r), detail_latency = report_latency r\<rparr>"

definition total_bytes :: "report list \<Rightarrow> u64" where
  "total_bytes rs = of_nat (sum_list (map report_bytes rs))"

definition report_latencies :: "report list \<Rightarrow> double list" where
  "report_latencies rs = concat (map (\<lambda>r. case report_latency r of None \<Rightarrow> [] | Some ms \<Rightarrow> [ms]) rs)"

text \<open>The average rate since the worker began, at the last report at which the clock had advanced.\<close>

definition seconds_since :: "nat \<Rightarrow> report \<Rightarrow> double" where
  "seconds_since began r = double_div (double_of (steady_ns r - began)) (double_of 1000000000)"

definition average_rate :: "nat \<Rightarrow> report list \<Rightarrow> double" where
  "average_rate began rs =
     (case filter (\<lambda>rs. rs \<noteq> [] \<and> 0 < seconds_since began (last rs)) (rev (prefixes rs)) of
        [] \<Rightarrow> 0
      | seen # _ \<Rightarrow> double_div (double_of (unat (total_bytes seen))) (seconds_since began (last seen)))"

text \<open>The statistics of the last 1024 latencies, if there is one.\<close>

definition history_metrics :: "nat \<Rightarrow> report list \<Rightarrow> tunnel_metrics" where
  "history_metrics began rs =
     (let window = sort (last_of 1024 (report_latencies rs));
          show_if_any = (\<lambda>x. if window = [] then None else Some x)
      in \<lparr>datagrams = of_nat (length rs), byte_total = total_bytes rs, throughput = average_rate began rs,
          average_ms = show_if_any (average_latency window), p50_ms = show_if_any (percentile window p50),
          p99_ms = show_if_any (percentile window p99), maximum_ms = show_if_any (last window)\<rparr>)"

definition shows_history :: "report list \<Rightarrow> worker \<Rightarrow> bool" where
  "shows_history rs w \<longleftrightarrow>
     snap_metrics (snap w) = history_metrics (started w) rs \<and>
     snap_recent (snap w) = last_of 10 (map detail_of rs) \<and>
     latencies w = last_of 1024 (report_latencies rs)"

lemma last_of_eq_Nil: "0 < b \<Longrightarrow> last_of b xs = [] \<longleftrightarrow> xs = []"
  by (cases xs) (auto simp: last_of_def)

lemma sort_eq_Nil: "sort xs = [] \<longleftrightarrow> xs = []"
  by (metis length_0_conv length_sort)

lemma report_latencies_simps [simp]:
  "report_latencies [] = []" "report_latencies (rs @ rs') = report_latencies rs @ report_latencies rs'"
  "report_latencies (r # rs) = (case report_latency r of None \<Rightarrow> [] | Some ms \<Rightarrow> [ms]) @ report_latencies rs"
  by (simp_all add: report_latencies_def)

lemma total_bytes_simps [simp]:
  "total_bytes [] = 0" "total_bytes (rs @ [r]) = total_bytes rs + of_nat (report_bytes r)"
  by (simp_all add: total_bytes_def)

lemma average_rate_simps [simp]:
  "average_rate began [] = 0"
  "average_rate began (rs @ [r]) =
     (if 0 < seconds_since began r
      then double_div (double_of (unat (total_bytes (rs @ [r])))) (seconds_since began r)
      else average_rate began rs)"
  by (simp_all add: average_rate_def)

lemma history_metrics_Nil [simp]: "history_metrics began [] = no_metrics"
  by (simp add: history_metrics_def no_metrics_def Let_def)

lemma shows_nothing: "shows_history [] w \<longleftrightarrow>
    snap_metrics (snap w) = no_metrics \<and> snap_recent (snap w) = [] \<and> latencies w = []"
  by (simp add: shows_history_def)

text \<open>One more report.\<close>

lemma count_history:
  "count_datagram (seconds_since began r) (report_bytes r) (history_metrics began rs) =
     (history_metrics began rs)\<lparr>datagrams := of_nat (length (rs @ [r])), byte_total := total_bytes (rs @ [r]),
       throughput := average_rate began (rs @ [r])\<rparr>"
  by (simp add: count_datagram_def history_metrics_def Let_def add.commute)

lemma more_history:
  "history_metrics began (rs @ [r]) =
     (case report_latency r of
        None \<Rightarrow> count_datagram (seconds_since began r) (report_bytes r) (history_metrics began rs)
      | Some ms \<Rightarrow> latency_metrics (last_of 1024 (report_latencies rs @ [ms]))
          (count_datagram (seconds_since began r) (report_bytes r) (history_metrics began rs)))"
  unfolding count_history
  by (simp add: history_metrics_def latency_metrics_def Let_def last_of_eq_Nil sort_eq_Nil split: option.split)

lemma record_report:
  "recordDatagram (steady_ns r) (system_ms r) (report_bytes r) (report_latency r) w =
     (let s = (snap w)\<lparr>snap_metrics := count_datagram (seconds_since (started w) r) (report_bytes r) (snap_metrics (snap w)),
            snap_recent := push_bounded 10 (detail_of r) (snap_recent (snap w))\<rparr>
      in case report_latency r of
           None \<Rightarrow> w\<lparr>snap := s\<rparr>
         | Some ms \<Rightarrow>
             (let samples = push_bounded 1024 ms (latencies w)
              in w\<lparr>latencies := samples, snap := s\<lparr>snap_metrics := latency_metrics samples (snap_metrics s)\<rparr>\<rparr>))"
  unfolding recordDatagram_def seconds_since_def detail_of_def Let_def by (rule refl)

lemma record_history:
  assumes "shows_history rs w"
  shows "shows_history (rs @ [r]) (recordDatagram (steady_ns r) (system_ms r) (report_bytes r) (report_latency r) w)"
  using assms
  by (simp add: shows_history_def record_report more_history Let_def push_last_of split: option.split)

section \<open>What others leave alone\<close>

text \<open>The part of a worker that only its own thread changes.\<close>

definition own_part :: "worker \<Rightarrow> tunnel_metrics \<times> datagram_detail list \<times> double list \<times> nat \<times> runtime_kind" where
  "own_part w = (snap_metrics (snap w), snap_recent (snap w), latencies w, started w, snap_kind (snap w))"

lemma own_part_simps [simp]:
  "own_part (request_stop w) = own_part w" "own_part (set_state st detail w) = own_part w"
  "own_part (w\<lparr>joined := b\<rparr>) = own_part w" "own_part (w\<lparr>thread := t\<rparr>) = own_part w"
  "own_part (w\<lparr>pending := p\<rparr>) = own_part w" "own_part (transition st detail w) = own_part w"
  by (simp_all add: own_part_def request_stop_def set_state_def transition_def Let_def)

lemma own_part_same: "own_part w' = own_part w \<Longrightarrow> shows_history rs w' \<longleftrightarrow> shows_history rs w"
  by (simp add: own_part_def shows_history_def)

definition others_keep :: "runtime \<Rightarrow> runtime \<Rightarrow> bool" where
  "others_keep rt rt' \<longleftrightarrow>
     (\<forall>i < length (heap rt). own_part (heap rt' ! i) = own_part (heap rt ! i)) \<and>
     (\<forall>i. length (heap rt) \<le> i \<and> i < length (heap rt') \<longrightarrow> shows_history [] (heap rt' ! i))"

lemma others_keep_same: "heap rt' = heap rt \<Longrightarrow> others_keep rt rt'"
  by (auto simp: others_keep_def)

lemma others_keep_update: "(\<And>w. own_part (f w) = own_part w) \<Longrightarrow> others_keep rt (update_worker i f rt)"
  by (auto simp: others_keep_def)

lemma others_keep_requests: "others_keep rt (fold (\<lambda>i. update_worker i request_stop) is rt)"
proof (induction "is" arbitrary: rt)
  case (Cons i js)
  have "others_keep (update_worker i request_stop rt) (fold (\<lambda>i. update_worker i request_stop) js (update_worker i request_stop rt))"
    by (rule Cons.IH)
  then show ?case
    by (simp add: others_keep_def requests_keep)
qed (simp add: others_keep_same)

lemma others_keep_join: "join_step i rt = Some rt' \<Longrightarrow> others_keep rt rt'"
  by (auto simp: join_step_def Let_def others_keep_same others_keep_update split: if_splits)

lemma caller_keeps:
  assumes "caller_step ts spawned now c rt = Some (c', rt')"
  shows "others_keep rt rt'"
proof (cases c)
  case (Insert kind al cfg)
  with assms show ?thesis
    by (auto simp: insert_section_def others_keep_def nth_append less_Suc_eq shows_nothing new_worker_def Let_def)
next
  case (Request_stop restarting kind al)
  with assms show ?thesis
    by (auto simp: stop_section_def Let_def others_keep_same others_keep_update
        split: option.splits sum.splits if_splits)
next
  case Destroy
  with assms show ?thesis
    by (auto simp: others_keep_requests)
next
  case (Destroy_join "is")
  with assms show ?thesis
    by (cases "is") (auto simp: others_keep_same others_keep_join)
next
  case (Release kind al cfg)
  with assms show ?thesis
    by (auto simp: release_section_def others_keep_same split: option.splits if_splits)
next
  case (Spawn i)
  with assms show ?thesis
    by (auto simp: others_keep_same intro!: others_keep_update split: if_splits)
next
  case (Find_worker kind al)
  with assms show ?thesis
    by (auto simp: others_keep_same intro!: others_keep_update split: option.splits)
qed (use assms in \<open>auto simp: others_keep_same dest: others_keep_join split: sum.splits if_splits\<close>)

section \<open>The metrics of a worker\<close>

definition history_ok :: "move list \<Rightarrow> runtime \<Rightarrow> bool" where
  "history_ok ms rt \<longleftrightarrow>
     (\<forall>i. if i < length (heap rt)
       then shows_history (reports (thread_actions i ms)) (heap rt ! i) \<and>
         (reports (thread_actions i ms) \<noteq> [] \<longrightarrow>
            thread (heap rt ! i) \<noteq> No_thread \<and> thread (heap rt ! i) \<noteq> At_entry \<and>
            snap_kind (snap (heap rt ! i)) = Kind_tunnel)
       else reports (thread_actions i ms) = [])"

lemma history_call:
  assumes "history_ok ms rt" and "others_keep rt rt'" and "call_frame c rt rt'"
    and "\<And>i. c = Spawn i \<Longrightarrow> thread (heap rt ! i) = No_thread" and "\<And>i. action_of i m = []"
  shows "history_ok (ms @ [m]) rt'"
proof -
  have "if i < length (heap rt')
      then shows_history (reports (thread_actions i ms)) (heap rt' ! i) \<and>
        (reports (thread_actions i ms) \<noteq> [] \<longrightarrow>
           thread (heap rt' ! i) \<noteq> No_thread \<and> thread (heap rt' ! i) \<noteq> At_entry \<and>
           snap_kind (snap (heap rt' ! i)) = Kind_tunnel)
      else reports (thread_actions i ms) = []" for i
  proof (cases "i < length (heap rt)")
    case True
    then have "own_part (heap rt' ! i) = own_part (heap rt ! i)" "i < length (heap rt')"
      "thread (heap rt' ! i) = thread (heap rt ! i) \<or> c = Spawn i"
      using assms(2,3) by (auto simp: others_keep_def call_frame_def)
    moreover from this(1) have "snap_kind (snap (heap rt' ! i)) = snap_kind (snap (heap rt ! i))"
      by (simp add: own_part_def)
    moreover have "shows_history (reports (thread_actions i ms)) (heap rt' ! i) \<longleftrightarrow>
        shows_history (reports (thread_actions i ms)) (heap rt ! i)"
      using calculation(1) by (rule own_part_same)
    moreover have "shows_history (reports (thread_actions i ms)) (heap rt ! i)"
      "reports (thread_actions i ms) \<noteq> [] \<longrightarrow> thread (heap rt ! i) \<noteq> No_thread \<and>
         thread (heap rt ! i) \<noteq> At_entry \<and> snap_kind (snap (heap rt ! i)) = Kind_tunnel"
      using assms(1) True by (simp_all add: history_ok_def)
    ultimately show ?thesis
      using assms(4) [of i] by auto
  next
    case False
    then have "reports (thread_actions i ms) = []"
      using assms(1) by (auto simp: history_ok_def)
    with False assms(2) show ?thesis
      by (simp add: others_keep_def)
  qed
  then show ?thesis
    using assms(5) by (simp add: history_ok_def)
qed

lemma action_history:
  assumes "worker_action act w = Some w'" and "shows_history rs w"
    and "rs \<noteq> [] \<longrightarrow> thread w \<noteq> No_thread \<and> thread w \<noteq> At_entry \<and> snap_kind (snap w) = Kind_tunnel"
  shows "shows_history (rs @ report_of act) w' \<and>
    (rs @ report_of act \<noteq> [] \<longrightarrow> thread w' \<noteq> No_thread \<and> thread w' \<noteq> At_entry \<and> snap_kind (snap w') = Kind_tunnel)"
proof (cases act)
  case (Datagram_seen steady system n latency)
  then have "thread w = In_run" "snap_kind (snap w) = Kind_tunnel" "w' = recordDatagram steady system n latency w"
    using assms(1) by (auto simp: worker_action_def split: if_splits)
  then show ?thesis
    using record_history [OF assms(2), of "\<lparr>steady_ns = steady, system_ms = system, report_bytes = n, report_latency = latency\<rparr>"]
      Datagram_seen by simp
next
  case (Begin now)
  then have "rs = []" "w' = begin_worker now w"
    using assms(1,3) by (auto simp: worker_action_def split: if_splits)
  then show ?thesis
    using assms(2) Begin
    by (auto simp: begin_worker_def shows_nothing transition_def set_state_def Let_def split: runtime_kind.split)
qed (use assms in \<open>auto simp: worker_action_def own_part_same transition_def set_state_def Let_def shows_history_def
      split: if_splits\<close>)

lemma history_thread:
  assumes "history_ok ms rt" and "thread_step act i rt = Some rt'"
  shows "history_ok (ms @ [Thread_move act i]) rt'"
proof -
  have i: "i < length (heap rt)"
    using assms(2) by (auto simp: thread_step_def split: if_splits)
  let ?rs = "reports (thread_actions i ms)"
  have old: "shows_history ?rs (heap rt ! i)"
    "?rs \<noteq> [] \<longrightarrow> thread (heap rt ! i) \<noteq> No_thread \<and> thread (heap rt ! i) \<noteq> At_entry \<and> snap_kind (snap (heap rt ! i)) = Kind_tunnel"
    using assms(1) i by (simp_all add: history_ok_def)
  consider (publish) now where "act = Publish_pending now" | (action) "\<nexists>now. act = Publish_pending now"
    by blast
  then obtain w' where heap': "heap rt' = (heap rt)[i := w']" and
    new: "shows_history (?rs @ report_of act) w'"
      "?rs @ report_of act \<noteq> [] \<longrightarrow> thread w' \<noteq> No_thread \<and> thread w' \<noteq> At_entry \<and> snap_kind (snap w') = Kind_tunnel"
  proof cases
    case publish
    let ?w = "(heap rt ! i)\<lparr>pending := None\<rparr>"
    have "heap rt' = (heap rt)[i := ?w]"
      using publish assms(2) by (auto simp: thread_step_def update_worker_def split: option.splits if_splits)
    with old publish that show ?thesis
      by (auto simp: own_part_same [of ?w "heap rt ! i"])
  next
    case action
    then obtain w' where w': "worker_action act (heap rt ! i) = Some w'" "heap rt' = (heap rt)[i := w']"
      using assms(2) by (cases act) (auto simp: thread_step_def update_worker_def split: if_splits)
    from action_history [OF w'(1) old] w'(2) that show ?thesis
      by blast
  qed
  show ?thesis
    using assms(1) new i by (auto simp: history_ok_def heap' nth_list_update)
qed

lemma history_step:
  assumes "history_ok ms rt" and "reachable n (rt, cs)" and "run_move m (rt, cs) = Some (rt', cs')"
  shows "history_ok (ms @ [m]) rt'"
proof (cases m)
  case (Begin_call c call)
  then have "rt' = rt"
    using assms(3) by (auto split: if_splits)
  with assms(1) Begin_call show ?thesis
    by (simp add: history_ok_def)
next
  case (Call_move c ts spawned now)
  then obtain call where step: "caller_step ts spawned now (cs ! c) rt = Some (call, rt')" and c: "c < length cs"
    using assms(3) by (auto split: if_splits)
  have ok: "heap_ok rt" "table_ok rt" "callers_ok rt cs"
    using reachable_ok [OF assms(2)] by (simp_all add: system_ok_def)
  have new: "making (cs ! c) = Some i \<Longrightarrow> i < length (heap rt) \<and> thread (heap rt ! i) = No_thread" for i
    using ok(3) c by (auto simp: callers_ok_def)
  have "call_frame (cs ! c) rt rt'"
    using caller_step_ok [OF ok(1,2) step new] by blast
  with assms(1) caller_keeps [OF step] new Call_move show ?thesis
    by (intro history_call [of ms rt rt' "cs ! c"]) auto
next
  case (Thread_move act i)
  with assms show ?thesis
    by (auto intro: history_thread)
qed

lemma history_run:
  "run_moves ms (initial_runtime, replicate n Idle) = Some (rt, cs) \<Longrightarrow> history_ok ms rt"
proof (induction ms arbitrary: rt cs rule: rev_induct)
  case Nil
  then show ?case
    by (auto simp: history_ok_def initial_runtime_def)
next
  case (snoc m ms)
  then obtain rt0 cs0 where before: "run_moves ms (initial_runtime, replicate n Idle) = Some (rt0, cs0)"
    and step: "run_move m (rt0, cs0) = Some (rt, cs)"
    by (auto simp: run_steps_append split: option.splits)
  have "reachable n (rt0, cs0)"
    using run_moves_reachable [OF before reachable.initial] .
  from history_step [OF snoc.IH [OF before] this step] show ?case .
qed

lemma shown_metrics:
  assumes "run_moves ms (initial_runtime, replicate n Idle) = Some (rt, cs)" and "i < length (heap rt)"
  shows "let w = heap rt ! i; rs = reports (thread_actions i ms)
    in snap_metrics (snap w) = history_metrics (started w) rs \<and>
      snap_recent (snap w) = last_of 10 (map detail_of rs) \<and>
      latencies w = last_of 1024 (report_latencies rs) \<and>
      (snap_kind (snap w) = Kind_producer \<longrightarrow> snap_metrics (snap w) = no_metrics \<and> snap_recent (snap w) = [])"
proof -
  let ?rs = "reports (thread_actions i ms)"
  have "shows_history ?rs (heap rt ! i)"
    and kind: "?rs \<noteq> [] \<longrightarrow> snap_kind (snap (heap rt ! i)) = Kind_tunnel"
    using history_run [OF assms(1)] assms(2) by (simp_all add: history_ok_def)
  then have shown: "snap_metrics (snap (heap rt ! i)) = history_metrics (started (heap rt ! i)) ?rs"
    "snap_recent (snap (heap rt ! i)) = last_of 10 (map detail_of ?rs)"
    "latencies (heap rt ! i) = last_of 1024 (report_latencies ?rs)"
    by (simp_all add: shows_history_def)
  have "snap_metrics (snap (heap rt ! i)) = no_metrics \<and> snap_recent (snap (heap rt ! i)) = []"
    if "snap_kind (snap (heap rt ! i)) = Kind_producer"
  proof -
    have "?rs = []"
      using kind that by auto
    with shown show ?thesis
      by simp
  qed
  with shown show ?thesis
    unfolding Let_def by blast
qed

text \<open>
  C5. The metrics are exact. In every schedule of any number of callers and threads, what a snapshot shows of a
  worker is a function of the reports of the worker's own thread since it began, however they were
  interleaved with starts, stops, restarts and other workers: how many datagrams and bytes (modulo \<open>2^64\<close>),
  the average rate, the last ten datagrams, and the statistics of exactly the last 1024 latencies. A
  producer's thread reports nothing, so a producer is always shown with no datagrams at all.
\<close>

theorem metrics_exact:
  assumes "run_moves ms (initial_runtime, replicate n Idle) = Some (rt, cs)" and "i < length (heap rt)"
  shows "let w = heap rt ! i; rs = reports (thread_actions i ms)
    in snap_metrics (snap w) = history_metrics (started w) rs \<and>
      snap_recent (snap w) = last_of 10 (map detail_of rs) \<and>
      latencies w = last_of 1024 (report_latencies rs) \<and>
      (snap_kind (snap w) = Kind_producer \<longrightarrow> snap_metrics (snap w) = no_metrics \<and> snap_recent (snap w) = [])"
  using assms by (rule shown_metrics)

theorem metrics_exact_witness:
  "\<exists>rt. run_moves example_schedule (initial_runtime, [Idle]) = Some (rt, [Idle]) \<and>
    datagrams (snap_metrics (snap (heap rt ! 0))) = 1 \<and> byte_total (snap_metrics (snap (heap rt ! 0))) = 100 \<and>
    maximum_ms (snap_metrics (snap (heap rt ! 0))) = Some 0"
proof -
  obtain rt where run: "run_moves example_schedule (initial_runtime, [Idle]) = Some (rt, [Idle])" "length (heap rt) = 1"
    using example_schedule_runs by blast
  have "reports (thread_actions 0 example_schedule) =
      [\<lparr>steady_ns = 7, system_ms = 8, report_bytes = 100, report_latency = Some 0\<rparr>]"
    by (simp add: example_schedule_def start_moves_def eval_nat_numeral)
  with metrics_exact [of example_schedule 1 rt "[Idle]" 0] run
  have "snap_metrics (snap (heap rt ! 0)) = history_metrics (started (heap rt ! 0))
      [\<lparr>steady_ns = 7, system_ms = 8, report_bytes = 100, report_latency = Some 0\<rparr>]"
    by (simp add: Let_def)
  moreover have "datagrams (history_metrics t [r]) = 1" "byte_total (history_metrics t [r]) = of_nat (report_bytes r)"
    "report_latency r = Some 0 \<Longrightarrow> maximum_ms (history_metrics t [r]) = Some 0" for t r
    by (simp_all add: history_metrics_def Let_def total_bytes_def last_of_def)
  ultimately show ?thesis
    using run(1) by (intro exI [of _ rt]) simp
qed

end
