(* ===== verification/Tunnel_Client.thy ===== *)
theory Tunnel_Client
  imports Tunneler Example_Run
begin

text \<open>
  The client side of \<open>src/src/DatagramTunneler.cpp\<close>: connecting to the server with a deadline, and the
  loop that receives a datagram, wraps it and sends it. The inputs of a run (what the socket calls
  return, the clock, when the stop is requested) are lists in the order they are used.
\<close>

section \<open>Connecting\<close>

text \<open>
  One pass of the polling loop: whether a stop was requested, the steady clock at the loop test and
  at the computation of the remaining time (nanoseconds), what \<open>select\<close> returned, and the outcome
  of \<open>getsockopt(SO_ERROR)\<close> if it is asked.
\<close>

datatype select_result = Select_timeout | Select_failed int | Select_ready
datatype socket_error_result = Getsockopt_failed int | Socket_error int

record poll =
  poll_stop :: bool
  poll_test_time :: int
  poll_wait_time :: int
  poll_select :: select_result
  poll_error :: socket_error_result

datatype connect_result = Connect_ok | Connect_failed int

text \<open>
  The environment of one connection attempt: the results of the two \<open>setSocketBlocking\<close> calls (an
  error code when they fail), of \<open>connect\<close>, the time at which the deadline is computed, and the
  final question whether the stop was requested.
\<close>

record connect_env =
  nonblocking_result :: "int option"
  connect_call :: connect_result
  blocking_result :: "int option"
  deadline_base :: int
  polls :: "poll list"
  stopped_at_end :: bool

definition kTcpConnectTimeout :: int where "kTcpConnectTimeout = 10"
definition kTcpConnectPollInterval :: int where "kTcpConnectPollInterval = 250"

text \<open>Integer division and remainder of C++ truncate towards zero.\<close>

definition trunc_div :: "int \<Rightarrow> int \<Rightarrow> int" where
  "trunc_div a b = sgn a * sgn b * (\<bar>a\<bar> div \<bar>b\<bar>)"

definition trunc_mod :: "int \<Rightarrow> int \<Rightarrow> int" where
  "trunc_mod a b = a - b * trunc_div a b"

text \<open>The \<open>timeval\<close> given to \<open>select\<close>: seconds and microseconds.\<close>

definition poll_timeout :: "int \<Rightarrow> int \<Rightarrow> int \<times> int" where
  "poll_timeout deadline now =
     (let remaining = trunc_div (deadline - now) 1000;
          wait = min remaining (kTcpConnectPollInterval * 1000)
      in (trunc_div wait 1000000, trunc_mod wait 1000000))"

definition server_name :: "config \<Rightarrow> string" where
  "server_name cfg = c_str (tcp_srv_ip cfg) @ '':'' @ to_string (unat (tcp_srv_port cfg))"

definition restore_blocking :: "connect_env \<Rightarrow> string + bool" where
  "restore_blocking env = (case blocking_result env of
       Some e \<Rightarrow> Inl (tunnel_error (''Could not restore TCP socket blocking mode. Error '' @ show_int e))
     | None \<Rightarrow> Inr True)"

text \<open>What follows the loop, when a stop or the deadline ended it.\<close>

definition connect_loop_end :: "config \<Rightarrow> connect_env \<Rightarrow> string + bool" where
  "connect_loop_end cfg env =
     (if stopped_at_end env then Inr False
      else Inl (tunnel_error (''Timed out connecting to server '' @ server_name cfg @ '' after '' @
        show_int kTcpConnectTimeout @ '' seconds.'')))"

text \<open>
  The polling loop. \<open>None\<close>: the polls are used up while the loop would go on. The second component
  collects the timeouts given to \<open>select\<close>.
\<close>

fun connect_loop ::
  "config \<Rightarrow> connect_env \<Rightarrow> int \<Rightarrow> poll list \<Rightarrow> (string + bool) option \<times> (int \<times> int) list" where
  "connect_loop cfg env deadline [] = (None, [])"
| "connect_loop cfg env deadline (p # ps) =
     (if poll_stop p \<or> \<not> poll_test_time p < deadline then (Some (connect_loop_end cfg env), [])
      else
        (let timeout = poll_timeout deadline (poll_wait_time p) in
         case poll_select p of
           Select_timeout \<Rightarrow>
             (let (result, timeouts) = connect_loop cfg env deadline ps in (result, timeout # timeouts))
         | Select_failed e \<Rightarrow>
             (Some (Inl (tunnel_error (''Unable to wait for TCP connection to server '' @ server_name cfg @
                ''. Error '' @ show_int e @ ''!''))), [timeout])
         | Select_ready \<Rightarrow>
             (case poll_error p of
                Getsockopt_failed e \<Rightarrow>
                  (Some (Inl (tunnel_error (''Unable to inspect TCP connection to server '' @
                     server_name cfg @ ''. Error '' @ show_int e @ ''!''))), [timeout])
              | Socket_error e \<Rightarrow>
                  if e \<noteq> 0 then
                    (Some (Inl (tunnel_error (''Unable to connect to server '' @ server_name cfg @
                       ''. Error '' @ show_int e @ ''!''))), [timeout])
                  else (Some (restore_blocking env), [timeout]))))"

definition connectClientWithTimeout ::
  "os \<Rightarrow> config \<Rightarrow> connect_env \<Rightarrow> (string + bool) option \<times> (int \<times> int) list" where
  "connectClientWithTimeout os cfg env =
     (case nonblocking_result env of
        Some e \<Rightarrow> (Some (Inl (tunnel_error (''Could not set TCP socket to non-blocking mode. Error '' @
                     show_int e))), [])
      | None \<Rightarrow>
          (case connect_call env of
             Connect_ok \<Rightarrow> (Some (restore_blocking env), [])
           | Connect_failed e \<Rightarrow>
               if \<not> isConnectInProgress (os_platform os) e then
                 (Some (Inl (tunnel_error (''Unable to connect to server '' @ server_name cfg @
                    ''. Error '' @ show_int e @ ''!''))), [])
               else connect_loop cfg env (deadline_base env + kTcpConnectTimeout * 1000000000) (polls env)))"

section \<open>The forwarding loop\<close>

text \<open>
  What \<open>recv\<close> on the UDP socket returned: an error, or a datagram. With \<open>MSG_TRUNC\<close> the length returned
  is the datagram's own, and the buffer receives its first \<open>kMaxDatagramLength\<close> bytes.
\<close>

datatype udp_recv = Udp_error int | Udp_datagram bytes

record client_state = io +
  packet :: tunnel_packet

datatype client_input =
    Client_stop
  | Client_iteration udp_recv u64 "send_result list"

definition fill_databuf :: "bytes \<Rightarrow> bytes \<Rightarrow> bytes" where
  "fill_databuf datagram buf =
     (let n = min (length datagram) kMaxDatagramLength in take n datagram @ drop n buf)"

text \<open>The second half of an iteration: the encapsulated packet is sent and the datagram is counted.\<close>

definition client_send ::
  "os \<Rightarrow> send_result list \<Rightarrow> client_state \<Rightarrow> client_state outcome" where
  "client_send os sends s =
     (let pkt = packet s; (result, sent) = sendTCPData (frame_bytes (os_order os) pkt) sends;
          s = emit [Tcp_sent sent] s
      in case result of
           Send_failed e \<Rightarrow> Threw (tunnel_error (''Unable to send data to server! Error '' @ show_int e)) s
         | Send_zero \<Rightarrow>
             Threw (tunnel_error ''Unable to send data via TCP. The server might not be able to keep up!'') s
         | Send_assertion \<Rightarrow> Aborted s
         | Send_pending \<Rightarrow> Blocked s
         | Send_ok \<Rightarrow>
             Running (if pkt_type pkt = Datagram then
                        emit [Output (RecordDatagram (unat (pkt_datalen pkt))),
                              Observed (unat (pkt_datalen pkt)) None] s
                      else s))"

text \<open>One pass of the loop of \<open>runClient\<close>.\<close>

definition client_iteration ::
  "run_mode \<Rightarrow> os \<Rightarrow> udp_recv \<Rightarrow> u64 \<Rightarrow> send_result list \<Rightarrow> client_state \<Rightarrow> client_state outcome" where
  "client_iteration mode os received now_us sends s =
     (case received of
        Udp_error e \<Rightarrow>
          if isDatagramTooLargeError (os_platform os) e then
            Running (emit [Output (WARN ''Discarding jumbo datagram.'')] s)
          else if \<not> isReceiveTimeout (os_platform os) e then
            Threw (tunnel_error (''Unable to read data from UDP socket '' @ show_int e)) s
          else
            (let s = s\<lparr>packet := (packet s)\<lparr>pkt_type := Heartbeat\<rparr>\<rparr>;
                 s = (if verbose_mode mode then emit [Output (INFO ''Heartbeat sent to TCP server.'')] s else s)
             in client_send os sends s)
      | Udp_datagram datagram \<Rightarrow>
          (let s = s\<lparr>packet := (packet s)\<lparr>pkt_databuf := fill_databuf datagram (pkt_databuf (packet s))\<rparr>\<rparr>
           in if \<not> ndebug mode \<and> \<not> length datagram \<le> kMaxDatagramLength then Aborted s
              else if length datagram > kMaxDatagramLength then
                Running (emit [Output (WARN (''Discarding jumbo datagram of '' @
                  to_string (length datagram) @ '' bytes!''))] s)
              else
                (let s = s\<lparr>packet := (packet s)\<lparr>pkt_type := Datagram\<rparr>\<rparr>;
                     s = emit [Output (if compact_mode mode
                           then LogCompactMessage Info (''forwarded '' @ to_string (length datagram) @ '' B'')
                           else INFO (''Tunneling a '' @ to_string (length datagram) @
                             '' byte datagram to server.''))] s;
                     s = s\<lparr>packet := (packet s)\<lparr>pkt_datalen := of_nat (length datagram),
                                               pkt_client_timestamp_us := now_us\<rparr>\<rparr>
                 in client_send os sends s)))"

fun client_loop ::
  "run_mode \<Rightarrow> os \<Rightarrow> client_input list \<Rightarrow> client_state \<Rightarrow> client_state outcome" where
  "client_loop mode os [] s = Running s"
| "client_loop mode os (Client_stop # inputs) s = Returned s"
| "client_loop mode os (Client_iteration received now_us sends # inputs) s =
     (case client_iteration mode os received now_us sends s of
        Running s' \<Rightarrow> client_loop mode os inputs s'
      | result \<Rightarrow> result)"

text \<open>The packet before the loop: \<open>TunnelPacket {}\<close> with the fields every frame shares.\<close>

definition client_packet :: "os \<Rightarrow> config \<Rightarrow> tunnel_packet" where
  "client_packet os cfg = zero_packet
     \<lparr>pkt_protocol_version := kDtepProtocolVersion,
      pkt_udp_dst_ip := (case os_inet_pton os (c_str (udp_dst_ip cfg)) of Some a \<Rightarrow> a | None \<Rightarrow> 0),
      pkt_udp_dst_port := udp_dst_port cfg\<rparr>"

definition group_name :: "config \<Rightarrow> string" where
  "group_name cfg = c_str (udp_dst_ip cfg) @ '':'' @ to_string (unat (udp_dst_port cfg))"

text \<open>
  \<open>runClient\<close>: connect, tell the observer, join the group (\<open>join\<close> is the error code of
  \<open>IP_ADD_MEMBERSHIP\<close>, if it fails), then the loop.
\<close>

definition runClient ::
  "run_mode \<Rightarrow> os \<Rightarrow> config \<Rightarrow> connect_env \<Rightarrow> int option \<Rightarrow> client_input list \<Rightarrow>
   client_state outcome" where
  "runClient mode os cfg env join inputs =
     (let s = \<lparr>trace = [], packet = zero_packet\<rparr> in
      case fst (connectClientWithTimeout os cfg env) of
        None \<Rightarrow> Blocked s
      | Some (Inl message) \<Rightarrow> Threw message s
      | Some (Inr False) \<Rightarrow> Returned s
      | Some (Inr True) \<Rightarrow>
          (let s = emit [Connection_connected,
                 Output (if compact_mode mode then LogCompactMessage Info ''connected to TCP server''
                   else INFO (''[DatagramTunneler][CLIENT-MODE] connected to TCP remote '' @ server_name cfg @
                     '' and listening to multicast '' @ group_name cfg))] s
           in case join of
                Some e \<Rightarrow> Threw (tunnel_error (''Could not join multicast group '' @ group_name cfg @
                            ''. Error '' @ show_int e)) s
              | None \<Rightarrow>
                  client_loop mode os inputs
                    ((emit [Joined_group (os_inet_addr os (c_str (udp_dst_ip cfg)))
                              (os_inet_addr os (c_str (udp_iface_ip cfg))),
                            Output (if compact_mode mode then LogCompactMessage Info ''joined multicast group''
                              else INFO (''Joined multicast group '' @ group_name cfg @ ''.''))] s)
                     \<lparr>packet := client_packet os cfg\<rparr>)))"

section \<open>The bytes on the connection\<close>

text \<open>The bytes the connection accepted in a run.\<close>

definition tcp_bytes :: "effect list \<Rightarrow> bytes" where
  "tcp_bytes es = concat (map (\<lambda>e. case e of Tcp_sent bs \<Rightarrow> bs | _ \<Rightarrow> []) es)"

lemma tcp_bytes_simps [simp]:
  "tcp_bytes [] = []" "tcp_bytes (xs @ ys) = tcp_bytes xs @ tcp_bytes ys"
  "tcp_bytes (Tcp_sent bs # es) = bs @ tcp_bytes es"
  "tcp_bytes (Output c # es) = tcp_bytes es" "tcp_bytes (Observed n l # es) = tcp_bytes es"
  "tcp_bytes (Connection_connected # es) = tcp_bytes es"
  "tcp_bytes (Joined_group g i # es) = tcp_bytes es"
  by (simp_all add: tcp_bytes_def)

lemma emit_packet [simp]: "packet (emit es c) = packet c"
  by (simp_all add: emit_def)

text \<open>The frame an input asks for: none for a stop, for a jumbo datagram and for a read error.\<close>

fun frame_of_input :: "os \<Rightarrow> client_input \<Rightarrow> frame option" where
  "frame_of_input os Client_stop = None"
| "frame_of_input os (Client_iteration (Udp_error e) now_us sends) =
     (if isReceiveTimeout (os_platform os) e then Some Frame_heartbeat else None)"
| "frame_of_input os (Client_iteration (Udp_datagram d) now_us sends) =
     (if length d \<le> kMaxDatagramLength then Some (Frame_datagram d now_us) else None)"

text \<open>What stays fixed in the packet while the loop runs.\<close>

definition client_wf :: "u32 \<Rightarrow> u16 \<Rightarrow> client_state \<Rightarrow> bool" where
  "client_wf ip port s \<longleftrightarrow>
     pkt_protocol_version (packet s) = kDtepProtocolVersion \<and>
     pkt_udp_dst_ip (packet s) = ip \<and> pkt_udp_dst_port (packet s) = port \<and>
     length (pkt_databuf (packet s)) = kMaxDatagramLength"

lemma length_fill_databuf [simp]:
  "length buf = kMaxDatagramLength \<Longrightarrow> length (fill_databuf d buf) = kMaxDatagramLength"
  by (simp add: fill_databuf_def Let_def)

lemma fill_databuf_take:
  "length d \<le> kMaxDatagramLength \<Longrightarrow> length buf = kMaxDatagramLength \<Longrightarrow>
   take (length d) (fill_databuf d buf) = d"
  by (simp add: fill_databuf_def)

lemma heartbeat_frame_bytes:
  "client_wf ip port s \<Longrightarrow>
   frame_bytes ord ((packet s)\<lparr>pkt_type := Heartbeat\<rparr>) = encode_frame ord ip port Frame_heartbeat"
  by (simp add: frame_bytes_heartbeat client_wf_def)

lemma datagram_frame_bytes:
  assumes "client_wf ip port s" and "length d \<le> kMaxDatagramLength"
  shows "frame_bytes ord ((packet s)\<lparr>pkt_databuf := fill_databuf d (pkt_databuf (packet s)),
       pkt_type := Datagram, pkt_datalen := of_nat (length d), pkt_client_timestamp_us := t\<rparr>) =
     encode_frame ord ip port (Frame_datagram d t)" (is "frame_bytes ord ?pkt = _")
proof -
  have "pkt_type ?pkt \<noteq> Heartbeat"
    by (simp add: Heartbeat_def Datagram_def)
  then show ?thesis
    using assms by (auto simp: frame_bytes_datagram fill_databuf_take client_wf_def datagram_header_def
        intro: header_image_cong)
qed

text \<open>A step put the bytes \<open>w\<close> on the connection, or the part of them it accepted before the run ended.\<close>

definition puts_bytes :: "client_state \<Rightarrow> bytes \<Rightarrow> client_state outcome \<Rightarrow> bool" where
  "puts_bytes s w out \<longleftrightarrow>
     (\<exists>v. prefix v w \<and> tcp_bytes (trace (final_state out)) = tcp_bytes (trace s) @ v \<and>
       (is_running out \<longrightarrow> v = w))"

lemma puts_nothing [simp]:
  "tcp_bytes (trace (final_state out)) = tcp_bytes (trace s) \<Longrightarrow> puts_bytes s w out \<longleftrightarrow> w = [] \<or> \<not> is_running out"
  by (auto simp: puts_bytes_def)

lemma client_send_stream:
  assumes "client_wf ip port s" and "frame_bytes (os_order os) (packet s) = w"
    and "tcp_bytes (trace s) = tcp_bytes (trace s0)"
  shows "client_wf ip port (final_state (client_send os sends s)) \<and>
    puts_bytes s0 w (client_send os sends s)"
proof -
  obtain result sent where r: "sendTCPData w sends = (result, sent)"
    by (cases "sendTCPData w sends")
  have "prefix sent w"
    using sendTCPData_prefix [of w sends] r by simp
  moreover have "result = Send_ok \<Longrightarrow> sent = w"
    using sendTCPData_ok r by blast
  ultimately show ?thesis
    using assms by (cases result) (auto simp: client_send_def r client_wf_def Let_def puts_bytes_def)
qed

lemma client_iteration_stream:
  assumes "client_wf ip port s"
  shows "client_wf ip port (final_state (client_iteration mode os received now_us sends s)) \<and>
    puts_bytes s
      (case frame_of_input os (Client_iteration received now_us sends) of
         None \<Rightarrow> [] | Some f \<Rightarrow> encode_frame (os_order os) ip port f)
      (client_iteration mode os received now_us sends s)"
proof (cases received)
  case (Udp_error e)
  show ?thesis
  proof (cases "isReceiveTimeout (os_platform os) e")
    case True
    let ?s = "s\<lparr>packet := (packet s)\<lparr>pkt_type := Heartbeat\<rparr>\<rparr>"
    let ?s' = "if verbose_mode mode then emit [Output (INFO ''Heartbeat sent to TCP server.'')] ?s else ?s"
    have "client_iteration mode os received now_us sends s = client_send os sends ?s'"
      using True by (simp add: client_iteration_def Udp_error timeout_not_too_large Let_def)
    moreover have "client_wf ip port (final_state (client_send os sends ?s')) \<and>
        puts_bytes s (encode_frame (os_order os) ip port Frame_heartbeat) (client_send os sends ?s')"
      using assms heartbeat_frame_bytes [OF assms]
      by (intro client_send_stream) (auto simp: client_wf_def)
    ultimately show ?thesis
      using True by (simp add: Udp_error)
  next
    case False
    with assms show ?thesis
      by (auto simp: client_iteration_def Udp_error client_wf_def)
  qed
next
  case (Udp_datagram d)
  let ?s0 = "s\<lparr>packet := (packet s)\<lparr>pkt_databuf := fill_databuf d (pkt_databuf (packet s))\<rparr>\<rparr>"
  show ?thesis
  proof (cases "length d \<le> kMaxDatagramLength")
    case True
    let ?log = "Output (if compact_mode mode
        then LogCompactMessage Info (''forwarded '' @ to_string (length d) @ '' B'')
        else INFO (''Tunneling a '' @ to_string (length d) @ '' byte datagram to server.''))"
    let ?s' = "(emit [?log] (?s0\<lparr>packet := (packet ?s0)\<lparr>pkt_type := Datagram\<rparr>\<rparr>))
      \<lparr>packet := (packet ?s0)\<lparr>pkt_type := Datagram, pkt_datalen := of_nat (length d),
         pkt_client_timestamp_us := now_us\<rparr>\<rparr>"
    have "client_iteration mode os received now_us sends s = client_send os sends ?s'"
      using True by (simp add: client_iteration_def Udp_datagram Let_def)
    moreover have "client_wf ip port (final_state (client_send os sends ?s')) \<and>
        puts_bytes s (encode_frame (os_order os) ip port (Frame_datagram d now_us))
          (client_send os sends ?s')"
      using assms datagram_frame_bytes [OF assms True]
      by (intro client_send_stream) (auto simp: client_wf_def)
    ultimately show ?thesis
      using True by (simp add: Udp_datagram)
  next
    case False
    with assms show ?thesis
      by (auto simp: client_iteration_def Udp_datagram client_wf_def Let_def)
  qed
qed

text \<open>
  The whole loop: the connection receives the frames of the inputs, in order; a run that ends early
  leaves a prefix of them.
\<close>

fun frames_of_inputs :: "os \<Rightarrow> client_input list \<Rightarrow> frame list" where
  "frames_of_inputs os [] = []"
| "frames_of_inputs os (Client_stop # inputs) = []"
| "frames_of_inputs os (Client_iteration r t ss # inputs) =
     (case frame_of_input os (Client_iteration r t ss) of
        None \<Rightarrow> frames_of_inputs os inputs | Some f \<Rightarrow> f # frames_of_inputs os inputs)"

lemma puts_bytes_seq:
  assumes "puts_bytes s w (Running s')" and "puts_bytes s' w' out"
  shows "puts_bytes s (w @ w') out"
  using assms by (auto simp: puts_bytes_def)

lemma puts_bytes_stop:
  assumes "puts_bytes s w out" and "\<not> is_running out"
  shows "puts_bytes s (w @ w') out"
  using assms by (auto simp: puts_bytes_def)

lemma client_loop_stream:
  assumes "client_wf ip port s"
  shows "puts_bytes s (encode_frames (os_order os) ip port (frames_of_inputs os inputs))
    (client_loop mode os inputs s)"
  using assms
proof (induction mode os inputs s rule: client_loop.induct)
  case (3 mode os r t ss inputs s)
  let ?w = "case frame_of_input os (Client_iteration r t ss) of
      None \<Rightarrow> [] | Some f \<Rightarrow> encode_frame (os_order os) ip port f"
  let ?rest = "encode_frames (os_order os) ip port (frames_of_inputs os inputs)"
  have w: "encode_frames (os_order os) ip port (frames_of_inputs os (Client_iteration r t ss # inputs)) =
      ?w @ ?rest"
    by (simp split: option.split)
  have it: "client_wf ip port (final_state (client_iteration mode os r t ss s))"
    "puts_bytes s ?w (client_iteration mode os r t ss s)"
    using client_iteration_stream [OF "3.prems"] by blast+
  show ?case
    unfolding w
  proof (cases "client_iteration mode os r t ss s")
    case (Running s')
    with it 3 show "puts_bytes s (?w @ ?rest) (client_loop mode os (Client_iteration r t ss # inputs) s)"
      by (auto intro: puts_bytes_seq)
  qed (use it in \<open>simp_all add: puts_bytes_stop\<close>)
qed simp_all

lemma frames_of_inputs_fit: "list_all frame_fits (frames_of_inputs os inputs)"
proof (induction inputs)
  case (Cons i inputs)
  show ?case
  proof (cases i)
    case (Client_iteration r t ss)
    with Cons show ?thesis by (cases r) (auto split: option.split)
  qed simp
qed simp

section \<open>Runs without errors\<close>

text \<open>
  An input that gives the loop no reason to end: the socket calls report a timeout, a datagram or an
  overlong datagram, and the connection accepts the whole frame.
\<close>

fun healthy_input :: "run_mode \<Rightarrow> os \<Rightarrow> client_input \<Rightarrow> bool" where
  "healthy_input mode os Client_stop = False"
| "healthy_input mode os (Client_iteration (Udp_error e) t sends) =
     (isDatagramTooLargeError (os_platform os) e \<or>
      isReceiveTimeout (os_platform os) e \<and> accepted_in_pieces 2 sends)"
| "healthy_input mode os (Client_iteration (Udp_datagram d) t sends) =
     (if length d \<le> kMaxDatagramLength then accepted_in_pieces (18 + length d) sends else ndebug mode)"

fun frame_observed :: "frame \<Rightarrow> (nat \<times> double option) list" where
  "frame_observed Frame_heartbeat = []"
| "frame_observed (Frame_datagram d t) = [(length d, None)]"

lemma client_send_completes:
  assumes "accepted_in_pieces (length (frame_bytes (os_order os) (packet s))) sends"
  shows "\<exists>s'. client_send os sends s = Running s' \<and> observed (trace s') = observed (trace s) @
    (if pkt_type (packet s) = Datagram then [(unat (pkt_datalen (packet s)), None)] else [])"
proof -
  have "fst (sendTCPData (frame_bytes (os_order os) (packet s)) sends) = Send_ok"
    using assms by (simp add: sendTCPData_completes)
  then show ?thesis
    by (auto simp: client_send_def Let_def case_prod_beta)
qed

lemma client_iteration_completes:
  assumes "client_wf ip port s" and "healthy_input mode os (Client_iteration r t sends)"
  shows "\<exists>s'. client_iteration mode os r t sends s = Running s' \<and>
    observed (trace s') = observed (trace s) @
      (case frame_of_input os (Client_iteration r t sends) of None \<Rightarrow> [] | Some f \<Rightarrow> frame_observed f)"
proof (cases r)
  case (Udp_error e)
  show ?thesis
  proof (cases "isDatagramTooLargeError (os_platform os) e")
    case True
    moreover have "\<not> isReceiveTimeout (os_platform os) e"
      using True timeout_not_too_large by blast
    ultimately show ?thesis
      by (simp add: client_iteration_def Udp_error)
  next
    case False
    let ?s = "s\<lparr>packet := (packet s)\<lparr>pkt_type := Heartbeat\<rparr>\<rparr>"
    define s1 where
      "s1 = (if verbose_mode mode then emit [Output (INFO ''Heartbeat sent to TCP server.'')] ?s else ?s)"
    have s1: "packet s1 = (packet s)\<lparr>pkt_type := Heartbeat\<rparr>" "observed (trace s1) = observed (trace s)"
      by (simp_all add: s1_def)
    have timeout: "isReceiveTimeout (os_platform os) e" "accepted_in_pieces 2 sends"
      using False assms(2) by (simp_all add: Udp_error)
    have "client_iteration mode os r t sends s = client_send os sends s1"
      using False timeout by (simp add: client_iteration_def Udp_error Let_def s1_def)
    moreover have "length (frame_bytes (os_order os) (packet s1)) = 2"
      by (simp add: s1 frame_bytes_heartbeat)
    moreover have "pkt_type (packet s1) \<noteq> Datagram"
      by (simp add: s1 Heartbeat_def Datagram_def)
    ultimately show ?thesis
      using client_send_completes [of os s1 sends] timeout s1(2) by (simp add: Udp_error)
  qed
next
  case (Udp_datagram d)
  show ?thesis
  proof (cases "length d \<le> kMaxDatagramLength")
    case True
    let ?s0 = "s\<lparr>packet := (packet s)\<lparr>pkt_databuf := fill_databuf d (pkt_databuf (packet s))\<rparr>\<rparr>"
    let ?log = "Output (if compact_mode mode
        then LogCompactMessage Info (''forwarded '' @ to_string (length d) @ '' B'')
        else INFO (''Tunneling a '' @ to_string (length d) @ '' byte datagram to server.''))"
    let ?s' = "(emit [?log] (?s0\<lparr>packet := (packet ?s0)\<lparr>pkt_type := Datagram\<rparr>\<rparr>))
      \<lparr>packet := (packet ?s0)\<lparr>pkt_type := Datagram, pkt_datalen := of_nat (length d),
         pkt_client_timestamp_us := t\<rparr>\<rparr>"
    have "frame_bytes (os_order os) (packet ?s') = encode_frame (os_order os) ip port (Frame_datagram d t)"
      using datagram_frame_bytes [OF assms(1) True] by simp
    then have "\<exists>s'. client_send os sends ?s' = Running s' \<and> observed (trace s') = observed (trace ?s') @
        [(length d, None)]"
      using client_send_completes [of os ?s' sends] assms(2) True by (simp add: Udp_datagram)
    moreover have "client_iteration mode os r t sends s = client_send os sends ?s'"
      using True by (simp add: client_iteration_def Udp_datagram Let_def)
    ultimately show ?thesis
      using True by (auto simp: Udp_datagram)
  next
    case False
    with assms(2) show ?thesis
      by (simp add: client_iteration_def Udp_datagram Let_def)
  qed
qed

lemma client_loop_completes:
  assumes "client_wf ip port s" and "list_all (healthy_input mode os) inputs"
  shows "\<exists>s'. client_loop mode os inputs s = Running s' \<and>
    observed (trace s') = observed (trace s) @ concat (map frame_observed (frames_of_inputs os inputs))"
  using assms
proof (induction mode os inputs s rule: client_loop.induct)
  case (3 mode os r t sends inputs s)
  then obtain s' where s': "client_iteration mode os r t sends s = Running s'"
    "observed (trace s') = observed (trace s) @
      (case frame_of_input os (Client_iteration r t sends) of None \<Rightarrow> [] | Some f \<Rightarrow> frame_observed f)"
    using client_iteration_completes [of ip port s mode os r t sends] by auto
  then have "client_wf ip port s'"
    using client_iteration_stream [OF "3.prems"(1), of mode os r t sends] by simp
  with s' "3.IH" [OF s'(1)] "3.prems"(2) show ?case
    by (auto split: option.splits)
qed simp_all

section \<open>The connection attempt\<close>

lemma poll_timeout_bounds:
  assumes "now \<le> deadline"
  shows "fst (poll_timeout deadline now) = 0 \<and> 0 \<le> snd (poll_timeout deadline now) \<and>
    snd (poll_timeout deadline now) \<le> 250000 \<and>
    snd (poll_timeout deadline now) * 1000 \<le> deadline - now"
proof -
  have r: "trunc_div (deadline - now) 1000 = (deadline - now) div 1000"
    using assms by (cases "deadline = now") (auto simp: trunc_div_def)
  define w where "w = min ((deadline - now) div 1000) 250000"
  have w: "0 \<le> w" "w \<le> 250000" "w * 1000 \<le> deadline - now"
    using assms by (auto simp: w_def min_def)
  then have "trunc_div w 1000000 = 0"
    by (simp add: trunc_div_def)
  with w show ?thesis
    by (simp add: poll_timeout_def r kTcpConnectPollInterval_def w_def trunc_mod_def)
qed

text \<open>
  When the polling loop ends: with a connection only after \<open>select\<close> found the socket ready, the socket
  reported no error and the blocking mode was restored; without one only when a stop was requested.
\<close>

lemma connect_loop_True:
  assumes "fst (connect_loop cfg env deadline ps) = Some (Inr True)"
  shows "blocking_result env = None \<and>
    (\<exists>p \<in> set ps. \<not> poll_stop p \<and> poll_test_time p < deadline \<and> poll_select p = Select_ready \<and>
      poll_error p = Socket_error 0)"
  using assms
  by (induction cfg env deadline ps rule: connect_loop.induct)
    (auto simp: Let_def case_prod_beta connect_loop_end_def restore_blocking_def
      split: if_splits select_result.splits socket_error_result.splits option.splits)

lemma connect_loop_False:
  assumes "fst (connect_loop cfg env deadline ps) = Some (Inr False)"
  shows "stopped_at_end env"
  using assms
  by (induction cfg env deadline ps rule: connect_loop.induct)
    (auto simp: Let_def case_prod_beta connect_loop_end_def restore_blocking_def
      split: if_splits select_result.splits socket_error_result.splits option.splits)

lemma connect_loop_stops:
  assumes "p \<in> set ps" and "poll_stop p \<or> deadline \<le> poll_test_time p"
  shows "fst (connect_loop cfg env deadline ps) \<noteq> None"
  using assms
proof (induction cfg env deadline ps rule: connect_loop.induct)
  case (2 cfg env deadline q ps)
  show ?case
  proof (cases "poll_stop q \<or> \<not> poll_test_time q < deadline")
    case False
    with "2.prems" have "p \<in> set ps" by auto
    with False 2 show ?thesis
      by (cases "poll_select q") (auto simp: Let_def case_prod_beta split: socket_error_result.split)
  qed simp
qed simp

lemma connect_loop_timeouts:
  assumes "\<forall>p \<in> set ps. poll_wait_time p \<le> deadline"
  shows "\<forall>(sec, usec) \<in> set (snd (connect_loop cfg env deadline ps)). sec = 0 \<and> 0 \<le> usec \<and> usec \<le> 250000"
  using assms
proof (induction cfg env deadline ps rule: connect_loop.induct)
  case (2 cfg env deadline p ps)
  obtain usec where usec: "poll_timeout deadline (poll_wait_time p) = (0, usec)" "0 \<le> usec" "usec \<le> 250000"
    using poll_timeout_bounds [of "poll_wait_time p" deadline] "2.prems"
    by (cases "poll_timeout deadline (poll_wait_time p)") auto
  have rest: "\<forall>(sec, usec) \<in> set (snd (connect_loop cfg env deadline ps)). sec = 0 \<and> 0 \<le> usec \<and> usec \<le> 250000"
    if "\<not> (poll_stop p \<or> \<not> poll_test_time p < deadline)" "poll_select p = Select_timeout"
    using that 2 by simp
  show ?case
  proof (cases "poll_stop p \<or> \<not> poll_test_time p < deadline")
    case False
    show ?thesis
    proof (cases "poll_select p")
      case Select_timeout
      with False rest usec show ?thesis
        by (simp add: case_prod_beta)
    next
      case Select_ready
      with False usec show ?thesis
        by (cases "poll_error p") (simp_all add: Let_def)
    qed (use False usec in \<open>simp add: Let_def\<close>)
  qed simp
qed simp

text \<open>A waiting time that is computed after the deadline is negative: the second look at the clock.\<close>

lemma poll_timeout_late:
  assumes "deadline + 1000 \<le> now" and "now < deadline + 1000000000"
  shows "fst (poll_timeout deadline now) = 0 \<and> snd (poll_timeout deadline now) < 0"
proof -
  define q where "q = (now - deadline) div 1000"
  have q: "1 \<le> q" "q < 1000000"
    using assms by (auto simp: q_def)
  have "\<bar>deadline - now\<bar> = now - deadline"
    using assms(1) by simp
  then have "trunc_div (deadline - now) 1000 = - q"
    using assms by (simp add: trunc_div_def q_def sgn_if)
  then show ?thesis
    using q by (simp add: poll_timeout_def Let_def kTcpConnectPollInterval_def trunc_div_def trunc_mod_def)
qed

text \<open>
  C29. The client reports a connection only when there is one: the attempt was made in non-blocking mode,
  \<open>connect\<close> succeeded at once or was in progress and then \<open>select\<close> found the socket ready before the
  deadline without a pending error, and the socket is in blocking mode again.
\<close>

theorem connect_sound:
  assumes "fst (connectClientWithTimeout os cfg env) = Some (Inr True)"
  shows "nonblocking_result env = None \<and> blocking_result env = None \<and>
    (case connect_call env of
       Connect_ok \<Rightarrow> True
     | Connect_failed e \<Rightarrow> isConnectInProgress (os_platform os) e \<and>
         (\<exists>p \<in> set (polls env). \<not> poll_stop p \<and>
            poll_test_time p < deadline_base env + kTcpConnectTimeout * 1000000000 \<and>
            poll_select p = Select_ready \<and> poll_error p = Socket_error 0))"
  using assms connect_loop_True
  by (fastforce simp: connectClientWithTimeout_def restore_blocking_def
      split: option.splits connect_result.splits if_splits)

definition example_attempt :: connect_env where
  "example_attempt = \<lparr>nonblocking_result = None, connect_call = Connect_failed 115, blocking_result = None,
     deadline_base = 0,
     polls = [\<lparr>poll_stop = False, poll_test_time = 1, poll_wait_time = 2, poll_select = Select_timeout,
                poll_error = Socket_error 0\<rparr>,
              \<lparr>poll_stop = False, poll_test_time = 250000003, poll_wait_time = 250000004,
                poll_select = Select_ready, poll_error = Socket_error 0\<rparr>],
     stopped_at_end = False\<rparr>"

theorem connect_sound_witness:
  "\<exists>p \<in> set (polls example_attempt). poll_select p = Select_ready"
  using connect_sound [of example_os example_client example_attempt]
  by (simp add: example_attempt_def connectClientWithTimeout_def isConnectInProgress_def error_code_defs
      kTcpConnectTimeout_def restore_blocking_def)

text \<open>
  Where the polls have only timed out so far, the loop has handed one timeout for each of them to \<open>select\<close>;
  when the deadline then falls between the two readings of the clock, the next one is negative, which makes
  \<open>select\<close> fail, and the attempt ends with that error instead of the message for the deadline.
\<close>

definition still_waiting :: "int \<Rightarrow> poll \<Rightarrow> bool" where
  "still_waiting deadline p \<longleftrightarrow> \<not> poll_stop p \<and> poll_test_time p < deadline \<and> poll_select p = Select_timeout"

lemma connect_loop_late:
  assumes "list_all (still_waiting deadline) ps"
    and "\<not> poll_stop p" and "poll_test_time p < deadline"
    and "deadline + 1000 \<le> poll_wait_time p" and "poll_wait_time p < deadline + 1000000000"
    and "poll_select p = Select_failed e"
  shows "fst (connect_loop cfg env deadline (ps @ p # rest)) =
      Some (Inl (tunnel_error (''Unable to wait for TCP connection to server '' @ server_name cfg @ ''. Error '' @
        show_int e @ ''!''))) \<and>
    (\<exists>timeouts usec. snd (connect_loop cfg env deadline (ps @ p # rest)) = timeouts @ [(0, usec)] \<and>
      length timeouts = length ps \<and> usec < 0)"
  using assms(1)
proof (induction ps)
  case Nil
  have "fst (poll_timeout deadline (poll_wait_time p)) = 0" "snd (poll_timeout deadline (poll_wait_time p)) < 0"
    using poll_timeout_late [OF assms(4,5)] by simp_all
  then show ?case
    using assms(2,3,6)
    by (auto simp: Let_def prod_eq_iff intro!: exI [of _ "snd (poll_timeout deadline (poll_wait_time p))"])
next
  case (Cons q qs)
  obtain timeouts usec where "snd (connect_loop cfg env deadline (qs @ p # rest)) = timeouts @ [(0, usec)]"
    "length timeouts = length qs" "usec < 0"
    using Cons by auto
  then show ?case
    using Cons
    by (auto simp: still_waiting_def case_prod_beta Let_def
        intro!: exI [of _ "poll_timeout deadline (poll_wait_time q) # timeouts"])
qed

text \<open>
  C30. The attempt ends. Once a stop is requested, or the clock has passed the ten seconds, at a test of
  the polling loop, the method returns or throws. Until then no wait in \<open>select\<close> exceeds 250
  milliseconds, provided the clock read for it is not past the deadline yet. But when the deadline falls
  between the two readings of the clock in a turn of the loop, the method hands \<open>select\<close> a negative timeout,
  and when \<open>select\<close> refuses it, throws that error and not the one for the deadline.
\<close>

theorem connect_ends:
  assumes "deadline = deadline_base env + kTcpConnectTimeout * 1000000000"
  shows "((\<exists>p \<in> set (polls env). poll_stop p \<or> deadline \<le> poll_test_time p) \<longrightarrow>
      fst (connectClientWithTimeout os cfg env) \<noteq> None) \<and>
    ((\<forall>p \<in> set (polls env). poll_wait_time p \<le> deadline) \<longrightarrow>
      (\<forall>(sec, usec) \<in> set (snd (connectClientWithTimeout os cfg env)).
         sec = 0 \<and> 0 \<le> usec \<and> usec \<le> 250000)) \<and>
    (\<forall>now. deadline + 1000 \<le> now \<and> now < deadline + 1000000000 \<longrightarrow>
      snd (poll_timeout deadline now) < 0) \<and>
    (\<forall>ps p rest code e. nonblocking_result env = None \<and> connect_call env = Connect_failed code \<and>
       isConnectInProgress (os_platform os) code \<and> polls env = ps @ p # rest \<and>
       list_all (still_waiting deadline) ps \<and> \<not> poll_stop p \<and> poll_test_time p < deadline \<and>
       deadline + 1000 \<le> poll_wait_time p \<and> poll_wait_time p < deadline + 1000000000 \<and>
       poll_select p = Select_failed e \<longrightarrow>
       fst (connectClientWithTimeout os cfg env) =
         Some (Inl (tunnel_error (''Unable to wait for TCP connection to server '' @ server_name cfg @
           ''. Error '' @ show_int e @ ''!''))) \<and>
       (\<exists>timeouts usec. snd (connectClientWithTimeout os cfg env) = timeouts @ [(0, usec)] \<and>
         length timeouts = length ps \<and> usec < 0))"
proof (intro conjI impI allI, goal_cases)
  case 1
  then show ?case
    using connect_loop_stops [of _ "polls env" deadline cfg env] assms
    by (auto simp: connectClientWithTimeout_def split: option.split connect_result.split)
next
  case 2
  then show ?case
    using connect_loop_timeouts [of "polls env" deadline cfg env] assms
    by (auto simp: connectClientWithTimeout_def split: option.split connect_result.split)
next
  case (3 now)
  then show ?case
    using poll_timeout_late by blast
next
  case (4 ps p rest code e)
  then show ?case
    using connect_loop_late [of deadline ps p e cfg env rest] assms by (simp add: connectClientWithTimeout_def)
next
  case (5 ps p rest code e)
  then show ?case
    using connect_loop_late [of deadline ps p e cfg env rest] assms by (simp add: connectClientWithTimeout_def)
qed

definition late_attempt :: connect_env where
  "late_attempt = example_attempt\<lparr>polls := [\<lparr>poll_stop = False, poll_test_time = 9999999999,
     poll_wait_time = 10000005000, poll_select = Select_failed 22, poll_error = Socket_error 0\<rparr>]\<rparr>"

theorem connect_ends_witness:
  "\<exists>usec. snd (connectClientWithTimeout example_os example_client late_attempt) = [(0, usec)] \<and> usec < 0"
  using connect_ends [of "kTcpConnectTimeout * 1000000000" late_attempt example_os example_client]
  by (simp add: late_attempt_def example_attempt_def kTcpConnectTimeout_def isConnectInProgress_def error_code_defs
      Cons_eq_append_conv)

text \<open>
  C32. A datagram longer than 1472 bytes never reaches the connection. Built without assertions, the
  client discards it with a warning and goes on; built with them, the assertion before the discarding
  branch ends the program.
\<close>

theorem client_jumbo:
  assumes "kMaxDatagramLength < length d"
  shows "if ndebug mode
    then \<exists>s'. client_iteration mode os (Udp_datagram d) t sends s = Running s' \<and>
      trace s' = trace s @ [Output (WARN (''Discarding jumbo datagram of '' @ to_string (length d) @ '' bytes!''))]
    else \<exists>s'. client_iteration mode os (Udp_datagram d) t sends s = Aborted s' \<and> trace s' = trace s"
  using assms by (auto simp: client_iteration_def Let_def)

theorem client_jumbo_witness:
  "\<exists>s'. client_iteration example_mode example_os (Udp_datagram (replicate 1473 0)) 0 []
      \<lparr>trace = [], packet = zero_packet\<rparr> = Aborted s' \<and> trace s' = []"
  using client_jumbo [of "replicate 1473 0" example_mode example_os 0 "[]" "\<lparr>trace = [], packet = zero_packet\<rparr>"]
  by (simp add: kMaxDatagramLength_def)

end
