(* ===== verification/Tunnel_Server.thy ===== *)
theory Tunnel_Server
  imports Tunneler Example_Run
begin

text \<open>
  The server side of \<open>src/src/DatagramTunneler.cpp\<close>: waiting for the one client, the loop that
  reassembles frames from the connection into the packet buffer and publishes each datagram, and the
  latency statistics. As on the client side the inputs of a run are lists.
\<close>

section \<open>Latency statistics\<close>

record server_state = io +
  buffer :: bytes
  write_pos :: nat
  len_to_read :: nat
  pub_group :: endpoint_address
  samples :: "double list"
  last_report :: nat

definition kLatencyReportInterval :: nat where "kLatencyReportInterval = 5 * 1000000000"

text \<open>\<open>samples_[static_cast<std::size_t>(std::ceil(p * static_cast<double>(samples_.size()))) - 1]\<close>.\<close>

definition report_index :: "double \<Rightarrow> nat \<Rightarrow> nat" where
  "report_index p n = nat \<lceil>double_mult p (double_of n)\<rceil> - 1"

definition report_percentile :: "double list \<Rightarrow> double \<Rightarrow> double" where
  "report_percentile sorted_samples p = sorted_samples ! report_index p (length sorted_samples)"

definition latency_report :: "double list \<Rightarrow> string" where
  "latency_report xs =
     (let sorted_samples = sort xs in
        ''Tunnel latency over the last interval: avg '' @ format_fixed 3 (average_latency sorted_samples) @
        '' ms, p50 '' @ format_fixed 3 (report_percentile sorted_samples p50) @
        '' ms, p99 '' @ format_fixed 3 (report_percentile sorted_samples p99) @
        '' ms, max '' @ format_fixed 3 (last sorted_samples) @
        '' ms ('' @ to_string (length xs) @ '' datagram'' @ (if length xs = 1 then '''' else ''s'') @ '')'')"

definition record_sample :: "double \<Rightarrow> server_state \<Rightarrow> server_state" where
  "record_sample milliseconds s = s\<lparr>samples := samples s @ [milliseconds]\<rparr>"

definition reportIfDue :: "run_mode \<Rightarrow> nat \<Rightarrow> server_state \<Rightarrow> server_state" where
  "reportIfDue mode now s =
     (if now - last_report s < kLatencyReportInterval \<or> samples s = [] then s
      else (let s' = (if compact_mode mode then s else emit [Output (INFO (latency_report (samples s)))] s)
            in s'\<lparr>samples := [], last_report := now\<rparr>))"

section \<open>One pass of the loop\<close>

text \<open>What \<open>recv\<close> on the connection returned; no bytes means that the client closed it.\<close>

datatype tcp_recv = Tcp_error int | Tcp_data bytes

text \<open>
  The inputs of a pass: a requested stop, or the result of \<open>recv\<close>, of \<open>sendto\<close> (an error code when it
  fails), the system clock in microseconds and the steady clock in nanoseconds.
\<close>

datatype server_input =
    Server_stop
  | Server_iteration tcp_recv "int option" u64 nat

definition latency_of :: "u64 \<Rightarrow> u64 \<Rightarrow> double" where
  "latency_of server_us client_us = double_div (double_of (unat (server_us - client_us))) (double_of 1000)"

definition publish_target :: "os \<Rightarrow> config \<Rightarrow> tunnel_packet \<Rightarrow> endpoint_address \<Rightarrow> endpoint_address" where
  "publish_target os cfg pkt fixed_target =
     (if use_clt_grp cfg then \<lparr>sin_port = htons (os_order os) (pkt_udp_dst_port pkt),
                               sin_addr = pkt_udp_dst_ip pkt\<rparr>
      else fixed_target)"

definition published_log ::
  "run_mode \<Rightarrow> os \<Rightarrow> tunnel_packet \<Rightarrow> endpoint_address \<Rightarrow> double option \<Rightarrow> output_call" where
  "published_log mode os pkt target latency =
     (let len = to_string (unat (pkt_datalen pkt));
          where_to = ''Published to '' @ os_inet_ntop os (sin_addr target) @ '':'' @
            to_string (unat (ntohs (os_order os) (sin_port target))) @ '' a '' @ len @
            '' byte datagram tunneled by client. Client side group was '' @
            os_inet_ntop os (pkt_udp_dst_ip pkt) @ '':'' @ to_string (unat (pkt_udp_dst_port pkt)) @
            ''. Latency: ''
      in case latency of
           Some ms \<Rightarrow>
             if compact_mode mode
             then LogCompactMessage Info (''published '' @ len @ '' B | '' @ format_fixed 3 ms @ '' ms'')
             else INFO (where_to @ format_fixed 3 ms @ '' ms'')
         | None \<Rightarrow>
             if compact_mode mode
             then LogCompactMessage Warning
               (''published '' @ len @ '' B | latency unavailable (client clock ahead)'')
             else INFO (where_to @ ''unavailable (client clock ahead)''))"

text \<open>
  A whole packet is in the buffer: reset the write position, publish, measure. The clocks and the
  result of \<open>sendto\<close> are the inputs of the pass.
\<close>

definition measure_latency ::
  "run_mode \<Rightarrow> tunnel_packet \<Rightarrow> u64 \<Rightarrow> nat \<Rightarrow> server_state \<Rightarrow> double option \<times> server_state" where
  "measure_latency mode pkt server_us now s =
     (if server_us < pkt_client_timestamp_us pkt then
        (None, emit [Output (WARN
           ''Client timestamp is ahead of the server clock; latency is unavailable for this datagram.'')] s)
      else
        (let ms = latency_of server_us (pkt_client_timestamp_us pkt)
         in (Some ms, reportIfDue mode now (record_sample ms (emit [Output (RecordLatency ms)] s)))))"

definition publish_packet ::
  "run_mode \<Rightarrow> os \<Rightarrow> config \<Rightarrow> int option \<Rightarrow> u64 \<Rightarrow> nat \<Rightarrow> server_state \<Rightarrow> server_state outcome" where
  "publish_packet mode os cfg sendto server_us now s =
     (let pkt = packet_of_image (os_order os) (buffer s);
          len = unat (pkt_datalen pkt);
          s = s\<lparr>write_pos := 0, len_to_read := kTunnelPacketPreambleLength\<rparr>;
          s = s\<lparr>pub_group := publish_target os cfg pkt (pub_group s)\<rparr>
      in case sendto of
           Some e \<Rightarrow> Threw (tunnel_error (''Unable to publish multicast data, sendto() error '' @
                       show_int e @ ''!'')) s
         | None \<Rightarrow>
             (let s = emit [Published (pub_group s) (take len (pkt_databuf pkt)),
                            Output (RecordDatagram len)] s;
                  (latency, s) = measure_latency mode pkt server_us now s
              in Running (emit [Observed len latency,
                                Output (published_log mode os pkt (pub_group s) latency)] s)))"

text \<open>The checks on the bytes received so far, once \<open>recv\<close> delivered some.\<close>

definition handle_received ::
  "run_mode \<Rightarrow> os \<Rightarrow> config \<Rightarrow> int option \<Rightarrow> u64 \<Rightarrow> nat \<Rightarrow> server_state \<Rightarrow> server_state outcome" where
  "handle_received mode os cfg sendto server_us now s =
     (let data_len = write_pos s;
          pkt = packet_of_image (os_order os) (buffer s)
      in if data_len < kTunnelPacketPreambleLength then
           Running (s\<lparr>len_to_read := kTunnelPacketPreambleLength - data_len\<rparr>)
         else if pkt_protocol_version pkt \<noteq> kDtepProtocolVersion then
           Threw (tunnel_error (''Unsupported DTEP protocol version '' @
             to_string (unat (pkt_protocol_version pkt)) @ '' (this server requires version '' @
             to_string (unat kDtepProtocolVersion) @ '')'')) s
         else if pkt_type pkt = Heartbeat then
           (let s = s\<lparr>write_pos := 0, len_to_read := kTunnelPacketPreambleLength\<rparr>;
                s = (if verbose_mode mode
                     then emit [Output (INFO ''Heartbeat received from TCP client.'')] s else s)
            in Running (reportIfDue mode now s))
         else if pkt_type pkt \<noteq> Datagram then
           Threw (tunnel_error (''Unsupported DTEP packet type '' @ to_string (unat (pkt_type pkt)))) s
         else if data_len < kTunnelPacketHeaderLength then
           Running (s\<lparr>len_to_read := kTunnelPacketHeaderLength - data_len\<rparr>)
         else if data_len < packet_size pkt then
           Running (s\<lparr>len_to_read := packet_size pkt - data_len\<rparr>)
         else if \<not> ndebug mode \<and> data_len \<noteq> packet_size pkt then Aborted s
         else publish_packet mode os cfg sendto server_us now s)"

definition server_iteration ::
  "run_mode \<Rightarrow> os \<Rightarrow> config \<Rightarrow> tcp_recv \<Rightarrow> int option \<Rightarrow> u64 \<Rightarrow> nat \<Rightarrow> server_state \<Rightarrow>
   server_state outcome" where
  "server_iteration mode os cfg received sendto server_us now s =
     (if \<not> ndebug mode \<and> len_to_read s = 0 then Aborted s
      else case received of
        Tcp_error e \<Rightarrow>
          if isReceiveTimeout (os_platform os) e then
            Returned (emit [Output (INFO ''Client has been silent for too long. Terminating'')] s)
          else
            Threw (tunnel_error (''Unable to read data from TCP socket, recv() error '' @ show_int e @ ''!'')) s
      | Tcp_data data \<Rightarrow>
          if data = [] then Returned (emit [Output (INFO ''Client terminated!'')] s)
          else
            (case write_at (write_pos s) data (buffer s) of
               None \<Rightarrow> Out_of_bounds s
             | Some buf \<Rightarrow>
                 handle_received mode os cfg sendto server_us now
                   (s\<lparr>buffer := buf, write_pos := write_pos s + length data\<rparr>)))"

fun server_loop ::
  "run_mode \<Rightarrow> os \<Rightarrow> config \<Rightarrow> server_input list \<Rightarrow> server_state \<Rightarrow> server_state outcome" where
  "server_loop mode os cfg [] s = Running s"
| "server_loop mode os cfg (Server_stop # inputs) s = Returned s"
| "server_loop mode os cfg (Server_iteration received sendto server_us now # inputs) s =
     (case server_iteration mode os cfg received sendto server_us now s of
        Running s' \<Rightarrow> server_loop mode os cfg inputs s'
      | result \<Rightarrow> result)"

section \<open>Waiting for the client\<close>

datatype accept_event = Accept_stop | Accept_failed int | Accepted

datatype accept_outcome = Client_accepted | No_client | Accept_error string | Accept_pending

fun accept_loop :: "os \<Rightarrow> accept_event list \<Rightarrow> accept_outcome" where
  "accept_loop os [] = Accept_pending"
| "accept_loop os (Accept_stop # events) = No_client"
| "accept_loop os (Accepted # events) = Client_accepted"
| "accept_loop os (Accept_failed e # events) =
     (if isReceiveTimeout (os_platform os) e then accept_loop os events
      else Accept_error (tunnel_error (''Unable to accept incoming TCP connection, accept() error '' @
        show_int e @ ''!'')))"

text \<open>The results of the calls before the loop (an error code when one fails) and the starting time.\<close>

record server_env =
  listen_result :: "int option"
  listen_timeout_result :: "int option"
  accepts :: "accept_event list"
  client_timeout_result :: "int option"
  start_time :: nat

definition initial_group :: "os \<Rightarrow> config \<Rightarrow> endpoint_address" where
  "initial_group os cfg =
     (if use_clt_grp cfg then \<lparr>sin_port = 0, sin_addr = 0\<rparr>
      else \<lparr>sin_port = htons (os_order os) (udp_dst_port cfg),
            sin_addr = os_inet_addr os (c_str (udp_dst_ip cfg))\<rparr>)"

definition initial_server :: "os \<Rightarrow> config \<Rightarrow> nat \<Rightarrow> effect list \<Rightarrow> server_state" where
  "initial_server os cfg now es =
     \<lparr>trace = es, buffer = replicate sizeof_TunnelPacket 0, write_pos = 0,
      len_to_read = kTunnelPacketPreambleLength, pub_group = initial_group os cfg, samples = [],
      last_report = now\<rparr>"

definition runServer ::
  "run_mode \<Rightarrow> os \<Rightarrow> config \<Rightarrow> server_env \<Rightarrow> server_input list \<Rightarrow> server_state outcome" where
  "runServer mode os cfg env inputs =
     (let s = emit ([Output (if compact_mode mode then LogCompactMessage Info ''listening for client''
                 else INFO (''[DatagramTunneler][SERVER MODE] listening for client connection on port '' @
                   to_string (unat (tcp_srv_port cfg)) @ ''...''))] @
               (if use_clt_grp cfg then [Output (WARN (''Client-group replication must use different '' @
                  ''source and destination subnets to avoid multicast feedback loops.''))] else []))
              (initial_server os cfg (start_time env) [])
      in case listen_result env of
           Some e \<Rightarrow> Threw (tunnel_error (''Unable to listen on TCP port '' @
             to_string (unat (tcp_srv_port cfg)) @ '', error '' @ show_int e @ ''!'')) s
         | None \<Rightarrow>
        (case listen_timeout_result env of
           Some e \<Rightarrow> Threw (tunnel_error (''Could not set TCP listen timeout! Error '' @ show_int e)) s
         | None \<Rightarrow>
        (case accept_loop os (accepts env) of
           Accept_pending \<Rightarrow> Blocked s
         | Accept_error message \<Rightarrow> Threw message s
         | No_client \<Rightarrow> Returned s
         | Client_accepted \<Rightarrow>
             (let s = emit [Output (if compact_mode mode then LogCompactMessage Info ''client connected''
                        else INFO (''Accepted incoming connection from a remote host. '' @
                          ''Waiting for forwarded datagrams...''))] s
              in case client_timeout_result env of
                   Some e \<Rightarrow> Threw (tunnel_error (''Could not set receive timeout on TCP socket! Error '' @
                     show_int e)) s
                 | None \<Rightarrow> server_loop mode os cfg inputs s))))"

section \<open>What the passes leave alone\<close>

lemma reportIfDue_simps [simp]:
  "buffer (reportIfDue mode now s) = buffer s" "write_pos (reportIfDue mode now s) = write_pos s"
  "len_to_read (reportIfDue mode now s) = len_to_read s"
  "pub_group (reportIfDue mode now s) = pub_group s"
  "published (trace (reportIfDue mode now s)) = published (trace s)"
  by (simp_all add: reportIfDue_def emit_def Let_def)

lemma record_sample_simps [simp]:
  "buffer (record_sample ms s) = buffer s" "write_pos (record_sample ms s) = write_pos s"
  "len_to_read (record_sample ms s) = len_to_read s" "pub_group (record_sample ms s) = pub_group s"
  "trace (record_sample ms s) = trace s"
  by (simp_all add: record_sample_def)

lemma emit_server_simps [simp]:
  "buffer (emit es s) = buffer s" "write_pos (emit es s) = write_pos s"
  "len_to_read (emit es s) = len_to_read s" "pub_group (emit es s) = pub_group s"
  by (simp_all add: emit_def)

lemma measure_latency_simps [simp]:
  "buffer (snd (measure_latency mode pkt us now s)) = buffer s"
  "write_pos (snd (measure_latency mode pkt us now s)) = write_pos s"
  "len_to_read (snd (measure_latency mode pkt us now s)) = len_to_read s"
  "pub_group (snd (measure_latency mode pkt us now s)) = pub_group s"
  "published (trace (snd (measure_latency mode pkt us now s))) = published (trace s)"
  by (simp_all add: measure_latency_def Let_def)

section \<open>The buffer\<close>

text \<open>
  The invariant of the loop: the bytes in the buffer and the bytes asked for end at the preamble, at the
  header or at the end of the packet whose header is in the buffer.
\<close>

definition read_goal :: "os \<Rightarrow> server_state \<Rightarrow> nat" where
  "read_goal os s =
     (if write_pos s < 2 then 2 else if write_pos s < 18 then 18
      else packet_size (packet_of_image (os_order os) (buffer s)))"

definition server_inv :: "os \<Rightarrow> server_state \<Rightarrow> bool" where
  "server_inv os s \<longleftrightarrow>
     length (buffer s) = sizeof_TunnelPacket \<and> 0 < len_to_read s \<and>
     write_pos s + len_to_read s = read_goal os s"

text \<open>The length field, once the header is there, names a datagram that fits.\<close>

definition declared_fits :: "os \<Rightarrow> server_state \<Rightarrow> bool" where
  "declared_fits os s \<longleftrightarrow>
     (18 \<le> write_pos s \<longrightarrow>
      unat (pkt_datalen (packet_of_image (os_order os) (buffer s))) \<le> kMaxDatagramLength)"

lemma packet_size_bound:
  "unat (pkt_datalen pkt) \<le> kMaxDatagramLength \<Longrightarrow> packet_size pkt \<le> sizeof_TunnelPacket"
  by (simp add: packet_size_def protocol_constants sizeof_packet)

lemma header_unchanged:
  assumes "take 18 buf' = take 18 buf" and "18 \<le> length buf" and "length buf' = length buf"
  shows "packet_size (packet_of_image ord buf') = packet_size (packet_of_image ord buf)"
proof -
  have "buf' ! 0 = buf ! 0"
    using nth_of_take_eq [OF assms(1), of 0] by simp
  moreover have "take (8 + 2) buf' = take (8 + 2) buf"
    by (rule take_le_eq [OF assms(1)]) simp
  then have "field_at 8 2 buf' = field_at 8 2 buf"
    by (rule field_at_agree)
  ultimately show ?thesis
    by (simp add: packet_size_def packet_of_image_def)
qed

fun safe_outcome :: "os \<Rightarrow> server_state outcome \<Rightarrow> bool" where
  "safe_outcome os (Running s) = server_inv os s"
| "safe_outcome os (Aborted s) = False"
| "safe_outcome os (Out_of_bounds s) = False"
| "safe_outcome os _ = True"

lemma publish_packet_safe:
  assumes "length (buffer s) = sizeof_TunnelPacket"
  shows "safe_outcome os (publish_packet mode os cfg sendto us now s)"
  using assms
  by (cases sendto)
    (auto simp: publish_packet_def Let_def case_prod_beta server_inv_def read_goal_def
      kTunnelPacketPreambleLength_def)

lemma handle_received_safe:
  assumes "length (buffer s) = sizeof_TunnelPacket"
    and "18 < write_pos s \<Longrightarrow> write_pos s \<le> packet_size (packet_of_image (os_order os) (buffer s))"
  shows "safe_outcome os (handle_received mode os cfg sendto us now s)"
proof -
  let ?pkt = "packet_of_image (os_order os) (buffer s)"
  consider (short) "write_pos s < 2" | (version) "2 \<le> write_pos s" "pkt_protocol_version ?pkt \<noteq> kDtepProtocolVersion"
    | (heartbeat) "2 \<le> write_pos s" "pkt_protocol_version ?pkt = kDtepProtocolVersion" "pkt_type ?pkt = Heartbeat"
    | (other) "2 \<le> write_pos s" "pkt_protocol_version ?pkt = kDtepProtocolVersion"
        "pkt_type ?pkt \<noteq> Heartbeat" "pkt_type ?pkt \<noteq> Datagram"
    | (header) "2 \<le> write_pos s" "write_pos s < 18" "pkt_protocol_version ?pkt = kDtepProtocolVersion"
        "pkt_type ?pkt \<noteq> Heartbeat" "pkt_type ?pkt = Datagram"
    | (body) "18 \<le> write_pos s" "pkt_protocol_version ?pkt = kDtepProtocolVersion"
        "pkt_type ?pkt \<noteq> Heartbeat" "pkt_type ?pkt = Datagram"
    by linarith
  then show ?thesis
  proof cases
    case body
    have size: "18 \<le> packet_size ?pkt"
      using body by (simp add: packet_size_def kTunnelPacketHeaderLength_def)
    show ?thesis
    proof (cases "write_pos s < packet_size ?pkt")
      case True
      with body assms(1) show ?thesis
        by (simp add: handle_received_def Let_def kTunnelPacketPreambleLength_def
            kTunnelPacketHeaderLength_def server_inv_def read_goal_def)
    next
      case False
      then have "write_pos s = packet_size ?pkt"
        using assms(2) size body(1) by (cases "write_pos s = 18") auto
      with body False publish_packet_safe [OF assms(1)] show ?thesis
        by (simp add: handle_received_def Let_def kTunnelPacketPreambleLength_def
            kTunnelPacketHeaderLength_def)
    qed
  qed (use assms(1) in \<open>auto simp: handle_received_def Let_def kTunnelPacketPreambleLength_def
      kTunnelPacketHeaderLength_def server_inv_def read_goal_def\<close>)
qed

lemma server_pass_safe:
  assumes "server_inv os s" and "declared_fits os s" and "length data \<le> len_to_read s"
  shows "safe_outcome os (server_iteration mode os cfg (Tcp_data data) sendto us now s)"
proof (cases "data = []")
  case True
  with assms(1) show ?thesis
    by (simp add: server_iteration_def server_inv_def)
next
  case False
  let ?size = "packet_size (packet_of_image (os_order os) (buffer s))"
  have inv: "length (buffer s) = 1490" "0 < len_to_read s" "write_pos s + len_to_read s = read_goal os s"
    using assms(1) by (simp_all add: server_inv_def sizeof_packet)
  have "read_goal os s \<le> 1490"
    using assms(2) packet_size_bound by (auto simp: read_goal_def declared_fits_def sizeof_packet)
  then have "write_pos s + length data \<le> length (buffer s)"
    using inv assms(3) by simp
  then obtain buf where w: "write_at (write_pos s) data (buffer s) = Some buf"
    by (auto simp: write_at_def)
  have "write_pos s + length data \<le> packet_size (packet_of_image (os_order os) buf)"
    if "18 < write_pos s + length data"
  proof -
    have "18 \<le> write_pos s"
      using that inv assms(3) by (auto simp: read_goal_def split: if_splits)
    moreover have "take (write_pos s) buf = take (write_pos s) (buffer s)"
      by (rule write_at_before [OF w])
    ultimately have "packet_size (packet_of_image (os_order os) buf) = ?size"
      using write_at_length [OF w] inv by (intro header_unchanged) (auto dest: take_le_eq)
    with \<open>18 \<le> write_pos s\<close> inv assms(3) show ?thesis
      by (simp add: read_goal_def)
  qed
  then have "safe_outcome os (handle_received mode os cfg sendto us now
      (s\<lparr>buffer := buf, write_pos := write_pos s + length data\<rparr>))"
    using write_at_length [OF w] inv by (intro handle_received_safe) (simp_all add: sizeof_packet)
  with False w inv show ?thesis
    by (simp add: server_iteration_def)
qed

text \<open>
  The inputs a kernel and a well-behaved client give: \<open>recv\<close> delivers at most what was asked for, and
  no header announces more than 1472 bytes.
\<close>

fun lawful_inputs :: "run_mode \<Rightarrow> os \<Rightarrow> config \<Rightarrow> server_input list \<Rightarrow> server_state \<Rightarrow> bool" where
  "lawful_inputs mode os cfg [] s = True"
| "lawful_inputs mode os cfg (Server_stop # inputs) s = True"
| "lawful_inputs mode os cfg (Server_iteration received sendto us now # inputs) s =
     ((case received of Tcp_error e \<Rightarrow> True
        | Tcp_data data \<Rightarrow> length data \<le> len_to_read s \<and> declared_fits os s) \<and>
      (case server_iteration mode os cfg received sendto us now s of
         Running s' \<Rightarrow> lawful_inputs mode os cfg inputs s' | _ \<Rightarrow> True))"

lemma server_iteration_safe:
  assumes "server_inv os s"
    and "case received of Tcp_error e \<Rightarrow> True
      | Tcp_data data \<Rightarrow> length data \<le> len_to_read s \<and> declared_fits os s"
  shows "safe_outcome os (server_iteration mode os cfg received sendto us now s)"
  using assms server_pass_safe [of os s]
  by (cases received) (auto simp: server_iteration_def server_inv_def)

lemma server_loop_safe:
  assumes "server_inv os s" and "lawful_inputs mode os cfg inputs s"
  shows "safe_outcome os (server_loop mode os cfg inputs s)"
  using assms
proof (induction mode os cfg inputs s rule: server_loop.induct)
  case (3 mode os cfg received sendto us now inputs s)
  have safe: "safe_outcome os (server_iteration mode os cfg received sendto us now s)"
    using 3 by (intro server_iteration_safe) (auto split: tcp_recv.splits)
  show ?case
  proof (cases "server_iteration mode os cfg received sendto us now s")
    case (Running s')
    with 3 safe show ?thesis by (auto split: tcp_recv.splits)
  qed (use safe in simp_all)
qed simp_all

lemma server_inv_initial: "server_inv os (initial_server os cfg now es)"
  by (simp add: server_inv_def initial_server_def read_goal_def kTunnelPacketPreambleLength_def)

text \<open>
  C3. While no header announces more than 1472 bytes, the loop is safe on any bytes at all, of any
  client: no write of \<open>recv\<close> leaves the packet buffer, none of the assertions fails, and after each
  pass the bytes asked for end at the preamble, the header or the end of the announced packet, inside
  the buffer.
\<close>

theorem server_memory_safe:
  assumes "lawful_inputs mode os cfg inputs (initial_server os cfg now es)"
  shows "safe_outcome os (server_loop mode os cfg inputs (initial_server os cfg now es))"
  using server_inv_initial assms by (rule server_loop_safe)

theorem server_memory_safe_witness:
  "safe_outcome example_os (server_loop example_mode example_os example_server
      [Server_iteration (Tcp_data [1]) None 0 0, Server_iteration (Tcp_data [7]) None 0 0]
      (initial_server example_os example_server 0 []))"
  by (rule server_memory_safe)
    (simp add: server_iteration_def handle_received_def initial_server_def write_at_def sizeof_packet
      declared_fits_def protocol_constants packet_of_image_def Let_def)

section \<open>The preamble\<close>

lemma server_loop_append:
  "server_loop mode os cfg (inputs @ later) s =
     (case server_loop mode os cfg inputs s of Running s' \<Rightarrow> server_loop mode os cfg later s' | result \<Rightarrow> result)"
  by (induction mode os cfg inputs s rule: server_loop.induct) (auto split: outcome.split)

text \<open>The state when the two bytes of a preamble have arrived, in one piece or one by one.\<close>

definition has_preamble :: "os \<Rightarrow> u8 \<Rightarrow> u8 \<Rightarrow> server_state \<Rightarrow> bool" where
  "has_preamble os a b s \<longleftrightarrow> write_pos s = 2 \<and> pkt_type (packet_of_image (os_order os) (buffer s)) = a \<and>
     pkt_protocol_version (packet_of_image (os_order os) (buffer s)) = b"

lemma preamble_pass:
  assumes "length (buffer s) = sizeof_TunnelPacket" and "len_to_read s \<noteq> 0"
  shows "write_pos s = 0 \<Longrightarrow> \<exists>s1. has_preamble os a b s1 \<and> trace s1 = trace s \<and>
      server_iteration mode os cfg (Tcp_data [a, b]) sendto us now s = handle_received mode os cfg sendto us now s1"
    and "write_pos s = 0 \<Longrightarrow> \<exists>s1. server_iteration mode os cfg (Tcp_data [a]) sendto us now s = Running s1 \<and>
      trace s1 = trace s \<and> length (buffer s1) = sizeof_TunnelPacket \<and> len_to_read s1 \<noteq> 0 \<and>
      write_pos s1 = 1 \<and> buffer s1 ! 0 = a"
    and "write_pos s = 1 \<Longrightarrow> buffer s ! 0 = a \<Longrightarrow> \<exists>s1. has_preamble os a b s1 \<and> trace s1 = trace s \<and>
      server_iteration mode os cfg (Tcp_data [b]) sendto us now s = handle_received mode os cfg sendto us now s1"
proof -
  obtain c d rest where buf: "buffer s = c # d # rest" "length rest = 1488"
    using assms(1) by (cases "buffer s"; cases "tl (buffer s)") (auto simp: sizeof_packet)
  show "\<exists>s1. has_preamble os a b s1 \<and> trace s1 = trace s \<and>
      server_iteration mode os cfg (Tcp_data [a, b]) sendto us now s = handle_received mode os cfg sendto us now s1"
    if "write_pos s = 0"
    using that assms(2) buf
    by (intro exI [of _ "s\<lparr>buffer := a # b # rest, write_pos := 2\<rparr>"])
      (simp add: server_iteration_def write_at_def has_preamble_def packet_of_image_def numeral_2_eq_2)
  show "\<exists>s1. server_iteration mode os cfg (Tcp_data [a]) sendto us now s = Running s1 \<and> trace s1 = trace s \<and>
      length (buffer s1) = sizeof_TunnelPacket \<and> len_to_read s1 \<noteq> 0 \<and> write_pos s1 = 1 \<and> buffer s1 ! 0 = a"
    if "write_pos s = 0"
    using that assms(2) buf
    by (simp add: server_iteration_def write_at_def handle_received_def kTunnelPacketPreambleLength_def sizeof_packet)
  show "\<exists>s1. has_preamble os a b s1 \<and> trace s1 = trace s \<and>
      server_iteration mode os cfg (Tcp_data [b]) sendto us now s = handle_received mode os cfg sendto us now s1"
    if "write_pos s = 1" "buffer s ! 0 = a"
    using that assms(2) buf
    by (intro exI [of _ "s\<lparr>buffer := a # b # rest, write_pos := 2\<rparr>"])
      (simp add: server_iteration_def write_at_def has_preamble_def packet_of_image_def numeral_2_eq_2)
qed

definition preamble_error :: "u8 \<Rightarrow> u8 \<Rightarrow> string" where
  "preamble_error a b =
     (if b \<noteq> kDtepProtocolVersion
      then ''Unsupported DTEP protocol version '' @ to_string (unat b) @ '' (this server requires version 2)''
      else ''Unsupported DTEP packet type '' @ to_string (unat a))"

lemma bad_preamble:
  assumes "has_preamble os a b s" and "b \<noteq> kDtepProtocolVersion \<or> a \<noteq> Heartbeat \<and> a \<noteq> Datagram"
  shows "handle_received mode os cfg sendto us now s = Threw (preamble_error a b) s"
proof -
  have short: "length (to_string (unat x)) \<le> 3" for x :: u8
  proof -
    have "unat x < 256"
      using unsigned_less [of x] by simp
    then show ?thesis
      by (intro length_to_string_le) simp_all
  qed
  have two: "to_string (unat kDtepProtocolVersion) = ''2''"
    by (simp add: kDtepProtocolVersion_def to_string.simps digit_char_simps)
  have "tunnel_error (''Unsupported DTEP protocol version '' @ to_string (unat b) @
      '' (this server requires version '' @ ''2'' @ '')'') =
    ''Unsupported DTEP protocol version '' @ to_string (unat b) @ '' (this server requires version 2)''"
    using short [of b] by (subst tunnel_error_short) simp_all
  moreover have "tunnel_error (''Unsupported DTEP packet type '' @ to_string (unat a)) =
    ''Unsupported DTEP packet type '' @ to_string (unat a)"
    using short [of a] by (intro tunnel_error_short) simp
  moreover have "handle_received mode os cfg sendto us now s =
      Threw (if b \<noteq> kDtepProtocolVersion
        then tunnel_error (''Unsupported DTEP protocol version '' @ to_string (unat b) @
          '' (this server requires version '' @ to_string (unat kDtepProtocolVersion) @ '')'')
        else tunnel_error (''Unsupported DTEP packet type '' @ to_string (unat a))) s"
    using assms by (simp add: handle_received_def has_preamble_def kTunnelPacketPreambleLength_def Let_def)
  ultimately show ?thesis
    unfolding two by (simp only: preamble_error_def)
qed

text \<open>
  C25. Wherever a frame begins, on the first frame or after any others, and whether its first two bytes arrive
  together or one by one: if they name another protocol version, or a type that is neither a heartbeat nor
  a datagram, the run ends there with an exception that names the value, the version before the type, and
  nothing is published, told to the observer or logged for this frame, whatever would come after it.
\<close>

theorem server_rejects_preamble:
  assumes "lawful_inputs mode os cfg earlier (initial_server os cfg t es)"
    and "server_loop mode os cfg earlier (initial_server os cfg t es) = Running s" and "write_pos s = 0"
    and "preamble = [Server_iteration (Tcp_data [a, b]) sendto us now] \<or>
      preamble = [Server_iteration (Tcp_data [a]) sendto us now, Server_iteration (Tcp_data [b]) sendto' us' now']"
    and "b \<noteq> kDtepProtocolVersion \<or> a \<noteq> Heartbeat \<and> a \<noteq> Datagram"
  shows "\<exists>s'. server_loop mode os cfg (earlier @ preamble @ later) (initial_server os cfg t es) =
      Threw (if b \<noteq> kDtepProtocolVersion
        then ''Unsupported DTEP protocol version '' @ to_string (unat b) @ '' (this server requires version 2)''
        else ''Unsupported DTEP packet type '' @ to_string (unat a)) s' \<and>
      trace s' = trace s"
proof -
  have "server_inv os s"
    using server_loop_safe [OF server_inv_initial assms(1)] by (simp add: assms(2))
  then have rest: "length (buffer s) = sizeof_TunnelPacket" "len_to_read s \<noteq> 0"
    by (simp_all add: server_inv_def)
  have "\<exists>s'. server_loop mode os cfg (preamble @ later) s = Threw (preamble_error a b) s' \<and> trace s' = trace s"
  proof (cases "preamble = [Server_iteration (Tcp_data [a, b]) sendto us now]")
    case True
    obtain s1 where "has_preamble os a b s1" "trace s1 = trace s"
      "server_iteration mode os cfg (Tcp_data [a, b]) sendto us now s = handle_received mode os cfg sendto us now s1"
      using preamble_pass(1) [OF rest assms(3)] by blast
    then show ?thesis
      using True bad_preamble [OF _ assms(5)] by auto
  next
    case False
    obtain s1 where s1: "server_iteration mode os cfg (Tcp_data [a]) sendto us now s = Running s1" "trace s1 = trace s"
      "length (buffer s1) = sizeof_TunnelPacket" "len_to_read s1 \<noteq> 0" "write_pos s1 = 1" "buffer s1 ! 0 = a"
      using preamble_pass(2) [OF rest assms(3)] by blast
    obtain s2 where "has_preamble os a b s2" "trace s2 = trace s1"
      "server_iteration mode os cfg (Tcp_data [b]) sendto' us' now' s1 = handle_received mode os cfg sendto' us' now' s2"
      using preamble_pass(3) [OF s1(3-6)] by blast
    then show ?thesis
      using False assms(4) s1(1,2) bad_preamble [OF _ assms(5)] by auto
  qed
  then show ?thesis
    by (simp add: server_loop_append assms(2) preamble_error_def)
qed

text \<open>After a heartbeat, a frame whose type arrives before its version.\<close>

theorem server_rejects_preamble_witness:
  "\<exists>s'. server_loop example_mode example_os example_server
      [Server_iteration (Tcp_data [Heartbeat, 2]) None 0 0, Server_iteration (Tcp_data [7]) None 0 0,
       Server_iteration (Tcp_data [2]) None 0 0]
      (initial_server example_os example_server 0 []) =
    Threw (''Unsupported DTEP packet type '' @ to_string 7) s'"
proof -
  let ?i = "initial_server example_os example_server 0 []"
  let ?hb = "[Server_iteration (Tcp_data [Heartbeat, 2]) None 0 0]"
  obtain s1 where "has_preamble example_os Heartbeat 2 s1" "trace s1 = []"
    "server_iteration example_mode example_os example_server (Tcp_data [Heartbeat, 2]) None 0 0 ?i =
      handle_received example_mode example_os example_server None 0 0 s1"
    using preamble_pass(1) [of ?i example_os Heartbeat 2 example_mode example_server None 0 0]
    by (auto simp: initial_server_def kTunnelPacketPreambleLength_def)
  then obtain s where s: "server_iteration example_mode example_os example_server (Tcp_data [Heartbeat, 2]) None 0 0 ?i =
      Running s" "write_pos s = 0"
    by (auto simp: handle_received_def has_preamble_def protocol_constants Let_def)
  have lawful: "lawful_inputs example_mode example_os example_server ?hb ?i"
    using s(1) by (simp add: initial_server_def declared_fits_def kTunnelPacketPreambleLength_def)
  have bad: "2 \<noteq> kDtepProtocolVersion \<or> (7 :: u8) \<noteq> Heartbeat \<and> (7 :: u8) \<noteq> Datagram"
    by (simp add: protocol_constants)
  have "server_loop example_mode example_os example_server ?hb ?i = Running s"
    using s(1) by simp
  from server_rejects_preamble [OF lawful this s(2) disjI2 [OF refl] bad, of None 0 0 None 0 0 "[]"]
  show ?thesis
    by (auto simp: protocol_constants)
qed

section \<open>Latencies\<close>

lemma report_index_bound:
  assumes "0 < n" and "n \<le> 2 ^ 53" and "1 / 2 \<le> p" and "p \<le> 1"
  shows "0 < \<lceil>double_mult p (double_of n)\<rceil> \<and> report_index p n < n"
proof -
  have d: "double_of n = of_nat n"
    using assms(2) by simp
  have "p * of_nat n \<le> of_nat n"
    using assms(4) by (simp add: mult_le_cancel_right2)
  then have "double_mult p (double_of n) \<le> fl (of_nat n)"
    unfolding double_mult_def d by (rule fl_mono)
  also have "\<dots> = of_nat n"
    using assms(2) by (rule fl_of_nat)
  finally have upper: "\<lceil>double_mult p (double_of n)\<rceil> \<le> int n"
    by (simp add: ceiling_le_iff)
  have "(1 / 2 :: rat) * 1 \<le> p * of_nat n"
    using assms(1,3) by (intro mult_mono) simp_all
  then have "fl (1 / 2) \<le> double_mult p (double_of n)"
    unfolding double_mult_def d by (intro fl_mono) simp
  moreover have "0 < fl (1 / 2)"
    by code_simp
  ultimately have "0 < \<lceil>double_mult p (double_of n)\<rceil>"
    by simp
  moreover have "nat \<lceil>double_mult p (double_of n)\<rceil> \<le> n"
    using upper by simp
  ultimately show ?thesis
    using assms(1) unfolding report_index_def by linarith
qed

lemma report_percentile_nth:
  assumes "xs \<noteq> []" and "length xs \<le> 2 ^ 53" and "1 / 2 \<le> p" and "p \<le> 1"
  shows "report_percentile (sort xs) p \<in> set xs"
  using report_index_bound [of "length xs" p] assms nth_mem [of "report_index p (length xs)" "sort xs"]
  by (simp add: report_percentile_def)

lemma report_index_mono: "p \<le> q \<Longrightarrow> report_index p n \<le> report_index q n"
  by (auto simp: report_index_def double_mult_def double_of_def
      intro!: diff_le_mono nat_mono ceiling_mono fl_mono mult_right_mono)

lemma p50_half: "1 / 2 \<le> p50" "1 / 2 \<le> p99"
proof -
  show "1 / 2 \<le> p50"
    by code_simp
  with p50_p99(1) show "1 / 2 \<le> p99"
    by linarith
qed

text \<open>
  The interval report never reads outside the samples: for one or more of them, neither
  \<open>std::ceil(p * n) - 1\<close> wraps below zero nor does it reach \<open>n\<close>, as floating-point arithmetic computes
  it for p50 and p99, and p50 \<open>\<le>\<close> p99 \<open>\<le>\<close> the maximum.
\<close>

theorem report_percentiles:
  assumes "samples s \<noteq> []" and "length (samples s) \<le> 2 ^ 53"
  shows "let xs = sort (samples s); n = length xs in
    (\<forall>p \<in> {p50, p99}. 0 < \<lceil>double_mult p (double_of n)\<rceil> \<and> report_index p n < n \<and>
       report_percentile xs p \<in> set (samples s)) \<and>
    report_percentile xs p50 \<le> report_percentile xs p99 \<and> report_percentile xs p99 \<le> last xs"
proof -
  let ?xs = "sort (samples s)"
  have n: "0 < length (samples s)"
    using assms(1) by simp
  note bounds = report_index_bound [OF n assms(2) p50_half(1) p50_p99(3)]
    report_index_bound [OF n assms(2) p50_half(2) p50_p99(2)]
  have "?xs ! report_index p50 (length ?xs) \<le> ?xs ! report_index p99 (length ?xs)"
    using bounds report_index_mono [OF p50_p99(1)] by (intro sorted_nth_mono) auto
  moreover have "?xs ! report_index p99 (length ?xs) \<le> ?xs ! (length ?xs - 1)"
    using bounds by (intro sorted_nth_mono) auto
  moreover have "last ?xs = ?xs ! (length ?xs - 1)"
    using assms(1) by (intro last_conv_nth) (metis length_0_conv length_sort)
  ultimately show ?thesis
    using bounds report_percentile_nth [OF assms p50_half(1) p50_p99(3)]
      report_percentile_nth [OF assms p50_half(2) p50_p99(2)]
    by (simp add: Let_def report_percentile_def)
qed

theorem report_percentiles_witness:
  "report_percentile (sort [3, 1, 2]) p50 \<le> report_percentile (sort [3, 1, 2]) p99"
  using report_percentiles [of "(initial_server example_os example_server 0 [])\<lparr>samples := [3, 1, 2]\<rparr>"]
  by (simp add: Let_def)

lemma latency_of_error:
  assumes "client_us \<le> server_us" and "unat server_us - unat client_us \<le> 2 ^ 53"
  shows "\<bar>latency_of server_us client_us - of_nat (unat server_us - unat client_us) / 1000\<bar> \<le>
    of_nat (unat server_us - unat client_us) / 1000 / 2 ^ 53"
proof -
  have "unat (server_us - client_us) = unat server_us - unat client_us"
    using assms(1) by (simp add: unat_sub)
  then have "latency_of server_us client_us = fl (of_nat (unat server_us - unat client_us) / 1000)"
    using assms(2) by (simp add: latency_of_def double_div_def)
  then show ?thesis
    using fl_error [of "of_nat (unat server_us - unat client_us) / 1000"] by simp
qed

lemma measure_latency_cases:
  "measure_latency mode pkt us now s =
     (if us < pkt_client_timestamp_us pkt then None else Some (latency_of us (pkt_client_timestamp_us pkt)),
      snd (measure_latency mode pkt us now s))"
  by (simp add: measure_latency_def Let_def)

lemma observed_reportIfDue [simp]: "observed (trace (reportIfDue mode now s)) = observed (trace s)"
  by (simp add: reportIfDue_def Let_def)

lemma observed_measure_latency [simp]:
  "observed (trace (snd (measure_latency mode pkt us now s))) = observed (trace s)"
  by (simp add: measure_latency_def Let_def)

text \<open>
  C28. The latency of a published datagram is that of its own frame: the observer is told its length and
  a latency exactly when the server's clock is not behind the client's timestamp (no difference of
  clocks wraps), and the value is the difference in milliseconds up to half a unit in the last place.
\<close>

theorem server_latency:
  assumes "pkt = packet_of_image (os_order os) (buffer s)" and "publish_packet mode os cfg None us now s = Running s'"
    and "ts = pkt_client_timestamp_us pkt"
  shows "\<exists>latency. observed (trace s') = observed (trace s) @ [(unat (pkt_datalen pkt), latency)] \<and>
    published (trace s') = published (trace s) @
      [(publish_target os cfg pkt (pub_group s), take (unat (pkt_datalen pkt)) (pkt_databuf pkt))] \<and>
    (latency = None \<longleftrightarrow> us < ts) \<and>
    (\<forall>ms. latency = Some ms \<and> unat us - unat ts \<le> 2 ^ 53 \<longrightarrow>
       0 \<le> ms \<and> \<bar>ms - of_nat (unat us - unat ts) / 1000\<bar> \<le> of_nat (unat us - unat ts) / 1000 / 2 ^ 53)"
proof -
  let ?latency = "if us < ts then None else Some (latency_of us ts)"
  have "observed (trace s') = observed (trace s) @ [(unat (pkt_datalen pkt), ?latency)] \<and>
      published (trace s') = published (trace s) @
        [(publish_target os cfg pkt (pub_group s), take (unat (pkt_datalen pkt)) (pkt_databuf pkt))]"
    using assms by (subst (asm) publish_packet_def) (auto simp: Let_def case_prod_beta measure_latency_def)
  moreover have "0 \<le> latency_of us ts"
    by (simp add: latency_of_def)
  moreover have "\<bar>latency_of us ts - of_nat (unat us - unat ts) / 1000\<bar> \<le> of_nat (unat us - unat ts) / 1000 / 2 ^ 53"
    if "\<not> us < ts" "unat us - unat ts \<le> 2 ^ 53"
    using latency_of_error [of ts us] that by simp
  ultimately show ?thesis
    by (intro exI [of _ ?latency]) auto
qed

theorem server_latency_witness:
  "\<exists>s' latency. publish_packet example_mode example_os example_server None 5 0
      (initial_server example_os example_server 0 []) = Running s' \<and> observed (trace s') = [(0, Some latency)]"
proof -
  let ?s = "initial_server example_os example_server 0 []"
  have buf: "pkt_client_timestamp_us (packet_of_image Little (buffer ?s)) = 0"
    "pkt_datalen (packet_of_image Little (buffer ?s)) = 0"
    by (simp_all add: packet_of_image_def field_at_def initial_server_def sizeof_packet load_def eval_nat_numeral)
  obtain s' where s': "publish_packet example_mode example_os example_server None 5 0 ?s = Running s'"
    by (simp add: publish_packet_def Let_def case_prod_beta)
  show ?thesis
    using server_latency [OF refl s' refl] s' buf by (auto simp: initial_server_def)
qed

end
