(* ===== verification/Framed_Stream.thy ===== *)
theory Framed_Stream
  imports Prelude
begin

text \<open>
  The interface between the two ends of the connection: TCP delivers the sender's bytes in order, cut
  at places nobody controls. A receiver that asks for a number of bytes, is handed some of them and
  reassembles frames is a \<open>framed_receiver\<close> when it never asks for more than what is left of the
  frame it is in. The locale proves once that such a receiver sees exactly the frames that were sent,
  whatever the cuts; the tunnel server is one.
\<close>

text \<open>
  The connection at the receiving end. An entry \<open>(k, i)\<close> of the schedule is one \<open>recv\<close>: the network
  hands over at most \<open>k\<close> of the bytes that are under way, never more than the receiver wants, and
  \<open>i\<close> are the other inputs of that pass. The loop waits when no bytes are under way, and ends with
  \<open>None\<close> when the receiver stops.
\<close>

fun pump ::
  "('s \<Rightarrow> nat) \<Rightarrow> ('i \<Rightarrow> 'b list \<Rightarrow> 's \<Rightarrow> 's option) \<Rightarrow> (nat \<times> 'i) list \<Rightarrow> 'b list \<Rightarrow> 's \<Rightarrow>
   ('s \<times> 'b list) option" where
  "pump wants deliver [] rx s = Some (s, rx)"
| "pump wants deliver ((k, i) # schedule) rx s =
     (if rx = [] then Some (s, [])
      else let n = min k (wants s) in
        (case deliver i (take n rx) s of
           None \<Rightarrow> None
         | Some s' \<Rightarrow> pump wants deliver schedule (drop n rx) s'))"

text \<open>The frames that lie wholly within the first \<open>m\<close> bytes of a stream.\<close>

fun whole_frames :: "('f \<Rightarrow> 'b list) \<Rightarrow> nat \<Rightarrow> 'f list \<Rightarrow> 'f list" where
  "whole_frames enc m [] = []"
| "whole_frames enc m (f # fs) =
     (if length (enc f) \<le> m then f # whole_frames enc (m - length (enc f)) fs else [])"

lemma whole_frames_all:
  "length (concat (map enc fs)) \<le> m \<Longrightarrow> whole_frames enc m fs = fs"
  by (induction fs arbitrary: m) auto

lemma whole_frames_prefix: "prefix (whole_frames enc m fs) fs"
  by (induction fs arbitrary: m) auto

text \<open>What one \<open>recv\<close> takes from a stream that begins with the rest \<open>drop off x\<close> of a frame.\<close>

lemma chunk_of_frame:
  assumes "prefix rx (drop off x @ y)" and "d = min n (length rx)" and "off + d \<le> length x"
  shows "take n rx = take d (drop off x)"
    and "drop n rx = drop d rx"
    and "prefix (drop d rx) (drop (off + d) x @ y)"
    and "d \<le> length rx"
proof -
  obtain z where z: "drop off x @ y = rx @ z"
    using assms(1) by (auto simp: prefix_def)
  have n: "take n rx = take d rx" "drop n rx = drop d rx" "d \<le> length rx"
    using assms(2) by (auto simp: min_def)
  have "take d (drop off x) = take d (drop off x @ y)"
    using assms(3) by simp
  with n z show "take n rx = take d (drop off x)"
    by simp
  have "drop (off + d) x @ y = drop d (drop off x @ y)"
    using assms(3) by (simp add: add.commute)
  also have "\<dots> = drop d rx @ z"
    using n z by simp
  finally show "prefix (drop d rx) (drop (off + d) x @ y)"
    by (simp add: prefix_def)
  show "drop n rx = drop d rx" "d \<le> length rx"
    by (rule n)+
qed

locale framed_receiver =
  fixes enc :: "'f \<Rightarrow> 'b list"
    and fits :: "'f \<Rightarrow> bool"
    and wants :: "'s \<Rightarrow> nat"
    and deliver :: "'i \<Rightarrow> 'b list \<Rightarrow> 's \<Rightarrow> 's option"
    and idle :: "'s \<Rightarrow> bool"
    and inside :: "'s \<Rightarrow> 'f \<Rightarrow> nat \<Rightarrow> bool"
    and results :: "'s \<Rightarrow> 'o list"
    and meaning :: "'f \<Rightarrow> 'o list"
  assumes idle_inside: "idle s \<Longrightarrow> fits f \<Longrightarrow> inside s f 0"
    and wants_bounds: "inside s f off \<Longrightarrow> fits f \<Longrightarrow>
      off < length (enc f) \<and> 0 < wants s \<and> off + wants s \<le> length (enc f)"
    and deliver_part: "inside s f off \<Longrightarrow> fits f \<Longrightarrow> 0 < k \<Longrightarrow> k \<le> wants s \<Longrightarrow>
      off + k < length (enc f) \<Longrightarrow>
      \<exists>s'. deliver i (take k (drop off (enc f))) s = Some s' \<and> inside s' f (off + k) \<and>
        results s' = results s"
    and deliver_whole: "inside s f off \<Longrightarrow> fits f \<Longrightarrow> 0 < k \<Longrightarrow> k \<le> wants s \<Longrightarrow>
      off + k = length (enc f) \<Longrightarrow>
      \<exists>s'. deliver i (take k (drop off (enc f))) s = Some s' \<and> idle s' \<and>
        results s' = results s @ meaning f"
begin

lemma pump_inside:
  assumes "inside s f off" and "list_all fits (f # fs)"
    and "prefix rx (drop off (enc f) @ concat (map enc fs))"
    and "\<forall>(k, i) \<in> set schedule. 0 < k" and "length rx \<le> length schedule"
  shows "\<exists>s'. pump wants deliver schedule rx s = Some (s', []) \<and>
    results s' = results s @ concat (map meaning (whole_frames enc (off + length rx) (f # fs)))"
  using assms
proof (induction schedule arbitrary: s f off fs rx)
  case Nil
  then show ?case
    using wants_bounds [of s f off] by simp
next
  case (Cons ki schedule)
  obtain k i where ki: "ki = (k, i)" by (cases ki)
  have fit: "fits f" and k: "0 < k" and w: "0 < wants s" "off + wants s \<le> length (enc f)" "off < length (enc f)"
    using Cons.prems wants_bounds [of s f off] by (auto simp: ki)
  show ?case
  proof (cases "rx = []")
    case True
    with w show ?thesis by (simp add: ki)
  next
    case False
    define n where "n = min k (wants s)"
    define d where "d = min n (length rx)"
    have d: "0 < d" "d \<le> wants s" "off + d \<le> length (enc f)"
      using k w False by (auto simp: d_def n_def)
    note chunk = chunk_of_frame [OF Cons.prems(3) d_def d(3)]
    have shorter: "length (drop d rx) \<le> length schedule"
      using Cons.prems(5) d(1) by simp
    note positive = Cons.prems(4) [unfolded ki, simplified]
    have step: "pump wants deliver (ki # schedule) rx s =
        (case deliver i (take d (drop off (enc f))) s of
           None \<Rightarrow> None | Some s' \<Rightarrow> pump wants deliver schedule (drop d rx) s')"
      using False by (simp add: ki n_def [symmetric] chunk(1,2) Let_def split: option.split)
    show ?thesis
    proof (cases "off + d < length (enc f)")
      case True
      obtain s' where s': "deliver i (take d (drop off (enc f))) s = Some s'"
        "inside s' f (off + d)" "results s' = results s"
        using deliver_part [OF Cons.prems(1) fit d(1,2) True] by blast
      have "\<exists>s''. pump wants deliver schedule (drop d rx) s' = Some (s'', []) \<and>
          results s'' = results s' @
            concat (map meaning (whole_frames enc (off + d + length (drop d rx)) (f # fs)))"
        using positive shorter s' Cons.prems(2) chunk(3) by (intro Cons.IH) auto
      then show ?thesis
        using s' chunk(4) by (simp add: step)
    next
      case False
      then have whole: "off + d = length (enc f)"
        using d by simp
      obtain s' where s': "deliver i (take d (drop off (enc f))) s = Some s'"
        "idle s'" "results s' = results s @ meaning f"
        using deliver_whole [OF Cons.prems(1) fit d(1,2) whole] by blast
      have tail: "prefix (drop d rx) (concat (map enc fs))"
        and off: "off + length rx = length (enc f) + length (drop d rx)"
        using chunk(3,4) whole by simp_all
      show ?thesis
      proof (cases fs)
        case Nil
        then have "pump wants deliver schedule (drop d rx) s' = Some (s', [])"
          using tail by (cases schedule) auto
        then show ?thesis
          using s' Nil off by (simp add: step)
      next
        case (Cons g gs)
        have "\<exists>s''. pump wants deliver schedule (drop d rx) s' = Some (s'', []) \<and>
            results s'' = results s' @
              concat (map meaning (whole_frames enc (0 + length (drop d rx)) (g # gs)))"
          using positive shorter s' Cons Cons.prems(2) tail idle_inside by (intro Cons.IH) auto
        then show ?thesis
          using s' Cons off by (auto simp: step)
      qed
    qed
  qed
qed

text \<open>
  The receiver at rest is given the beginning \<open>rx\<close> of a stream of frames. However the network cuts it,
  it takes all of it and its results are those of the frames that lie wholly within \<open>rx\<close>.
\<close>

lemma pump_delivers:
  assumes "idle s" and "list_all fits fs" and "prefix rx (concat (map enc fs))"
    and "\<forall>(k, i) \<in> set schedule. 0 < k" and "length rx \<le> length schedule"
  shows "\<exists>s'. pump wants deliver schedule rx s = Some (s', []) \<and>
    results s' = results s @ concat (map meaning (whole_frames enc (length rx) fs))"
proof (cases fs)
  case Nil
  then show ?thesis
    using assms by (cases schedule) auto
next
  case (Cons f gs)
  then show ?thesis
    using pump_inside [of s f 0 gs rx schedule] assms idle_inside by auto
qed

end

end
