(* ===== verification/Tunnel_Link.thy ===== *)
theory Tunnel_Link
  imports Tunnel_Client Tunnel_Server Framed_Stream Example_Run
begin

text \<open>
  The tunnel end to end: the server of \<open>src/src/DatagramTunneler.cpp\<close> as a receiver of the frames its
  client sends, and the composition of the two over a TCP connection.
\<close>

section \<open>What the server publishes\<close>

definition target_of :: "os \<Rightarrow> config \<Rightarrow> u32 \<Rightarrow> u16 \<Rightarrow> endpoint_address" where
  "target_of os cfg ip port =
     (if use_clt_grp cfg then \<lparr>sin_port = htons (os_order os) port, sin_addr = ip\<rparr>
      else initial_group os cfg)"

fun frame_meaning :: "os \<Rightarrow> config \<Rightarrow> u32 \<Rightarrow> u16 \<Rightarrow> frame \<Rightarrow> (endpoint_address \<times> bytes) list" where
  "frame_meaning os cfg ip port Frame_heartbeat = []"
| "frame_meaning os cfg ip port (Frame_datagram payload timestamp_us) =
     [(target_of os cfg ip port, payload)]"

text \<open>The lengths the observer has been told.\<close>

abbreviation told_lengths :: "effect list \<Rightarrow> nat list" where
  "told_lengths es \<equiv> map fst (observed es)"

text \<open>The bytes the server wants when it has \<open>off\<close> bytes of a frame.\<close>

definition wanted :: "frame \<Rightarrow> nat \<Rightarrow> nat" where
  "wanted f off =
     (if off < 2 then 2 - off
      else case f of Frame_heartbeat \<Rightarrow> 0
        | Frame_datagram payload _ \<Rightarrow> if off < 18 then 18 - off else 18 + length payload - off)"

text \<open>A pass in which \<open>sendto\<close> succeeds, as a step of the receiver; the other inputs are the clocks.\<close>

definition server_deliver ::
  "run_mode \<Rightarrow> os \<Rightarrow> config \<Rightarrow> u64 \<times> nat \<Rightarrow> bytes \<Rightarrow> server_state \<Rightarrow> server_state option" where
  "server_deliver mode os cfg clocks data s =
     (case server_iteration mode os cfg (Tcp_data data) None (fst clocks) (snd clocks) s of
        Running s' \<Rightarrow> Some s' | _ \<Rightarrow> None)"

definition server_rest :: "os \<Rightarrow> config \<Rightarrow> server_state \<Rightarrow> bool" where
  "server_rest os cfg s \<longleftrightarrow>
     length (buffer s) = sizeof_TunnelPacket \<and> write_pos s = 0 \<and>
     len_to_read s = kTunnelPacketPreambleLength \<and>
     (\<not> use_clt_grp cfg \<longrightarrow> pub_group s = initial_group os cfg)"

definition server_inside ::
  "os \<Rightarrow> config \<Rightarrow> u32 \<Rightarrow> u16 \<Rightarrow> server_state \<Rightarrow> frame \<Rightarrow> nat \<Rightarrow> bool" where
  "server_inside os cfg ip port s f off \<longleftrightarrow>
     length (buffer s) = sizeof_TunnelPacket \<and> write_pos s = off \<and>
     off < length (encode_frame (os_order os) ip port f) \<and>
     take off (buffer s) = take off (encode_frame (os_order os) ip port f) \<and>
     len_to_read s = wanted f off \<and>
     (\<not> use_clt_grp cfg \<longrightarrow> pub_group s = initial_group os cfg)"

section \<open>Passes of the server loop\<close>

lemma server_rest_inside:
  assumes "server_rest os cfg s" and "frame_fits f"
  shows "server_inside os cfg ip port s f 0"
  using assms
  by (cases f) (auto simp: server_rest_def server_inside_def wanted_def kTunnelPacketPreambleLength_def)

lemma server_inside_wants:
  assumes "server_inside os cfg ip port s f off" and "frame_fits f"
  shows "off < length (encode_frame (os_order os) ip port f) \<and> 0 < len_to_read s \<and>
    off + len_to_read s \<le> length (encode_frame (os_order os) ip port f)"
  using assms by (cases f) (auto simp: server_inside_def wanted_def)

text \<open>
  The buffer after \<open>recv\<close> put \<open>k\<close> more bytes of the frame behind the \<open>off\<close> bytes that are there.
\<close>

definition received_into :: "bytes \<Rightarrow> nat \<Rightarrow> nat \<Rightarrow> server_state \<Rightarrow> server_state \<Rightarrow> bool" where
  "received_into frame off k s s1 \<longleftrightarrow>
     (\<exists>buf. s1 = s\<lparr>buffer := buf, write_pos := off + k\<rparr> \<and> length buf = length (buffer s) \<and>
       take (off + k) buf = take (off + k) frame)"

lemma server_iteration_received:
  assumes "server_inside os cfg ip port s f off" and "off + k \<le> sizeof_TunnelPacket"
    and "0 < k" and "off + k \<le> length (encode_frame (os_order os) ip port f)"
    and "len_to_read s \<noteq> 0"
  shows "\<exists>s1. received_into (encode_frame (os_order os) ip port f) off k s s1 \<and>
    server_iteration mode os cfg
      (Tcp_data (take k (drop off (encode_frame (os_order os) ip port f)))) sendto us now s =
    handle_received mode os cfg sendto us now s1"
proof -
  let ?e = "encode_frame (os_order os) ip port f"
  let ?d = "take k (drop off ?e)"
  have "off + length ?d \<le> length (buffer s)"
    using assms by (simp add: server_inside_def)
  then obtain buf where w: "write_at off ?d (buffer s) = Some buf"
    by (auto simp: write_at_def)
  have len: "length ?d = k"
    using assms(4) by simp
  have "take (off + k) buf = take off ?e @ ?d"
    using write_at_prefix [OF w] assms(1) len by (simp add: server_inside_def)
  also have "\<dots> = take (off + k) ?e"
    by (rule take_append_take_drop)
  finally have "received_into ?e off k s (s\<lparr>buffer := buf, write_pos := off + k\<rparr>)"
    using write_at_length [OF w] by (auto simp: received_into_def)
  moreover have "?d \<noteq> []" "write_pos s = off"
    using assms(1,3) len by (auto simp: server_inside_def)
  ultimately show ?thesis
    using w len assms(5) by (auto simp: server_iteration_def)
qed

text \<open>What the loop reads in the buffer once the preamble, the header or the whole frame is there.\<close>

lemma buffer_preamble:
  assumes "take n buf = take n (encode_frame ord ip port f)" and "2 \<le> n"
  shows "pkt_protocol_version (packet_of_image ord' buf) = kDtepProtocolVersion"
    and "pkt_type (packet_of_image ord' buf) =
      (case f of Frame_heartbeat \<Rightarrow> Heartbeat | Frame_datagram payload t \<Rightarrow> Datagram)"
proof -
  have two: "take 2 buf = take 2 (encode_frame ord ip port f)"
    using take_le_eq [OF assms] .
  have "pkt_protocol_version (packet_of_image ord' buf) = kDtepProtocolVersion \<and>
      pkt_type (packet_of_image ord' buf) =
        (case f of Frame_heartbeat \<Rightarrow> Heartbeat | Frame_datagram payload t \<Rightarrow> Datagram)"
  proof (cases f)
    case Frame_heartbeat
    then show ?thesis
      using nth_of_take_eq [OF two, of 0] nth_of_take_eq [OF two, of 1] by (simp add: packet_of_image_def)
  next
    case (Frame_datagram payload t)
    then have "take 2 buf = take 2 (header_image ord (datagram_header ip port payload t))"
      using two by simp
    then show ?thesis
      using preamble_fields [of buf ord "datagram_header ip port payload t" ord']
      by (simp add: Frame_datagram datagram_header_def)
  qed
  then show "pkt_protocol_version (packet_of_image ord' buf) = kDtepProtocolVersion"
    "pkt_type (packet_of_image ord' buf) =
      (case f of Frame_heartbeat \<Rightarrow> Heartbeat | Frame_datagram payload t \<Rightarrow> Datagram)"
    by blast+
qed

lemma buffer_header:
  assumes "take n buf = take n (encode_frame ord ip port (Frame_datagram payload t))" and "18 \<le> n"
  shows "packet_of_image ord buf = (datagram_header ip port payload t)\<lparr>pkt_databuf := drop 18 buf\<rparr>"
proof -
  have "take 18 buf = header_image ord (datagram_header ip port payload t)"
    using take_le_eq [OF assms] by simp
  then show ?thesis
    by (rule header_fields)
qed

lemma handle_received_part:
  assumes "frame_representable f" and "write_pos s = off"
    and "take off (buffer s) = take off (encode_frame (os_order os) ip port f)"
    and "off < length (encode_frame (os_order os) ip port f)"
  shows "handle_received mode os cfg sendto us now s = Running (s\<lparr>len_to_read := wanted f off\<rparr>)"
proof (cases "off < 2")
  case True
  with assms(2) show ?thesis
    by (simp add: handle_received_def wanted_def kTunnelPacketPreambleLength_def)
next
  case False
  then obtain payload t where f: "f = Frame_datagram payload t"
    using assms(4) by (cases f) auto
  note pre = buffer_preamble [OF assms(3), of "os_order os"]
  show ?thesis
  proof (cases "off < 18")
    case True
    with False pre assms(2) show ?thesis
      by (simp add: handle_received_def wanted_def f protocol_constants Let_def)
  next
    case False
    then have "packet_size (packet_of_image (os_order os) (buffer s)) = 18 + length payload"
      using buffer_header [OF assms(3) [unfolded f]] assms(1)
      by (simp add: packet_size_def datagram_header_def protocol_constants f unat_of_nat)
    with False pre assms(2,4) show ?thesis
      by (simp add: handle_received_def wanted_def f protocol_constants Let_def)
  qed
qed

lemma handle_received_whole:
  assumes "frame_fits f" and "write_pos s = length (encode_frame (os_order os) ip port f)"
    and "take (write_pos s) (buffer s) = encode_frame (os_order os) ip port f"
    and "length (buffer s) = sizeof_TunnelPacket"
    and "\<not> use_clt_grp cfg \<Longrightarrow> pub_group s = initial_group os cfg"
  shows "\<exists>s'. handle_received mode os cfg None us now s = Running s' \<and> server_rest os cfg s' \<and>
    published (trace s') = published (trace s) @ frame_meaning os cfg ip port f \<and>
    told_lengths (trace s') = told_lengths (trace s) @ map fst (frame_observed f)"
proof (cases f)
  case Frame_heartbeat
  have "take (write_pos s) (buffer s) = take (write_pos s) (encode_frame (os_order os) ip port f)"
    using assms(2,3) by simp
  from buffer_preamble [OF this, of "os_order os"] show ?thesis
    using assms(2,4,5)
    by (auto simp: handle_received_def Frame_heartbeat protocol_constants server_rest_def Let_def)
next
  case (Frame_datagram payload t)
  let ?pkt = "packet_of_image (os_order os) (buffer s)"
  have t: "take (write_pos s) (buffer s) = take (write_pos s) (encode_frame (os_order os) ip port f)"
    using assms(2,3) by simp
  have pos: "write_pos s = 18 + length payload"
    using assms(2) by (simp add: Frame_datagram)
  note pre = buffer_preamble [OF t, of "os_order os"]
  have pkt: "?pkt = (datagram_header ip port payload t)\<lparr>pkt_databuf := drop 18 (buffer s)\<rparr>"
    using buffer_header [OF t [unfolded Frame_datagram]] pos by simp
  have len: "unat (pkt_datalen ?pkt) = length payload"
    using assms(1) by (simp add: pkt datagram_header_def Frame_datagram)
  have "take (length payload) (drop 18 (buffer s)) = drop 18 (take (18 + length payload) (buffer s))"
    by (simp add: take_drop add.commute)
  also have "\<dots> = payload"
    using assms(3) pos by (simp add: Frame_datagram)
  finally have body: "take (unat (pkt_datalen ?pkt)) (pkt_databuf ?pkt) = payload"
    unfolding len by (simp add: pkt)
  have target: "publish_target os cfg ?pkt (pub_group s) = target_of os cfg ip port"
    using assms(5) by (simp add: publish_target_def target_of_def pkt datagram_header_def)
  have "handle_received mode os cfg None us now s = publish_packet mode os cfg None us now s"
    using pre pos len by (simp add: handle_received_def Frame_datagram protocol_constants
        packet_size_def Let_def)
  then show ?thesis
    using assms(4,5) body target len
    by (auto simp: publish_packet_def Let_def case_prod_beta server_rest_def Frame_datagram target_of_def)
qed

section \<open>The server is a receiver of frames\<close>

lemma encode_frame_in_buffer:
  "frame_fits f \<Longrightarrow> length (encode_frame ord ip port f) \<le> sizeof_TunnelPacket"
  by (cases f) (auto simp: sizeof_packet kMaxDatagramLength_def)

lemma server_deliver_part:
  assumes "server_inside os cfg ip port s f off" and "frame_fits f" and "0 < k"
    and "k \<le> len_to_read s" and "off + k < length (encode_frame (os_order os) ip port f)"
  shows "\<exists>s'. server_deliver mode os cfg clocks
      (take k (drop off (encode_frame (os_order os) ip port f))) s = Some s' \<and>
    server_inside os cfg ip port s' f (off + k) \<and> published (trace s') = published (trace s) \<and>
    told_lengths (trace s') = told_lengths (trace s)"
proof -
  obtain s1 where s1: "received_into (encode_frame (os_order os) ip port f) off k s s1"
    and it: "server_iteration mode os cfg
      (Tcp_data (take k (drop off (encode_frame (os_order os) ip port f)))) None (fst clocks) (snd clocks) s =
      handle_received mode os cfg None (fst clocks) (snd clocks) s1"
    using server_iteration_received [OF assms(1) _ assms(3) less_imp_le [OF assms(5)]]
      encode_frame_in_buffer [OF assms(2), of "os_order os" ip port] assms(3,4,5) by force
  have h: "handle_received mode os cfg None (fst clocks) (snd clocks) s1 =
      Running (s1\<lparr>len_to_read := wanted f (off + k)\<rparr>)"
    using s1 assms(5) frame_fits_representable [OF assms(2)]
    by (intro handle_received_part) (auto simp: received_into_def)
  show ?thesis
    using s1 assms(1,5) by (auto simp: server_deliver_def it h server_inside_def received_into_def)
qed

lemma server_deliver_whole:
  assumes "server_inside os cfg ip port s f off" and "frame_fits f" and "0 < k"
    and "k \<le> len_to_read s" and "off + k = length (encode_frame (os_order os) ip port f)"
  shows "\<exists>s'. server_deliver mode os cfg clocks
      (take k (drop off (encode_frame (os_order os) ip port f))) s = Some s' \<and>
    server_rest os cfg s' \<and>
    published (trace s') = published (trace s) @ frame_meaning os cfg ip port f \<and>
    told_lengths (trace s') = told_lengths (trace s) @ map fst (frame_observed f)"
proof -
  obtain s1 where s1: "received_into (encode_frame (os_order os) ip port f) off k s s1"
    and it: "server_iteration mode os cfg
      (Tcp_data (take k (drop off (encode_frame (os_order os) ip port f)))) None (fst clocks) (snd clocks) s =
      handle_received mode os cfg None (fst clocks) (snd clocks) s1"
    using server_iteration_received [OF assms(1) _ assms(3) eq_imp_le [OF assms(5)]]
      encode_frame_in_buffer [OF assms(2), of "os_order os" ip port] assms(3,4,5) by force
  have "\<exists>s'. handle_received mode os cfg None (fst clocks) (snd clocks) s1 = Running s' \<and>
      server_rest os cfg s' \<and> published (trace s') = published (trace s1) @ frame_meaning os cfg ip port f \<and>
      told_lengths (trace s') = told_lengths (trace s1) @ map fst (frame_observed f)"
    using s1 assms(1,2,5)
    by (intro handle_received_whole) (auto simp: received_into_def server_inside_def)
  then show ?thesis
    using s1 by (auto simp: server_deliver_def it received_into_def)
qed

interpretation tunnel: framed_receiver
  "encode_frame (os_order os) ip port" frame_fits len_to_read "server_deliver mode os cfg"
  "server_rest os cfg" "server_inside os cfg ip port" "\<lambda>s. published (trace s)"
  "frame_meaning os cfg ip port"
proof unfold_locales
  fix s f off k i
  assume inside: "server_inside os cfg ip port s f off" "frame_fits f" "0 < k" "k \<le> len_to_read s"
  let ?next = "server_deliver mode os cfg i (take k (drop off (encode_frame (os_order os) ip port f))) s"
  show "\<exists>s'. ?next = Some s' \<and> server_inside os cfg ip port s' f (off + k) \<and> published (trace s') = published (trace s)"
    if "off + k < length (encode_frame (os_order os) ip port f)"
    using server_deliver_part [OF inside that] by blast
  show "\<exists>s'. ?next = Some s' \<and> server_rest os cfg s' \<and> published (trace s') = published (trace s) @ frame_meaning os cfg ip port f"
    if "off + k = length (encode_frame (os_order os) ip port f)"
    using server_deliver_whole [OF inside that] by blast
qed (rule server_rest_inside server_inside_wants; assumption)+

text \<open>The same receiver, as the observer of the run sees it.\<close>

interpretation watched: framed_receiver
  "encode_frame (os_order os) ip port" frame_fits len_to_read "server_deliver mode os cfg"
  "server_rest os cfg" "server_inside os cfg ip port" "\<lambda>s. told_lengths (trace s)"
  "\<lambda>f. map fst (frame_observed f)"
proof unfold_locales
  fix s f off k i
  assume inside: "server_inside os cfg ip port s f off" "frame_fits f" "0 < k" "k \<le> len_to_read s"
  let ?next = "server_deliver mode os cfg i (take k (drop off (encode_frame (os_order os) ip port f))) s"
  show "\<exists>s'. ?next = Some s' \<and> server_inside os cfg ip port s' f (off + k) \<and> told_lengths (trace s') = told_lengths (trace s)"
    if "off + k < length (encode_frame (os_order os) ip port f)"
    using server_deliver_part [OF inside that] by blast
  show "\<exists>s'. ?next = Some s' \<and> server_rest os cfg s' \<and> told_lengths (trace s') = told_lengths (trace s) @ map fst (frame_observed f)"
    if "off + k = length (encode_frame (os_order os) ip port f)"
    using server_deliver_whole [OF inside that] by blast
qed (rule server_rest_inside server_inside_wants; assumption)+

section \<open>The two ends together\<close>

text \<open>The client when its loop begins, with the effects of connecting and joining already in the trace.\<close>

definition client_start :: "os \<Rightarrow> config \<Rightarrow> effect list \<Rightarrow> client_state" where
  "client_start os cfg es = \<lparr>trace = es, packet = client_packet os cfg\<rparr>"

text \<open>The abstract tunnel: the datagrams received before a stop that are not too long, in order.\<close>

fun forwarded :: "client_input list \<Rightarrow> bytes list" where
  "forwarded [] = []"
| "forwarded (Client_stop # inputs) = []"
| "forwarded (Client_iteration (Udp_error e) t ss # inputs) = forwarded inputs"
| "forwarded (Client_iteration (Udp_datagram d) t ss # inputs) =
     (if length d \<le> kMaxDatagramLength then d # forwarded inputs else forwarded inputs)"

abbreviation group_ip :: "os \<Rightarrow> config \<Rightarrow> u32" where
  "group_ip os cfg \<equiv> pkt_udp_dst_ip (client_packet os cfg)"

lemma client_start_wf: "client_wf (group_ip os cfg) (udp_dst_port cfg) (client_start os cfg es)"
  by (simp add: client_wf_def client_start_def client_packet_def zero_packet_def)

lemma initial_server_rest: "server_rest os cfg (initial_server os cfg now es)"
  by (simp add: server_rest_def initial_server_def)

lemma meaning_of_inputs:
  "concat (map (frame_meaning sv_os sv_cfg ip port) (frames_of_inputs os inputs)) =
   map (\<lambda>d. (target_of sv_os sv_cfg ip port, d)) (forwarded inputs)"
  by (induction inputs rule: forwarded.induct) auto

lemma client_start_stream:
  assumes "tcp_bytes es = []"
  shows "prefix (tcp_bytes (trace (final_state (client_loop mode os inputs (client_start os cfg es)))))
      (encode_frames (os_order os) (group_ip os cfg) (udp_dst_port cfg) (frames_of_inputs os inputs))"
    and "is_running (client_loop mode os inputs (client_start os cfg es)) \<Longrightarrow>
      tcp_bytes (trace (final_state (client_loop mode os inputs (client_start os cfg es)))) =
      encode_frames (os_order os) (group_ip os cfg) (udp_dst_port cfg) (frames_of_inputs os inputs)"
  using client_loop_stream [OF client_start_wf, of "os" cfg es os inputs mode] assms
  by (auto simp: puts_bytes_def client_start_def)

lemma server_takes_stream:
  assumes "os_order sv_os = ord" and "list_all frame_fits fs" and "prefix rx (encode_frames ord ip port fs)"
    and "\<forall>(k, clocks) \<in> set schedule. 0 < k" and "length rx \<le> length schedule"
  shows "\<exists>s. pump len_to_read (server_deliver mode sv_os cfg) schedule rx (initial_server sv_os cfg now es) =
      Some (s, []) \<and>
    published (trace s) = published es @
      concat (map (frame_meaning sv_os cfg ip port) (whole_frames (encode_frame ord ip port) (length rx) fs))"
  using tunnel.pump_delivers [where os = sv_os and cfg = cfg and mode = mode and ip = ip and port = port,
      OF initial_server_rest assms(2) _ assms(4,5)] assms(1,3)
  by (auto simp: encode_frames_def initial_server_def)

lemma lengths_of_inputs:
  "concat (map (\<lambda>f. map fst (frame_observed f)) (frames_of_inputs os inputs)) = map length (forwarded inputs)"
  by (induction inputs rule: forwarded.induct) auto

lemma server_tells_lengths:
  assumes "os_order sv_os = ord" and "list_all frame_fits fs" and "prefix rx (encode_frames ord ip port fs)"
    and "\<forall>(k, clocks) \<in> set schedule. 0 < k" and "length rx \<le> length schedule"
    and "pump len_to_read (server_deliver mode sv_os cfg) schedule rx (initial_server sv_os cfg now es) = Some (s, [])"
  shows "told_lengths (trace s) = told_lengths es @
    concat (map (\<lambda>f. map fst (frame_observed f)) (whole_frames (encode_frame ord ip port) (length rx) fs))"
  using watched.pump_delivers [where os = sv_os and cfg = cfg and mode = mode and ip = ip and port = port,
      OF initial_server_rest [of sv_os cfg now es] assms(2) _ assms(4,5)] assms(1,3,6)
  by (auto simp: encode_frames_def initial_server_def)

text \<open>
  C1. The tunnel is a FIFO of datagrams. A client whose loop has gone through all its inputs without an
  error, and a server on a machine of the same byte order that starts its loop on the other end of the
  connection: however the connection cuts the bytes into \<open>recv\<close> results, the server never throws,
  aborts or leaves its buffer, takes every byte, and has published exactly the datagrams the client
  received that are not longer than 1472 bytes, whole, in order and once each, to the group the client
  joined or to the configured destination.
\<close>

theorem tunnel_fifo:
  assumes "client_loop cl_mode cl_os inputs (client_start cl_os cl_cfg []) = Running c"
    and "os_order sv_os = os_order cl_os"
    and "\<forall>(k, clocks) \<in> set schedule. 0 < k"
    and "length (tcp_bytes (trace c)) \<le> length schedule"
  shows "\<exists>s. pump len_to_read (server_deliver sv_mode sv_os sv_cfg) schedule (tcp_bytes (trace c))
        (initial_server sv_os sv_cfg now []) = Some (s, []) \<and>
      published (trace s) =
        map (\<lambda>d. (target_of sv_os sv_cfg (group_ip cl_os cl_cfg) (udp_dst_port cl_cfg), d)) (forwarded inputs)"
proof -
  let ?enc = "encode_frame (os_order cl_os) (group_ip cl_os cl_cfg) (udp_dst_port cl_cfg)"
  let ?fs = "frames_of_inputs cl_os inputs"
  have rx: "tcp_bytes (trace c) = encode_frames (os_order cl_os) (group_ip cl_os cl_cfg) (udp_dst_port cl_cfg) ?fs"
    using client_start_stream(2) [of "[]" cl_mode cl_os inputs cl_cfg] assms(1) by simp
  then have "whole_frames ?enc (length (tcp_bytes (trace c))) ?fs = ?fs"
    by (intro whole_frames_all) (simp add: encode_frames_def)
  then show ?thesis
    using server_takes_stream [where ip = "group_ip cl_os cl_cfg" and port = "udp_dst_port cl_cfg"
        and es = "[]", OF assms(2) frames_of_inputs_fit [of cl_os inputs] _ assms(3,4)]
    by (simp add: rx meaning_of_inputs)
qed

lemma example_run_completes:
  "\<exists>c. client_loop example_mode example_os [Client_iteration (Udp_datagram [1, 2, 3]) 7 [Sent 20, Sent 1]]
      (client_start example_os example_client []) = Running c \<and> length (tcp_bytes (trace c)) = 21"
proof -
  let ?inputs = "[Client_iteration (Udp_datagram [1, 2, 3]) 7 [Sent 20, Sent 1]]"
  have "list_all (healthy_input example_mode example_os) ?inputs"
    by (simp add: kMaxDatagramLength_def)
  then obtain c where "client_loop example_mode example_os ?inputs (client_start example_os example_client []) =
      Running c"
    using client_loop_completes [OF client_start_wf] by blast
  with client_start_stream(2) [of "[]" example_mode example_os ?inputs example_client] show ?thesis
    by (auto simp: kMaxDatagramLength_def)
qed

theorem tunnel_fifo_witness:
  "\<exists>c s. client_loop example_mode example_os [Client_iteration (Udp_datagram [1, 2, 3]) 7 [Sent 20, Sent 1]]
      (client_start example_os example_client []) = Running c \<and>
    pump len_to_read (server_deliver example_mode example_os example_server) (replicate 21 (5, 9, 0))
      (tcp_bytes (trace c)) (initial_server example_os example_server 0 []) = Some (s, []) \<and>
    map snd (published (trace s)) = [[1, 2, 3]]"
proof -
  obtain c where c: "client_loop example_mode example_os
      [Client_iteration (Udp_datagram [1, 2, 3]) 7 [Sent 20, Sent 1]]
      (client_start example_os example_client []) = Running c" "length (tcp_bytes (trace c)) = 21"
    using example_run_completes by blast
  show ?thesis
    using tunnel_fifo [of example_mode example_os "[Client_iteration (Udp_datagram [1, 2, 3]) 7 [Sent 20, Sent 1]]"
        example_client c example_os "replicate 21 (5, 9, 0)" example_mode example_server 0] c
    by (force simp: kMaxDatagramLength_def)
qed

text \<open>
  C2. When the client ends in any other way (it stops, \<open>send\<close> fails, blocks or accepts a part of a frame
  only), the bytes that reached the connection are the beginning of the same stream: the server
  publishes the datagrams of the frames that arrived whole, which are the first of those the client
  received, and nothing of a frame that was cut off.
\<close>

theorem tunnel_prefix:
  assumes "os_order sv_os = os_order cl_os"
    and "\<forall>(k, clocks) \<in> set schedule. 0 < k"
    and "length (tcp_bytes (trace (final_state (client_loop cl_mode cl_os inputs (client_start cl_os cl_cfg []))))) \<le>
      length schedule"
  shows "\<exists>s. pump len_to_read (server_deliver sv_mode sv_os sv_cfg) schedule
        (tcp_bytes (trace (final_state (client_loop cl_mode cl_os inputs (client_start cl_os cl_cfg [])))))
        (initial_server sv_os sv_cfg now []) = Some (s, []) \<and>
      prefix (published (trace s))
        (map (\<lambda>d. (target_of sv_os sv_cfg (group_ip cl_os cl_cfg) (udp_dst_port cl_cfg), d)) (forwarded inputs))"
proof -
  let ?m = "frame_meaning sv_os sv_cfg (group_ip cl_os cl_cfg) (udp_dst_port cl_cfg)"
  let ?fs = "frames_of_inputs cl_os inputs"
  have "prefix (concat (map ?m gs)) (concat (map ?m ?fs))" if "prefix gs ?fs" for gs
    using that by (auto simp: prefix_def)
  then show ?thesis
    using server_takes_stream [OF assms(1) frames_of_inputs_fit client_start_stream(1) assms(2,3), of sv_mode sv_cfg now "[]"]
      whole_frames_prefix [of "encode_frame (os_order cl_os) (group_ip cl_os cl_cfg) (udp_dst_port cl_cfg)" _ ?fs]
    by (auto simp: meaning_of_inputs)
qed

theorem tunnel_prefix_witness:
  "\<exists>s. pump len_to_read (server_deliver example_mode example_os example_server) (replicate 30 (5, 9, 0))
      (tcp_bytes (trace (final_state (client_loop example_mode example_os
        [Client_iteration (Udp_datagram [1, 2, 3]) 7 [Sent 20, Send_error 32]] (client_start example_os example_client [])))))
      (initial_server example_os example_server 0 []) = Some (s, []) \<and>
    prefix (map snd (published (trace s))) [[1, 2, 3]]"
proof -
  let ?inputs = "[Client_iteration (Udp_datagram [1, 2, 3]) 7 [Sent 20, Send_error 32]]"
  let ?rx = "tcp_bytes (trace (final_state (client_loop example_mode example_os ?inputs
      (client_start example_os example_client []))))"
  have "prefix ?rx (encode_frames (os_order example_os) (group_ip example_os example_client)
      (udp_dst_port example_client) (frames_of_inputs example_os ?inputs))"
    by (rule client_start_stream(1)) simp
  then have "length ?rx \<le> length (encode_frames (os_order example_os) (group_ip example_os example_client)
      (udp_dst_port example_client) (frames_of_inputs example_os ?inputs))"
    by (rule prefix_length_le)
  then have "length ?rx \<le> length (replicate 30 (5::nat, 9::u64, 0::nat))"
    by (simp add: kMaxDatagramLength_def)
  from tunnel_prefix [OF refl _ this, of example_mode example_server 0] show ?thesis
    by (auto simp: kMaxDatagramLength_def dest: map_mono_prefix [of _ _ snd])
qed

section \<open>A client without errors\<close>

lemma client_start_completes:
  assumes "list_all (healthy_input mode os) inputs"
  shows "\<exists>c. client_loop mode os inputs (client_start os cfg []) = Running c \<and>
    tcp_bytes (trace c) =
      encode_frames (os_order os) (group_ip os cfg) (udp_dst_port cfg) (frames_of_inputs os inputs) \<and>
    observed (trace c) = map (\<lambda>d. (length d, None)) (forwarded inputs)"
proof -
  obtain c where c: "client_loop mode os inputs (client_start os cfg []) = Running c"
    "observed (trace c) = concat (map frame_observed (frames_of_inputs os inputs))"
    using client_loop_completes [OF client_start_wf assms, of os cfg "[]"] by (auto simp: client_start_def)
  moreover have "concat (map frame_observed (frames_of_inputs os inputs)) =
      map (\<lambda>d. (length d, None)) (forwarded inputs)"
    by (induction inputs rule: forwarded.induct) auto
  ultimately show ?thesis
    using client_start_stream(2) [of "[]" mode os inputs cfg] by simp
qed

text \<open>
  C22. The forwarding loop ends only for a reason: while \<open>recv\<close> yields datagrams, timeouts and overlong
  datagrams, and the connection takes each frame whole, in however many pieces, the loop goes on; by then
  it has sent the frames of all inputs, and has told the observer the length of each datagram it
  forwarded.
\<close>

theorem client_keeps_forwarding:
  assumes "list_all (healthy_input mode os) inputs"
  shows "\<exists>c. client_loop mode os inputs (client_start os cfg []) = Running c \<and>
    tcp_bytes (trace c) =
      encode_frames (os_order os) (group_ip os cfg) (udp_dst_port cfg) (frames_of_inputs os inputs) \<and>
    observed (trace c) = map (\<lambda>d. (length d, None)) (forwarded inputs)"
  using assms by (rule client_start_completes)

theorem client_keeps_forwarding_witness:
  "\<exists>c. client_loop example_mode example_os
      [Client_iteration (Udp_error 11) 0 [Sent 1, Sent 1], Client_iteration (Udp_datagram [5]) 7 [Sent 19]]
      (client_start example_os example_client []) = Running c \<and> observed (trace c) = [(1, None)]"
  using client_keeps_forwarding [of example_mode example_os
      "[Client_iteration (Udp_error 11) 0 [Sent 1, Sent 1], Client_iteration (Udp_datagram [5]) 7 [Sent 19]]"
      example_client]
  by (auto simp: kMaxDatagramLength_def isReceiveTimeout_def error_code_defs)

section \<open>A length the buffer does not have\<close>

lemma server_iteration_part:
  assumes "server_inside os cfg ip port s f off" and "frame_representable f"
    and "off + k \<le> sizeof_TunnelPacket" and "0 < k" and "len_to_read s \<noteq> 0"
    and "off + k < length (encode_frame (os_order os) ip port f)"
  shows "\<exists>s'. server_iteration mode os cfg
      (Tcp_data (take k (drop off (encode_frame (os_order os) ip port f)))) sendto us now s = Running s' \<and>
    server_inside os cfg ip port s' f (off + k)"
proof -
  obtain s1 where s1: "received_into (encode_frame (os_order os) ip port f) off k s s1"
    and it: "server_iteration mode os cfg
      (Tcp_data (take k (drop off (encode_frame (os_order os) ip port f)))) sendto us now s =
      handle_received mode os cfg sendto us now s1"
    using server_iteration_received [OF assms(1,3,4) less_imp_le [OF assms(6)] assms(5)] by blast
  have "handle_received mode os cfg sendto us now s1 = Running (s1\<lparr>len_to_read := wanted f (off + k)\<rparr>)"
    using s1 assms(2,6) by (intro handle_received_part) (auto simp: received_into_def)
  with s1 it assms(1,6) show ?thesis
    by (auto simp: server_inside_def received_into_def)
qed

text \<open>
  C24. The server trusts the length field. A client sends the frame of a datagram of more than 1472 bytes
  (the field can name up to 65535): the server reads the preamble and the header as usual, then asks
  \<open>recv\<close> for all the bytes announced, and if more than 1472 of them arrive at once they are written past
  the end of the packet buffer.
\<close>

theorem server_overflow:
  assumes "kMaxDatagramLength < length payload" and "length payload < 2 ^ 16"
  shows "\<exists>s1 s2.
    server_iteration mode os cfg
      (Tcp_data (take 2 (encode_frame (os_order os) ip port (Frame_datagram payload t))))
      sendto us now (initial_server os cfg now es) = Running s1 \<and>
    len_to_read s1 = 16 \<and>
    server_iteration mode os cfg
      (Tcp_data (take 16 (drop 2 (encode_frame (os_order os) ip port (Frame_datagram payload t)))))
      sendto us now s1 = Running s2 \<and>
    len_to_read s2 = length payload \<and>
    (\<forall>n. kMaxDatagramLength < n \<and> n \<le> length payload \<longrightarrow>
      server_iteration mode os cfg (Tcp_data (take n payload)) sendto us now s2 = Out_of_bounds s2)"
proof -
  let ?f = "Frame_datagram payload t"
  let ?s0 = "initial_server os cfg now es"
  have rep: "frame_representable ?f" and long: "1472 < length payload" "payload \<noteq> []"
    using assms by (auto simp: kMaxDatagramLength_def)
  have inside0: "server_inside os cfg ip port ?s0 ?f 0"
    by (simp add: server_inside_def initial_server_def wanted_def kTunnelPacketPreambleLength_def)
  obtain s1 where s1: "server_iteration mode os cfg
      (Tcp_data (take 2 (drop 0 (encode_frame (os_order os) ip port ?f)))) sendto us now ?s0 = Running s1"
    "server_inside os cfg ip port s1 ?f (0 + 2)"
    using server_iteration_part [OF inside0 rep, of 2 mode sendto us now] long
    by (auto simp: sizeof_packet initial_server_def kTunnelPacketPreambleLength_def)
  have want1: "len_to_read s1 = 16"
    using s1(2) by (simp add: server_inside_def wanted_def)
  obtain s2 where s2: "server_iteration mode os cfg
      (Tcp_data (take 16 (drop (0 + 2) (encode_frame (os_order os) ip port ?f)))) sendto us now s1 = Running s2"
    "server_inside os cfg ip port s2 ?f (0 + 2 + 16)"
    using server_iteration_part [OF s1(2) rep, of 16 mode sendto us now] want1 long
    by (auto simp: sizeof_packet)
  have want2: "len_to_read s2 = length payload" "write_pos s2 = 18" "length (buffer s2) = 1490"
    using s2(2) by (simp_all add: server_inside_def wanted_def sizeof_packet)
  have over: "server_iteration mode os cfg (Tcp_data (take n payload)) sendto us now s2 = Out_of_bounds s2"
    if "1472 < n" "n \<le> length payload" for n
  proof -
    have "take n payload \<noteq> []" "length (take n payload) = n"
      using that by auto
    with want2 that show ?thesis
      by (simp add: server_iteration_def write_at_def)
  qed
  note steps = s1(1) [unfolded drop_0] s2(1) [unfolded add_0]
  show ?thesis
    unfolding kMaxDatagramLength_def
    by (intro exI [of _ s1] exI [of _ s2] conjI steps want1 want2(1) allI impI over) blast+
qed

theorem server_overflow_witness:
  "\<exists>s2. server_iteration example_mode example_os example_server
      (Tcp_data (take 1473 (replicate 2000 (0 :: u8)))) None 0 0 s2 = Out_of_bounds s2"
proof -
  have "kMaxDatagramLength < length (replicate 2000 (0 :: u8))" "length (replicate 2000 (0 :: u8)) < 2 ^ 16"
    by (simp_all add: kMaxDatagramLength_def)
  from server_overflow [OF this, of example_mode example_os example_server] show ?thesis
    by (fastforce simp: kMaxDatagramLength_def simp del: take_replicate)
qed

end
