(* ===== verification/Producer.thy ===== *)
theory Producer
  imports Tunneler
begin

text \<open>
  \<open>src/src/Producer.h\<close> and \<open>src/src/Producer.cpp\<close>: the source of numbered test datagrams. What the
  socket calls return and when a stop is requested are inputs, one turn of the loop each.
\<close>

section \<open>Construction\<close>

record producer_options =
  interval_ms :: u32
  send_count :: u64
  payload_prefix :: string

definition default_options :: producer_options where
  "default_options = \<lparr>interval_ms = 1000, send_count = 0, payload_prefix = ''Dummy datagram''\<rparr>"

definition construct_producer :: "config \<Rightarrow> producer_options \<Rightarrow> string + config \<times> producer_options" where
  "construct_producer cfg opts =
     (if \<not> is_client cfg then Inl ''producer requires a client tunnel''
      else if interval_ms opts = 0 then Inl ''--interval-ms must be greater than zero''
      else if payload_prefix opts = [] then Inl ''--payload-prefix must not be empty''
      else Inr (cfg, opts))"

section \<open>The loop\<close>

text \<open>
  A turn: whether a stop is seen at the loop test, what \<open>sendto\<close> returns and the error code at that moment,
  and whether a stop is seen before the pause.
\<close>

record producer_turn =
  stop_before :: bool
  sendto_result :: send_result
  error_code :: int
  stop_after :: bool

text \<open>The effects, and the pauses in milliseconds.\<close>

record producer_state = io +
  pauses :: "u32 list"

definition payload :: "producer_options \<Rightarrow> u64 \<Rightarrow> string" where
  "payload opts number = payload_prefix opts @ '' #'' @ to_string (unat number)"

definition wanted :: "producer_options \<Rightarrow> u64 \<Rightarrow> bool" where
  "wanted opts number \<longleftrightarrow> send_count opts = 0 \<or> number \<le> send_count opts"

definition sent_log :: "run_mode \<Rightarrow> u64 \<Rightarrow> string \<Rightarrow> output_call" where
  "sent_log mode number text =
     (if compact_mode mode
      then LogCompactMessage Info (''sent #'' @ to_string (unat number) @ '' | '' @ to_string (length text) @ '' B'')
      else INFO (''Sent '' @ c_str text))"

definition pause :: "producer_options \<Rightarrow> producer_turn \<Rightarrow> u64 \<Rightarrow> producer_state \<Rightarrow> producer_state" where
  "pause opts turn number s =
     (if \<not> stop_after turn \<and> (send_count opts = 0 \<or> number < send_count opts)
      then s\<lparr>pauses := pauses s @ [interval_ms opts]\<rparr> else s)"

fun producer_loop ::
  "run_mode \<Rightarrow> endpoint_address \<Rightarrow> producer_options \<Rightarrow> u64 \<Rightarrow> producer_turn list \<Rightarrow> producer_state \<Rightarrow>
   producer_state outcome" where
  "producer_loop mode destination opts number [] s =
     (if wanted opts number then Blocked s else Returned s)"
| "producer_loop mode destination opts number (turn # turns) s =
     (if stop_before turn \<or> \<not> wanted opts number then Returned s
      else
        (let text = payload opts number
         in if kMaxDatagramLength < length text then
              Threw ''producer payload exceeds the maximum datagram length'' s
            else if sendto_result turn \<noteq> Sent (length text) then
              Threw (''could not send dummy datagram (error '' @ show_int (error_code turn) @ '')'') s
            else producer_loop mode destination opts (number + 1) turns
              (pause opts turn number
                (emit [Published destination (map char_byte text), Output (RecordDatagram (length text)),
                       Output (sent_log mode number text)] s))))"

definition producer_ready :: "run_mode \<Rightarrow> config \<Rightarrow> producer_options \<Rightarrow> output_call" where
  "producer_ready mode cfg opts =
     (if compact_mode mode then LogCompactMessage Info ''ready''
      else INFO (''Producer sending to multicast '' @ c_str (udp_dst_ip cfg) @ '':'' @ to_string (unat (udp_dst_port cfg)) @
        '' via '' @ c_str (udp_iface_ip cfg) @ '' every '' @ to_string (unat (interval_ms opts)) @ '' ms'' @
        (if send_count opts = 0 then '' until interrupted'' else [])))"

definition producer_calls :: "os \<Rightarrow> sys \<Rightarrow> config \<Rightarrow> string + syscall list \<times> endpoint_address" where
  "producer_calls os sys cfg =
     and_then (call_or_throw sys Sys_socket_dgram
         (\<lambda>e. ''could not create UDP socket (error '' @ show_int e @ '')'')) (\<lambda>c1.
     case os_inet_pton os (c_str (udp_iface_ip cfg)) of
       None \<Rightarrow> Inl ''producer has an invalid UDP interface address''
     | Some interface_address \<Rightarrow>
         and_then (call_or_throw sys (Sys_multicast_if interface_address)
             (\<lambda>e. ''could not set multicast producer interface (error '' @ show_int e @ '')'')) (\<lambda>c2.
         and_then (call_or_throw sys (Sys_multicast_loop 1)
             (\<lambda>e. ''could not enable multicast loopback (error '' @ show_int e @ '')'')) (\<lambda>c3.
         case os_inet_pton os (c_str (udp_dst_ip cfg)) of
           None \<Rightarrow> Inl ''producer has an invalid multicast group address''
         | Some group_address \<Rightarrow>
             Inr (c1 @ c2 @ c3, \<lparr>sin_port = htons (os_order os) (udp_dst_port cfg), sin_addr = group_address\<rparr>))))"

definition producer_run ::
  "os \<Rightarrow> sys \<Rightarrow> run_mode \<Rightarrow> config \<Rightarrow> producer_options \<Rightarrow> producer_turn list \<Rightarrow> producer_state outcome" where
  "producer_run os sys mode cfg opts turns =
     (let s = \<lparr>trace = [], pauses = []\<rparr>
      in case producer_calls os sys cfg of
           Inl message \<Rightarrow> Threw message s
         | Inr (calls, destination) \<Rightarrow>
             producer_loop mode destination opts 1 turns (emit [Output (producer_ready mode cfg opts)] s))"

section \<open>The datagrams of a run\<close>

lemma pause_trace [simp]: "trace (pause opts turn number s) = trace s"
  by (simp add: pause_def)

text \<open>The datagrams with the numbers from \<open>a\<close> up to before \<open>b\<close>.\<close>

definition numbered :: "endpoint_address \<Rightarrow> producer_options \<Rightarrow> nat \<Rightarrow> nat \<Rightarrow> (endpoint_address \<times> bytes) list" where
  "numbered destination opts a b =
     map (\<lambda>i. (destination, map char_byte (payload_prefix opts @ '' #'' @ to_string i))) [a..<b]"

lemma numbered_step: "a < b \<Longrightarrow> numbered destination opts a b =
    (destination, map char_byte (payload_prefix opts @ '' #'' @ to_string a)) # numbered destination opts (Suc a) b"
  by (simp add: numbered_def upt_conv_Cons)

definition stops :: "producer_turn list \<Rightarrow> bool" where
  "stops turns \<longleftrightarrow> (\<exists>turn \<in> set turns. stop_before turn)"

lemma producer_loop_sequence:
  assumes "n + length turns < 2 ^ 64" and "send_count opts \<noteq> 0 \<longrightarrow> n \<le> Suc (unat (send_count opts))"
  shows "\<exists>m \<ge> n. published (trace (final_state (producer_loop mode d opts (of_nat n) turns s))) =
      published (trace s) @ numbered d opts n m \<and> m \<le> n + length turns \<and>
    (send_count opts \<noteq> 0 \<longrightarrow> m \<le> Suc (unat (send_count opts))) \<and>
    (\<forall>i. n \<le> i \<and> i < m \<longrightarrow> length (payload_prefix opts @ '' #'' @ to_string i) \<le> kMaxDatagramLength) \<and>
    (\<exists>k \<le> m - n. pauses (final_state (producer_loop mode d opts (of_nat n) turns s)) =
      pauses s @ replicate k (interval_ms opts)) \<and>
    ((\<exists>s'. producer_loop mode d opts (of_nat n) turns s = Returned s') \<and> \<not> stops turns \<longrightarrow>
      send_count opts \<noteq> 0 \<and> m = Suc (unat (send_count opts)))"
  using assms
proof (induction turns arbitrary: n s)
  case Nil
  then have n: "unat (of_nat n :: u64) = n"
    by (simp add: unsigned_of_nat take_bit_nat_eq_self)
  show ?case
    using Nil n by (intro exI [of _ n]) (auto simp: numbered_def wanted_def word_le_nat_alt)
next
  case (Cons turn turns)
  have n: "unat (of_nat n :: u64) = n"
    using Cons.prems(1) by (simp add: unsigned_of_nat take_bit_nat_eq_self)
  let ?text = "payload_prefix opts @ '' #'' @ to_string n"
  have payload: "payload opts (of_nat n) = ?text"
    by (simp add: payload_def n)
  let ?r = "producer_loop mode d opts (of_nat n) (turn # turns) s"
  consider (stop) "stop_before turn \<or> \<not> wanted opts (of_nat n)"
    | (long) "\<not> stop_before turn" "wanted opts (of_nat n)" "kMaxDatagramLength < length ?text"
    | (failed) "\<not> stop_before turn" "wanted opts (of_nat n)" "length ?text \<le> kMaxDatagramLength"
        "sendto_result turn \<noteq> Sent (length ?text)"
    | (sent) "\<not> stop_before turn" "wanted opts (of_nat n)" "length ?text \<le> kMaxDatagramLength"
        "sendto_result turn = Sent (length ?text)"
    by linarith
  then show ?case
  proof cases
    case stop
    then have "?r = Returned s"
      by simp
    with stop Cons.prems n show ?thesis
      by (intro exI [of _ n]) (auto simp: numbered_def wanted_def stops_def word_le_nat_alt)
  next
    case long
    then have "?r = Threw ''producer payload exceeds the maximum datagram length'' s"
      by (simp add: payload Let_def)
    with Cons.prems show ?thesis
      by (intro exI [of _ n]) (auto simp: numbered_def)
  next
    case failed
    then have "\<exists>message. ?r = Threw message s"
      by (simp add: payload Let_def)
    with Cons.prems show ?thesis
      by (intro exI [of _ n]) (auto simp: numbered_def)
  next
    case sent
    define s1 where "s1 = pause opts turn (of_nat n) (emit [Published d (map char_byte ?text),
      Output (RecordDatagram (length ?text)), Output (sent_log mode (of_nat n) ?text)] s)"
    have r: "?r = producer_loop mode d opts (of_nat (Suc n)) turns s1"
      using sent by (simp add: payload s1_def Let_def add.commute)
    have pub: "published (trace s1) = published (trace s) @ [(d, map char_byte ?text)]"
      by (simp add: s1_def)
    obtain k1 where k1: "k1 \<le> 1" "pauses s1 = pauses s @ replicate k1 (interval_ms opts)"
      by (cases "pauses s1 = pauses s")
        (force simp: s1_def pause_def emit_def split: if_splits intro: that [of 0] that [of 1])+
    have bound: "Suc n + length turns < 2 ^ 64" "send_count opts \<noteq> 0 \<longrightarrow> Suc n \<le> Suc (unat (send_count opts))"
      using Cons.prems(1) sent(2) n by (auto simp: wanted_def word_le_nat_alt)
    obtain m k where m: "Suc n \<le> m" "published (trace (final_state ?r)) =
          published (trace s1) @ numbered d opts (Suc n) m" "m \<le> Suc n + length turns"
        "send_count opts \<noteq> 0 \<longrightarrow> m \<le> Suc (unat (send_count opts))"
        "\<forall>i. Suc n \<le> i \<and> i < m \<longrightarrow> length (payload_prefix opts @ '' #'' @ to_string i) \<le> kMaxDatagramLength"
        "(\<exists>s'. ?r = Returned s') \<and> \<not> stops turns \<longrightarrow> send_count opts \<noteq> 0 \<and> m = Suc (unat (send_count opts))"
      and k: "k \<le> m - Suc n" "pauses (final_state ?r) = pauses s1 @ replicate k (interval_ms opts)"
      using Cons.IH [OF bound, of s1, folded r] by (elim exE conjE) (rule that)
    have "length (payload_prefix opts @ '' #'' @ to_string i) \<le> kMaxDatagramLength" if "n \<le> i" "i < m" for i
      using that m(5) sent(3) by (cases "i = n") auto
    moreover have "pauses (final_state ?r) = pauses s @ replicate (k1 + k) (interval_ms opts)" "k1 + k \<le> m - n"
      using k k1 m(1) by (simp_all add: replicate_add)
    ultimately show ?thesis
      using m pub numbered_step [of n m d opts] by (intro exI [of _ m]) (auto simp: stops_def)
  qed
qed

text \<open>
  C39. A producer sends its prefix with the numbers 1, 2, 3 and so on, without gap or repetition, never more
  datagrams than were asked for and never one of more than 1472 bytes; it pauses at most once after each, for
  the interval. When it returns without having been stopped, it has sent exactly the number asked for.
\<close>

theorem producer_sequence:
  assumes "length turns < 2 ^ 64 - 1"
  shows "\<exists>m. published (trace (final_state (producer_loop mode d opts 1 turns s))) =
      published (trace s) @ map (\<lambda>i. (d, map char_byte (payload_prefix opts @ '' #'' @ to_string i))) [1..<Suc m] \<and>
    m \<le> length turns \<and> (send_count opts \<noteq> 0 \<longrightarrow> m \<le> unat (send_count opts)) \<and>
    (\<forall>i. 1 \<le> i \<and> i \<le> m \<longrightarrow> length (payload_prefix opts @ '' #'' @ to_string i) \<le> 1472) \<and>
    (\<exists>k \<le> m. pauses (final_state (producer_loop mode d opts 1 turns s)) = pauses s @ replicate k (interval_ms opts)) \<and>
    ((\<exists>s'. producer_loop mode d opts 1 turns s = Returned s') \<and> (\<forall>turn \<in> set turns. \<not> stop_before turn) \<longrightarrow>
      send_count opts \<noteq> 0 \<and> m = unat (send_count opts))"
proof -
  have "send_count opts \<noteq> 0 \<longrightarrow> 1 \<le> Suc (unat (send_count opts))"
    by simp
  from producer_loop_sequence [of 1 turns opts mode d s, OF _ this] assms
  obtain m where m: "1 \<le> m" and rest: "published (trace (final_state (producer_loop mode d opts 1 turns s))) =
      published (trace s) @ numbered d opts 1 m" "m \<le> 1 + length turns"
      "send_count opts \<noteq> 0 \<longrightarrow> m \<le> Suc (unat (send_count opts))"
      "\<forall>i. 1 \<le> i \<and> i < m \<longrightarrow> length (payload_prefix opts @ '' #'' @ to_string i) \<le> kMaxDatagramLength"
      "\<exists>k \<le> m - 1. pauses (final_state (producer_loop mode d opts 1 turns s)) = pauses s @ replicate k (interval_ms opts)"
      "(\<exists>s'. producer_loop mode d opts 1 turns s = Returned s') \<and> \<not> stops turns \<longrightarrow>
        send_count opts \<noteq> 0 \<and> m = Suc (unat (send_count opts))"
    by (auto simp del: One_nat_def)
  then obtain m' where "m = Suc m'"
    by (cases m) auto
  with rest show ?thesis
    by (intro exI [of _ m']) (auto simp: numbered_def stops_def kMaxDatagramLength_def)
qed

definition example_turns :: "producer_turn list" where
  "example_turns = [\<lparr>stop_before = False, sendto_result = Sent 17, error_code = 0, stop_after = False\<rparr>]"

theorem producer_sequence_witness:
  "published (trace (final_state (producer_loop \<lparr>ndebug = False, compact_mode = True, verbose_mode = False\<rparr>
      \<lparr>sin_port = 5000, sin_addr = 1\<rparr> (default_options\<lparr>send_count := 1\<rparr>) 1 example_turns \<lparr>trace = [], pauses = []\<rparr>))) =
    [(\<lparr>sin_port = 5000, sin_addr = 1\<rparr>, map char_byte ''Dummy datagram #1'')]"
proof -
  let ?mode = "\<lparr>ndebug = False, compact_mode = True, verbose_mode = False\<rparr>"
  let ?d = "\<lparr>sin_port = 5000, sin_addr = 1\<rparr> :: endpoint_address" and ?opts = "default_options\<lparr>send_count := 1\<rparr>"
  let ?s = "\<lparr>trace = [], pauses = []\<rparr> :: producer_state"
  have one: "to_string 1 = ''1''"
    by (simp add: to_string.simps digit_char_simps)
  have returned: "\<exists>s'. producer_loop ?mode ?d ?opts 1 example_turns ?s = Returned s'"
    using one by (simp add: example_turns_def payload_def wanted_def default_options_def kMaxDatagramLength_def Let_def word_le_nat_alt)
  have "length example_turns < 2 ^ 64 - 1"
    by (simp add: example_turns_def)
  from producer_sequence [OF this, of ?mode ?d ?opts ?s] obtain m where
    m: "published (trace (final_state (producer_loop ?mode ?d ?opts 1 example_turns ?s))) =
      published (trace ?s) @ map (\<lambda>i. (?d, map char_byte (payload_prefix ?opts @ '' #'' @ to_string i))) [1..<Suc m]"
    "(\<exists>s'. producer_loop ?mode ?d ?opts 1 example_turns ?s = Returned s') \<and>
      (\<forall>turn \<in> set example_turns. \<not> stop_before turn) \<longrightarrow> send_count ?opts \<noteq> 0 \<and> m = unat (send_count ?opts)"
    by (elim exE conjE) (rule that)
  have "\<forall>turn \<in> set example_turns. \<not> stop_before turn"
    by (simp add: example_turns_def)
  with returned m(2) have "m = 1"
    by auto
  then show ?thesis
    unfolding m(1) using one by (simp add: default_options_def)
qed

end
