(* ===== verification/Managed_Tunnel.thy ===== *)
theory Managed_Tunnel
  imports Runtime_History Tunnel_Link Producer
begin

text \<open>
  The threads of managed tunnels and producers: \<open>Managed_Runtime\<close> leaves the actions of a worker's thread
  free; here they are those of the functions \<open>startTunnel\<close> and \<open>startProducerWorker\<close> give to the thread, which
  construct a tunneler or a producer, run it, the tunneler with an observer that reports to the worker, and
  make the last transition.
\<close>

section \<open>The run of a tunneler\<close>

text \<open>What the socket calls of a run answer, on either side.\<close>

record tunnel_inputs =
  in_connect :: connect_env
  in_join :: "int option"
  in_client :: "client_input list"
  in_server_env :: server_env
  in_server :: "server_input list"

text \<open>
  How a run ended, as the thread sees it: it returned or threw. \<open>None\<close>: it goes on, or an assertion or a
  write outside its buffer ended the program.
\<close>

fun how_ended :: "'s outcome \<Rightarrow> thread_action option" where
  "how_ended (Returned s) = Some Run_returned"
| "how_ended (Threw message s) = Some (Run_threw message)"
| "how_ended (Running s) = None"
| "how_ended (Blocked s) = None"
| "how_ended (Aborted s) = None"
| "how_ended (Out_of_bounds s) = None"

text \<open>\<open>DatagramTunneler::run\<close>: the effects and the end.\<close>

definition run_tunneler :: "run_mode \<Rightarrow> os \<Rightarrow> config \<Rightarrow> tunnel_inputs \<Rightarrow> effect list \<times> thread_action option" where
  "run_tunneler mode os cfg ins =
     (if is_client cfg then
        (let out = runClient mode os cfg (in_connect ins) (in_join ins) (in_client ins)
         in (trace (final_state out), how_ended out))
      else
        (let out = runServer mode os cfg (in_server_env ins) (in_server ins)
         in (trace (final_state out), how_ended out)))"

text \<open>The body of the \<open>try\<close> block, with the exceptions of the constructor.\<close>

definition tunneler_run ::
  "os \<Rightarrow> sys \<Rightarrow> run_mode \<Rightarrow> config \<Rightarrow> tunnel_inputs \<Rightarrow> effect list \<times> thread_action option" where
  "tunneler_run os sys mode cfg ins =
     (case construct_tunneler os sys cfg of
        Inl message \<Rightarrow> ([], Some (Run_threw message))
      | Inr (resolved, calls) \<Rightarrow> run_tunneler mode os resolved ins)"

text \<open>
  The observer: a datagram is reported to the worker with the steady and the system clock, a connection is
  a transition, which is published.
\<close>

definition observer_action :: "nat \<times> nat \<Rightarrow> effect \<Rightarrow> thread_action list" where
  "observer_action clocks e =
     (case e of
        Observed n latency \<Rightarrow> [Datagram_seen (fst clocks) (snd clocks) n latency]
      | Connection_connected \<Rightarrow> [Connection_made, Publish_pending (snd clocks)]
      | _ \<Rightarrow> [])"

fun observer_actions :: "(nat \<Rightarrow> nat \<times> nat) \<Rightarrow> effect list \<Rightarrow> thread_action list" where
  "observer_actions clock [] = []"
| "observer_actions clock (e # es) = observer_action (clock 0) e @ observer_actions (\<lambda>k. clock (Suc k)) es"

text \<open>The whole function of the thread, \<open>now\<close> being the clocks at its beginning and its end.\<close>

definition tunnel_thread ::
  "os \<Rightarrow> sys \<Rightarrow> run_mode \<Rightarrow> config \<Rightarrow> tunnel_inputs \<Rightarrow> nat \<Rightarrow> (nat \<Rightarrow> nat \<times> nat) \<Rightarrow> nat \<Rightarrow> thread_action list" where
  "tunnel_thread os sys mode cfg ins began clock ended =
     (let (es, last_action) = tunneler_run os sys mode cfg ins
      in Begin began # (if is_client cfg then [] else [Publish_pending began]) @ observer_actions clock es @
         (case last_action of None \<Rightarrow> [] | Some act \<Rightarrow> [act, Publish_pending ended, End_thread]))"

text \<open>The function of a producer's thread. Nothing the producer does is reported to the worker.\<close>

definition worker_producer_run ::
  "os \<Rightarrow> sys \<Rightarrow> run_mode \<Rightarrow> config \<Rightarrow> producer_options \<Rightarrow> producer_turn list \<Rightarrow> effect list \<times> thread_action option" where
  "worker_producer_run os sys mode cfg opts turns =
     (case construct_producer cfg opts of
        Inl message \<Rightarrow> ([], Some (Run_threw message))
      | Inr (cfg, opts) \<Rightarrow>
          (let out = producer_run os sys mode cfg opts turns in (trace (final_state out), how_ended out)))"

definition producer_thread ::
  "os \<Rightarrow> sys \<Rightarrow> run_mode \<Rightarrow> config \<Rightarrow> producer_options \<Rightarrow> producer_turn list \<Rightarrow> nat \<Rightarrow> nat \<Rightarrow> thread_action list" where
  "producer_thread os sys mode cfg opts turns began ended =
     [Begin began, Publish_pending began] @
     (case snd (worker_producer_run os sys mode cfg opts turns) of
        None \<Rightarrow> [] | Some act \<Rightarrow> [act, Publish_pending ended, End_thread])"

section \<open>Connections in a trace\<close>

definition keeps_connections :: "'a io_scheme \<Rightarrow> 'a io_scheme \<Rightarrow> bool" where
  "keeps_connections s s' \<longleftrightarrow>
     filter ((=) Connection_connected) (trace s') = filter ((=) Connection_connected) (trace s)"

lemma keeps_connections_refl [simp]: "keeps_connections s s"
  by (simp add: keeps_connections_def)

lemma keeps_connections_trans: "keeps_connections s s' \<Longrightarrow> keeps_connections s' s'' \<Longrightarrow> keeps_connections s s''"
  by (simp add: keeps_connections_def)

lemma keeps_connections_emit [simp]:
  "keeps_connections s (emit es s) \<longleftrightarrow> Connection_connected \<notin> set es"
  by (auto simp: keeps_connections_def filter_empty_conv)

lemma reportIfDue_connections [simp]:
  "filter ((=) Connection_connected) (trace (reportIfDue mode now s)) = filter ((=) Connection_connected) (trace s)"
  by (simp add: reportIfDue_def Let_def)

lemma measure_latency_connections [simp]:
  "filter ((=) Connection_connected) (trace (snd (measure_latency mode pkt us now s))) =
   filter ((=) Connection_connected) (trace s)"
  by (simp add: measure_latency_def Let_def)

lemma publish_packet_connections:
  "keeps_connections s (final_state (publish_packet mode os cfg sendto us now s))"
  by (cases sendto) (simp_all add: publish_packet_def Let_def case_prod_beta keeps_connections_def)

lemma handle_received_connections:
  "keeps_connections s (final_state (handle_received mode os cfg sendto us now s))"
  using publish_packet_connections [of s mode os cfg sendto us now]
  by (simp add: handle_received_def Let_def keeps_connections_def)

lemma server_iteration_connections:
  "keeps_connections s (final_state (server_iteration mode os cfg received sendto us now s))"
  using handle_received_connections [of _ mode os cfg sendto us now]
  by (cases received)
    (simp_all add: server_iteration_def keeps_connections_def split: option.split)

lemma server_loop_connections: "keeps_connections s (final_state (server_loop mode os cfg inputs s))"
proof (induction mode os cfg inputs s rule: server_loop.induct)
  case (3 mode os cfg received sendto us now inputs s)
  show ?case
  proof (cases "server_iteration mode os cfg received sendto us now s")
    case (Running s')
    with 3 server_iteration_connections [of s mode os cfg received sendto us now] show ?thesis
      by (auto intro: keeps_connections_trans)
  qed (use server_iteration_connections [of s mode os cfg received sendto us now] in simp_all)
qed simp_all

lemma client_send_connections: "keeps_connections s (final_state (client_send os sends s))"
  by (auto simp: client_send_def Let_def case_prod_beta keeps_connections_def split: send_outcome.split)

lemma client_iteration_connections:
  "keeps_connections s (final_state (client_iteration mode os received now sends s))"
  using client_send_connections
  by (auto simp: client_iteration_def Let_def keeps_connections_def split: udp_recv.split)

lemma client_loop_connections: "keeps_connections s (final_state (client_loop mode os inputs s))"
proof (induction mode os inputs s rule: client_loop.induct)
  case (3 mode os received now sends inputs s)
  show ?case
  proof (cases "client_iteration mode os received now sends s")
    case (Running s')
    with 3 client_iteration_connections [of s mode os received now sends] show ?thesis
      by (auto intro: keeps_connections_trans)
  qed (use client_iteration_connections [of s mode os received now sends] in simp_all)
qed simp_all

text \<open>A server connects to nobody, a client at most once.\<close>

lemma server_never_connects:
  "filter ((=) Connection_connected) (trace (final_state (runServer mode os cfg env inputs))) = []"
  by (cases "listen_result env"; cases "listen_timeout_result env"; cases "accept_loop os (accepts env)";
      cases "client_timeout_result env")
    (simp_all add: runServer_def Let_def initial_server_def server_loop_connections [unfolded keeps_connections_def])

lemma client_connects_once:
  "length (filter ((=) Connection_connected) (trace (final_state (runClient mode os cfg env join inputs)))) \<le> 1"
proof (cases "fst (connectClientWithTimeout os cfg env)")
  case (Some r)
  show ?thesis
  proof (cases r)
    case (Inr connected)
    note loop = client_loop_connections [unfolded keeps_connections_def]
    show ?thesis
      by (cases connected; cases join) (simp_all add: runClient_def Let_def Some Inr loop)
  qed (simp add: runClient_def Let_def Some)
qed (simp add: runClient_def Let_def)

section \<open>The events of a managed tunnel\<close>

text \<open>What a subscriber sees of an event.\<close>

definition shown :: "control_event \<Rightarrow> string \<times> event_severity \<times> tunnel_state option \<times> string" where
  "shown e = (event_alias e, event_severity_of e, map_option snap_state (event_snapshot e), event_message e)"

definition in_run :: "nat \<Rightarrow> runtime_kind \<Rightarrow> string \<Rightarrow> config \<Rightarrow> bool \<Rightarrow> runtime \<Rightarrow> bool" where
  "in_run i kind al cfg stop rt \<longleftrightarrow>
     i < length (heap rt) \<and> thread (heap rt ! i) = In_run \<and> pending (heap rt ! i) = None \<and>
     snap_kind (snap (heap rt ! i)) = kind \<and> snap_alias (snap (heap rt ! i)) = al \<and>
     wconfig (heap rt ! i) = cfg \<and> stop_requested (heap rt ! i) = stop"

abbreviation by_thread :: "nat \<Rightarrow> thread_action list \<Rightarrow> move list" where
  "by_thread i \<equiv> map (\<lambda>act. Thread_move act i)"

definition connected_event :: "string \<Rightarrow> config \<Rightarrow> string \<times> event_severity \<times> tunnel_state option \<times> string" where
  "connected_event al cfg = (al, Severity_info, Some TS_Connected, ''Connected to '' @ server_text cfg)"

lemma thread_actions_by_thread [simp]: "thread_actions i (by_thread i acts) = acts"
  by (induction acts) simp_all

lemma recordDatagram_wconfig [simp]: "wconfig (recordDatagram st sy n l w) = wconfig w"
  by (simp add: recordDatagram_def Let_def split: option.split)

lemma observed_move:
  assumes "in_run i Kind_tunnel al cfg stop rt"
  shows "\<exists>rt'. run_moves (by_thread i [Datagram_seen steady system n latency]) (rt, cs) = Some (rt', cs) \<and>
    in_run i Kind_tunnel al cfg stop rt' \<and> sink rt' = sink rt"
  using assms by (auto simp: in_run_def thread_step_def worker_action_def)

lemma connected_move:
  assumes "in_run i Kind_tunnel al cfg stop rt" and "is_client cfg"
  shows "\<exists>rt'. run_moves (by_thread i [Connection_made, Publish_pending now]) (rt, cs) = Some (rt', cs) \<and>
    in_run i Kind_tunnel al cfg stop rt' \<and> map shown (sink rt') = map shown (sink rt) @ [connected_event al cfg]"
  using assms
  by (auto simp: in_run_def thread_step_def worker_action_def transition_def set_state_def Let_def publish_def
      lifecycle_event_def shown_def connected_event_def)

lemma observer_moves:
  assumes "in_run i Kind_tunnel al cfg stop rt" and "Connection_connected \<in> set es \<Longrightarrow> is_client cfg"
  shows "\<exists>rt'. run_moves (by_thread i (observer_actions clock es)) (rt, cs) = Some (rt', cs) \<and>
    in_run i Kind_tunnel al cfg stop rt' \<and>
    map shown (sink rt') = map shown (sink rt) @
      map (\<lambda>e. connected_event al cfg) (filter ((=) Connection_connected) es)"
  using assms
proof (induction es arbitrary: rt clock)
  case (Cons e es)
  have rest: "\<exists>rt2. run_moves (by_thread i (observer_actions (\<lambda>k. clock (Suc k)) es)) (rt1, cs) = Some (rt2, cs) \<and>
      in_run i Kind_tunnel al cfg stop rt2 \<and> map shown (sink rt2) = map shown (sink rt1) @
        map (\<lambda>e. connected_event al cfg) (filter ((=) Connection_connected) es)"
    if "in_run i Kind_tunnel al cfg stop rt1" for rt1
    using Cons.IH [OF that] Cons.prems(2) by simp
  obtain rt1 where first: "run_moves (by_thread i (observer_action (clock 0) e)) (rt, cs) = Some (rt1, cs)"
    "in_run i Kind_tunnel al cfg stop rt1"
    "map shown (sink rt1) = map shown (sink rt) @ (if e = Connection_connected then [connected_event al cfg] else [])"
  proof (cases e)
    case (Observed n latency)
    obtain rt1 where "run_moves (by_thread i [Datagram_seen (fst (clock 0)) (snd (clock 0)) n latency]) (rt, cs) = Some (rt1, cs)"
      "in_run i Kind_tunnel al cfg stop rt1" "sink rt1 = sink rt"
      using observed_move [OF Cons.prems(1)] by blast
    with Observed that show ?thesis
      by (simp add: observer_action_def)
  next
    case Connection_connected
    obtain rt1 where "run_moves (by_thread i [Connection_made, Publish_pending (snd (clock 0))]) (rt, cs) = Some (rt1, cs)"
      "in_run i Kind_tunnel al cfg stop rt1" "map shown (sink rt1) = map shown (sink rt) @ [connected_event al cfg]"
      using connected_move [OF Cons.prems(1)] Cons.prems(2) Connection_connected by fastforce
    with Connection_connected that show ?thesis
      by (simp add: observer_action_def)
  qed (use Cons.prems(1) that in \<open>simp_all add: observer_action_def\<close>)
  from rest [OF first(2)] first show ?case
    by (fastforce simp: run_steps_append)
qed simp

text \<open>The beginning and the end.\<close>

definition begun_event :: "string \<Rightarrow> string \<times> event_severity \<times> tunnel_state option \<times> string" where
  "begun_event al = (al, Severity_info, Some TS_Running, ''Running'')"

fun ended_event :: "runtime_kind \<Rightarrow> string \<Rightarrow> bool \<Rightarrow> thread_action \<Rightarrow> string \<times> event_severity \<times> tunnel_state option \<times> string" where
  "ended_event kind al stop (Run_threw message) = (al, Severity_error, Some TS_Failed, message)"
| "ended_event kind al stop act =
     (al, Severity_info, Some TS_Stopped,
      if stop then ''Stopped by request''
      else case kind of Kind_tunnel \<Rightarrow> ''Tunnel finished'' | Kind_producer \<Rightarrow> ''Producer finished'')"

lemma begin_moves:
  assumes "i < length (heap rt)" and "thread (heap rt ! i) = At_entry" and "pending (heap rt ! i) = None"
    and "snap_kind (snap (heap rt ! i)) = Kind_tunnel" and "snap_alias (snap (heap rt ! i)) = al"
    and "wconfig (heap rt ! i) = cfg" and "stop_requested (heap rt ! i) = stop"
  shows "\<exists>rt'. run_moves (by_thread i (Begin began # (if is_client cfg then [] else [Publish_pending began]))) (rt, cs) =
      Some (rt', cs) \<and> in_run i Kind_tunnel al cfg stop rt' \<and>
    map shown (sink rt') = map shown (sink rt) @ (if is_client cfg then [] else [begun_event al])"
  using assms
  by (auto simp: in_run_def thread_step_def worker_action_def begin_worker_def transition_def set_state_def Let_def
      publish_def lifecycle_event_def shown_def begun_event_def)

lemma end_moves:
  assumes "in_run i kind al cfg stop rt" and "act = Run_returned \<or> (\<exists>message. act = Run_threw message)"
  shows "\<exists>rt'. run_moves (by_thread i [act, Publish_pending ended, End_thread]) (rt, cs) = Some (rt', cs) \<and>
    thread (heap rt' ! i) = Exited \<and> map shown (sink rt') = map shown (sink rt) @ [ended_event kind al stop act]"
  using assms
  by (auto simp: in_run_def thread_step_def worker_action_def transition_def set_state_def Let_def finished_detail_def
      publish_def lifecycle_event_def shown_def)

lemma tunneler_run_connections:
  "filter ((=) Connection_connected) (fst (tunneler_run os sys mode cfg ins)) \<in>
     (if is_client cfg then {[], [Connection_connected]} else {[]})"
proof (cases "construct_tunneler os sys cfg")
  case (Inr r)
  obtain resolved calls where r: "r = (resolved, calls)"
    by (cases r)
  have same: "is_client resolved = is_client cfg"
    using Inr r by (auto simp: construct_tunneler_def and_then_eq_Inr resolve_config_def Let_def split: option.splits if_splits)
  show ?thesis
  proof (cases "is_client cfg")
    case True
    let ?es = "filter ((=) Connection_connected) (fst (tunneler_run os sys mode cfg ins))"
    have "length ?es \<le> 1"
      using client_connects_once True same by (simp add: tunneler_run_def run_tunneler_def Inr r Let_def)
    moreover have "set ?es \<subseteq> {Connection_connected}"
      by auto
    ultimately have "?es = [] \<or> ?es = [Connection_connected]"
      by (cases ?es) auto
    with True show ?thesis
      by simp
  next
    case False
    with same show ?thesis
      by (simp add: tunneler_run_def run_tunneler_def Inr r Let_def server_never_connects)
  qed
qed (simp add: tunneler_run_def)

lemma how_ended_cases: "how_ended out = Some act \<Longrightarrow> act = Run_returned \<or> (\<exists>message. act = Run_threw message)"
  by (cases out) auto

lemma tunneler_run_end:
  "snd (tunneler_run os sys mode cfg ins) = Some act \<Longrightarrow> act = Run_returned \<or> (\<exists>message. act = Run_threw message)"
  by (auto simp: tunneler_run_def run_tunneler_def Let_def how_ended_cases split: sum.splits prod.splits if_splits)

text \<open>
  C6. The thread of a managed tunnel from its beginning to its end, for anything the socket calls answer: every
  action it takes is possible, and subscribers are told that a server runs as soon as its thread begins, that
  a client is connected when (and only when, and at most once) its connection is made, and in the end either
  that the tunnel failed, with the message of the exception that the constructor or the run threw, or that it
  stopped, on request or by itself; then the thread ends. Nothing is told after that or in between.
\<close>

theorem managed_tunnel_events:
  assumes "i < length (heap rt)" and "thread (heap rt ! i) = At_entry" and "pending (heap rt ! i) = None"
    and "snap_kind (snap (heap rt ! i)) = Kind_tunnel" and "wconfig (heap rt ! i) = cfg"
    and "tunneler_run os sys mode cfg ins = (es, last_action)"
  shows "\<exists>rt' connected. run_moves (by_thread i (tunnel_thread os sys mode cfg ins began clock ended)) (rt, cs) =
      Some (rt', cs) \<and>
    connected = (if Connection_connected \<in> set es
      then [connected_event (snap_alias (snap (heap rt ! i))) cfg] else []) \<and>
    map shown (sink rt') = map shown (sink rt) @
      (if is_client cfg then connected else [begun_event (snap_alias (snap (heap rt ! i)))]) @
      (case last_action of None \<Rightarrow> []
       | Some act \<Rightarrow> [ended_event Kind_tunnel (snap_alias (snap (heap rt ! i))) (stop_requested (heap rt ! i)) act]) \<and>
    thread (heap rt' ! i) = (if last_action = None then In_run else Exited)"
proof -
  let ?al = "snap_alias (snap (heap rt ! i))" and ?stop = "stop_requested (heap rt ! i)"
  have once: "filter ((=) Connection_connected) es \<in> (if is_client cfg then {[], [Connection_connected]} else {[]})"
    using tunneler_run_connections [of os sys mode cfg ins] assms(6) by simp
  then have client: "is_client cfg" if "Connection_connected \<in> set es"
    using that by (auto simp: filter_empty_conv split: if_splits)
  have told: "map (\<lambda>e. connected_event ?al cfg) (filter ((=) Connection_connected) es) =
      (if Connection_connected \<in> set es then [connected_event ?al cfg] else [])"
    using once by (auto simp: filter_empty_conv filter_eq_Cons_iff split: if_splits)
  obtain rt1 where rt1: "run_moves (by_thread i (Begin began # (if is_client cfg then [] else [Publish_pending began]))) (rt, cs) =
      Some (rt1, cs)" "in_run i Kind_tunnel ?al cfg ?stop rt1"
    "map shown (sink rt1) = map shown (sink rt) @ (if is_client cfg then [] else [begun_event ?al])"
    using begin_moves [OF assms(1-4) refl assms(5) refl] by blast
  obtain rt2 where rt2: "run_moves (by_thread i (observer_actions clock es)) (rt1, cs) = Some (rt2, cs)"
    "in_run i Kind_tunnel ?al cfg ?stop rt2" "map shown (sink rt2) = map shown (sink rt1) @
      (if Connection_connected \<in> set es then [connected_event ?al cfg] else [])"
    using observer_moves [OF rt1(2), of es clock cs] client told by auto
  obtain rt3 where rt3: "run_moves (by_thread i (case last_action of None \<Rightarrow> []
        | Some act \<Rightarrow> [act, Publish_pending ended, End_thread])) (rt2, cs) = Some (rt3, cs)"
    "thread (heap rt3 ! i) = (if last_action = None then In_run else Exited)"
    "map shown (sink rt3) = map shown (sink rt2) @
      (case last_action of None \<Rightarrow> [] | Some act \<Rightarrow> [ended_event Kind_tunnel ?al ?stop act])"
  proof (cases last_action)
    case None
    with rt2(2) that show ?thesis
      by (simp add: in_run_def)
  next
    case (Some act)
    then have "act = Run_returned \<or> (\<exists>message. act = Run_threw message)"
      using tunneler_run_end [of os sys mode cfg ins act] assms(6) by auto
    from end_moves [OF rt2(2) this, of ended cs] Some that show ?thesis
      by auto
  qed
  have "run_moves (by_thread i (tunnel_thread os sys mode cfg ins began clock ended)) (rt, cs) = Some (rt3, cs)"
    using rt1(1) rt2(1) rt3(1) unfolding tunnel_thread_def assms(6)
    by (simp add: run_steps_append flip: append_Cons) 
  with client rt1(3) rt2(3) rt3(2,3) show ?thesis
    by (intro exI [of _ rt3]) auto
qed

text \<open>
  The thread of a producer: subscribers are told that it runs and how it ended, and that is all, whatever the
  producer has sent meanwhile.
\<close>

lemma worker_producer_run_end:
  "snd (worker_producer_run os sys mode cfg opts turns) = Some act \<Longrightarrow>
   act = Run_returned \<or> (\<exists>message. act = Run_threw message)"
  by (auto simp: worker_producer_run_def Let_def how_ended_cases split: sum.splits prod.splits)

lemma managed_producer_events:
  assumes "i < length (heap rt)" and "thread (heap rt ! i) = At_entry" and "pending (heap rt ! i) = None"
    and "snap_kind (snap (heap rt ! i)) = Kind_producer" and "snap_alias (snap (heap rt ! i)) = al"
    and "worker_producer_run os sys mode cfg opts turns = (es, last_action)"
  shows "\<exists>rt'. run_moves (by_thread i (producer_thread os sys mode cfg opts turns began ended)) (rt, cs) = Some (rt', cs) \<and>
    map shown (sink rt') = map shown (sink rt) @ [begun_event al] @
      (case last_action of None \<Rightarrow> []
       | Some act \<Rightarrow> [ended_event Kind_producer al (stop_requested (heap rt ! i)) act]) \<and>
    reports (producer_thread os sys mode cfg opts turns began ended) = []"
proof -
  let ?stop = "stop_requested (heap rt ! i)" and ?cfg = "wconfig (heap rt ! i)"
  obtain rt1 where rt1: "run_moves (by_thread i [Begin began, Publish_pending began]) (rt, cs) = Some (rt1, cs)"
    "in_run i Kind_producer al ?cfg ?stop rt1" "map shown (sink rt1) = map shown (sink rt) @ [begun_event al]"
    using assms(1-5)
    by (auto simp: in_run_def thread_step_def worker_action_def begin_worker_def transition_def set_state_def Let_def
        publish_def lifecycle_event_def shown_def begun_event_def)
  show ?thesis
  proof (cases last_action)
    case None
    then show ?thesis
      using rt1 by (auto simp: producer_thread_def assms(6))
  next
    case (Some act)
    then have end_act: "act = Run_returned \<or> (\<exists>message. act = Run_threw message)"
      using worker_producer_run_end [of os sys mode cfg opts turns act] assms(6) by auto
    obtain rt2 where "run_moves (by_thread i [act, Publish_pending ended, End_thread]) (rt1, cs) = Some (rt2, cs)"
      "map shown (sink rt2) = map shown (sink rt1) @ [ended_event Kind_producer al ?stop act]"
      using end_moves [OF rt1(2) end_act] by blast
    moreover have "run_moves (by_thread i (producer_thread os sys mode cfg opts turns began ended)) (rt, cs) =
        run_moves (by_thread i [act, Publish_pending ended, End_thread]) (rt1, cs)"
      using rt1(1) unfolding producer_thread_def assms(6) map_append run_steps_append by (simp add: Some)
    ultimately show ?thesis
      using rt1(3) end_act by (auto simp: producer_thread_def assms(6) Some)
  qed
qed

section \<open>The datagrams of a managed tunnel\<close>

lemma reports_observer_actions:
  "map (\<lambda>r. (report_bytes r, report_latency r)) (reports (observer_actions clock es)) = observed es"
  by (induction es arbitrary: clock) (auto simp: observer_action_def observed_def split: effect.split)

text \<open>
  C4. The dashboard tells the truth about a tunnel. A client has forwarded the datagrams it received to a
  server that runs as a managed tunnel, over a connection that cut the bytes anywhere; the server's thread has
  reported what its run observed, in any interleaving with callers and other workers. Then the snapshot of the
  worker counts exactly the datagrams the client received that are not too long, and their bytes (modulo
  \<open>2^64\<close>), shows the lengths of the last ten of them, and takes its statistics from the last 1024 of the
  latencies the server measured.
\<close>

theorem dashboard_counts:
  assumes "client_loop cl_mode cl_os inputs (client_start cl_os cl_cfg []) = Running c"
    and "os_order sv_os = os_order cl_os"
    and "\<forall>(k, clocks) \<in> set schedule. 0 < k" and "length (tcp_bytes (trace c)) \<le> length schedule"
    and "pump len_to_read (server_deliver sv_mode sv_os sv_cfg) schedule (tcp_bytes (trace c))
      (initial_server sv_os sv_cfg now []) = Some (s, [])"
    and "run_moves ms (initial_runtime, replicate n Idle) = Some (rt, cs)" and "i < length (heap rt)"
    and "thread_actions i ms = Begin t # Publish_pending t # observer_actions clock (trace s)"
  shows "let shot = snap (heap rt ! i); lengths = map length (forwarded inputs)
    in datagrams (snap_metrics shot) = of_nat (length lengths) \<and>
      byte_total (snap_metrics shot) = of_nat (sum_list lengths) \<and>
      map detail_bytes (snap_recent shot) = map of_nat (last_of 10 lengths) \<and>
      latencies (heap rt ! i) = last_of 1024 (concat (map (\<lambda>(n, l). case l of None \<Rightarrow> [] | Some ms \<Rightarrow> [ms]) (observed (trace s))))"
proof -
  let ?rs = "reports (observer_actions clock (trace s))"
  let ?rx = "tcp_bytes (trace c)" and ?fs = "frames_of_inputs cl_os inputs"
  let ?enc = "encode_frame (os_order cl_os) (group_ip cl_os cl_cfg) (udp_dst_port cl_cfg)"
  have rx: "?rx = encode_frames (os_order cl_os) (group_ip cl_os cl_cfg) (udp_dst_port cl_cfg) ?fs"
    using client_start_stream(2) [of "[]" cl_mode cl_os inputs cl_cfg] assms(1) by simp
  then have whole: "whole_frames ?enc (length ?rx) ?fs = ?fs"
    by (intro whole_frames_all) (simp add: encode_frames_def)
  have told: "told_lengths (trace s) = map length (forwarded inputs)"
    using server_tells_lengths [OF assms(2) frames_of_inputs_fit [of cl_os inputs] _ assms(3,4,5)] rx whole lengths_of_inputs
    by (metis append_Nil observed_simps(1) list.simps(8) prefix_order.refl)
  note shown = reports_observer_actions [of clock "trace s"]
  have bytes: "map report_bytes ?rs = map length (forwarded inputs)"
    using arg_cong [OF shown, of "map fst"] told by (simp add: comp_def)
  have late: "report_latencies ?rs =
      concat (map (\<lambda>(n, l). case l of None \<Rightarrow> [] | Some ms \<Rightarrow> [ms]) (observed (trace s)))"
    unfolding shown [symmetric] by (simp add: report_latencies_def comp_def)
  have acts: "reports (thread_actions i ms) = ?rs"
    by (simp add: assms(8))
  note exact = shown_metrics [OF assms(6,7), unfolded Let_def acts]
  have "length ?rs = length (forwarded inputs)"
    using arg_cong [OF bytes, of length] by simp
  moreover have "map detail_bytes (last_of 10 (map detail_of ?rs)) = map of_nat (last_of 10 (map report_bytes ?rs))"
    by (simp add: last_of_def drop_map detail_of_def comp_def)
  ultimately show ?thesis
    using exact bytes late by (simp add: Let_def history_metrics_def total_bytes_def)
qed

section \<open>Closed instances\<close>

lemma example_started:
  "\<exists>rt. run_moves (start_moves example_tunnels ''in'') (initial_runtime, [Idle]) = Some (rt, [Idle]) \<and>
     length (heap rt) = 1 \<and> thread (heap rt ! 0) = At_entry \<and> pending (heap rt ! 0) = None \<and>
     snap_kind (snap (heap rt ! 0)) = Kind_tunnel \<and> snap_alias (snap (heap rt ! 0)) = ''in'' \<and>
     wconfig (heap rt ! 0) = example_server \<and>
     map shown (sink rt) = [(''in'', Severity_info, Some TS_Starting, ''Starting'')]"
  by (simp add: start_moves_def schedule_simps example_found Let_def example_server_def default_config_def
      lifecycle_event_def shown_def)

lemma example_server_serves: "\<not> is_client example_server"
  by (simp add: example_server_def default_config_def)

definition example_inputs :: tunnel_inputs where
  "example_inputs = \<lparr>in_connect = \<lparr>nonblocking_result = None, connect_call = Connect_ok, blocking_result = None,
       deadline_base = 0, polls = [], stopped_at_end = False\<rparr>,
     in_join = None, in_client = [],
     in_server_env = \<lparr>listen_result = None, listen_timeout_result = None, accepts = [Accept_stop],
       client_timeout_result = None, start_time = 0\<rparr>, in_server = []\<rparr>"

text \<open>No socket can be created: the worker is shown as running, then as failed.\<close>

theorem managed_tunnel_events_witness:
  "\<exists>rt rt' message. run_moves (start_moves example_tunnels ''in'') (initial_runtime, [Idle]) = Some (rt, [Idle]) \<and>
    run_moves (by_thread 0 (tunnel_thread example_os (\<lambda>c. Some 24) example_mode example_server example_inputs 1 (\<lambda>k. (2, 3)) 4))
      (rt, [Idle]) = Some (rt', [Idle]) \<and>
    map shown (sink rt') = [(''in'', Severity_info, Some TS_Starting, ''Starting''),
      (''in'', Severity_info, Some TS_Running, ''Running''), (''in'', Severity_error, Some TS_Failed, message)]"
proof -
  have "setupServer example_os (\<lambda>c. Some 24) cfg = Inl (''Could not create socket! Error '' @ show_int 24)" for cfg
    by (simp add: setupServer_def createSocket_def call_or_throw_def)
  then have "\<exists>message. construct_tunneler example_os (\<lambda>c. Some 24) example_server = Inl message"
    using example_server_serves
    by (auto simp: construct_tunneler_def resolve_config_def Let_def split: option.split)
  then obtain message where failed:
    "tunneler_run example_os (\<lambda>c. Some 24) example_mode example_server example_inputs = ([], Some (Run_threw message))"
    by (auto simp: tunneler_run_def)
  obtain rt where rt: "run_moves (start_moves example_tunnels ''in'') (initial_runtime, [Idle]) = Some (rt, [Idle])"
    "length (heap rt) = 1" "thread (heap rt ! 0) = At_entry" "pending (heap rt ! 0) = None"
    "snap_kind (snap (heap rt ! 0)) = Kind_tunnel" "snap_alias (snap (heap rt ! 0)) = ''in''"
    "wconfig (heap rt ! 0) = example_server"
    "map shown (sink rt) = [(''in'', Severity_info, Some TS_Starting, ''Starting'')]"
    using example_started by (elim exE conjE) (rule that)
  then have "0 < length (heap rt)"
    by simp
  note told = managed_tunnel_events [OF this rt(3-5,7) failed, of 1 "\<lambda>k. (2, 3)" 4 "[Idle]"]
  obtain rt' where
    run: "run_moves (by_thread 0 (tunnel_thread example_os (\<lambda>c. Some 24) example_mode example_server example_inputs 1 (\<lambda>k. (2, 3)) 4))
      (rt, [Idle]) = Some (rt', [Idle])" and
    shown: "map shown (sink rt') = map shown (sink rt) @ (if is_client example_server then [] else
        [begun_event (snap_alias (snap (heap rt ! 0)))]) @
      [ended_event Kind_tunnel (snap_alias (snap (heap rt ! 0))) (stop_requested (heap rt ! 0)) (Run_threw message)]"
    by (rule exE [OF told], elim exE conjE) (rule that, simp_all only: list.set empty_iff if_False option.case)
  have "map shown (sink rt') = [(''in'', Severity_info, Some TS_Starting, ''Starting''),
      (''in'', Severity_info, Some TS_Running, ''Running''), (''in'', Severity_error, Some TS_Failed, message)]"
    unfolding shown rt(6,8) begun_event_def using example_server_serves by simp
  with rt(1) run show ?thesis
    by (intro exI [of _ rt] exI [of _ rt'] exI [of _ message] conjI)
qed

text \<open>A step of the pump keeps what each delivery keeps.\<close>

lemma pump_keeps:
  assumes "pump wants deliver schedule rx s = Some (s', rx')" and "kept s"
    and "\<And>i d s s'. deliver i d s = Some s' \<Longrightarrow> kept s \<Longrightarrow> kept s'"
  shows "kept s'"
  using assms(1,2)
proof (induction schedule arbitrary: rx s)
  case (Cons step schedule)
  then show ?case
    using assms(3) by (cases step) (auto simp: Let_def split: if_splits option.splits)
qed simp

lemma server_deliver_connections: "server_deliver mode os cfg clocks data s = Some s' \<Longrightarrow> keeps_connections s s'"
  using server_iteration_connections [of s mode os cfg "Tcp_data data" None "fst clocks" "snd clocks"]
  by (auto simp: server_deliver_def split: outcome.splits)

theorem dashboard_counts_witness:
  "\<exists>ms rt. run_moves ms (initial_runtime, [Idle]) = Some (rt, [Idle]) \<and>
    forwarded [Client_iteration (Udp_datagram [1, 2, 3]) 7 [Sent 20, Sent 1]] = [[1, 2, 3]] \<and>
    datagrams (snap_metrics (snap (heap rt ! 0))) = 1 \<and> byte_total (snap_metrics (snap (heap rt ! 0))) = 3"
proof -
  let ?inputs = "[Client_iteration (Udp_datagram [1, 2, 3]) 7 [Sent 20, Sent 1]]"
  let ?schedule = "replicate 21 (5, 9, 0)"
  have forwarded: "forwarded ?inputs = [[1, 2, 3]]"
    by (simp add: kMaxDatagramLength_def)
  obtain c where c: "client_loop example_mode example_os ?inputs (client_start example_os example_client []) = Running c"
    "length (tcp_bytes (trace c)) = 21"
    using example_run_completes by blast
  have "prefix (tcp_bytes (trace c)) (encode_frames (os_order example_os) (group_ip example_os example_client)
      (udp_dst_port example_client) (frames_of_inputs example_os ?inputs))"
    using client_start_stream(1) [of "[]" example_mode example_os ?inputs example_client] c(1) by simp
  then obtain s where s: "pump len_to_read (server_deliver example_mode example_os example_server) ?schedule
      (tcp_bytes (trace c)) (initial_server example_os example_server 0 []) = Some (s, [])"
    using server_takes_stream [OF refl frames_of_inputs_fit, of "tcp_bytes (trace c)" example_os
        "group_ip example_os example_client" "udp_dst_port example_client" example_os ?inputs ?schedule
        example_mode example_server 0 "[]"] c(2) by auto
  have "keeps_connections (initial_server example_os example_server 0 []) s"
    using s keeps_connections_refl
    by (rule pump_keeps) (blast intro: keeps_connections_trans server_deliver_connections)
  then have quiet: "Connection_connected \<notin> set (trace s)"
    by (auto simp: keeps_connections_def initial_server_def filter_empty_conv)
  obtain rt0 where rt0: "run_moves (start_moves example_tunnels ''in'') (initial_runtime, [Idle]) = Some (rt0, [Idle])"
    "length (heap rt0) = 1" "thread (heap rt0 ! 0) = At_entry" "pending (heap rt0 ! 0) = None"
    "snap_kind (snap (heap rt0 ! 0)) = Kind_tunnel" "wconfig (heap rt0 ! 0) = example_server"
    using example_started by blast
  then have "0 < length (heap rt0)"
    by simp
  from begin_moves [OF this rt0(3-5) refl rt0(6) refl, of 0 "[Idle]"] obtain rt1 where
    rt1: "run_moves (by_thread 0 [Begin 0, Publish_pending 0]) (rt0, [Idle]) = Some (rt1, [Idle])"
    "in_run 0 Kind_tunnel (snap_alias (snap (heap rt0 ! 0))) example_server (stop_requested (heap rt0 ! 0)) rt1"
    using example_server_serves by auto
  from observer_moves [OF this(2), of "trace s" "\<lambda>k. (k, k)" "[Idle]"] quiet obtain rt where
    rt: "run_moves (by_thread 0 (observer_actions (\<lambda>k. (k, k)) (trace s))) (rt1, [Idle]) = Some (rt, [Idle])"
    "in_run 0 Kind_tunnel (snap_alias (snap (heap rt0 ! 0))) example_server (stop_requested (heap rt0 ! 0)) rt"
    by auto
  let ?ms = "start_moves example_tunnels ''in'' @ by_thread 0 [Begin 0, Publish_pending 0] @
    by_thread 0 (observer_actions (\<lambda>k. (k, k)) (trace s))"
  have run: "run_moves ?ms (initial_runtime, replicate 1 Idle) = Some (rt, [Idle])"
    using rt0(1) rt1(1) rt(1) by (simp only: run_steps_append replicate.simps One_nat_def) simp
  have acts: "thread_actions 0 ?ms = Begin 0 # Publish_pending 0 # observer_actions (\<lambda>k. (k, k)) (trace s)"
    by (simp add: start_moves_def eval_nat_numeral)
  have "0 < length (heap rt)"
    using rt(2) by (simp add: in_run_def)
  from dashboard_counts [OF c(1) refl _ _ s run this acts] c(2) forwarded run show ?thesis
    by (intro exI [of _ ?ms] exI [of _ rt]) (simp add: Let_def)
qed

end
