(* ===== verification/Json_Text.thy ===== *)
theory Json_Text
  imports Control_Types Doubles
begin

text \<open>
  The JSON text of \<open>src/src/control/LocalControlServer.cpp\<close>: escaping, the two property readers, and the
  messages that show snapshots, events and errors.
\<close>

section \<open>Strings\<close>

definition quote_char :: char where "quote_char = CHR 0x22"
definition backslash :: char where "backslash = CHR 0x5C"

text \<open>\<open>output << std::hex << std::setw(4) << std::setfill('0')\<close> of a number below 256.\<close>

definition hex_digit :: "nat \<Rightarrow> char" where
  "hex_digit d = char_of (if d < 10 then 48 + d else 87 + d)"

definition hex4 :: "nat \<Rightarrow> string" where
  "hex4 n = pad_left (CHR ''0'') 4 ((if n < 16 then [] else [hex_digit (n div 16)]) @ [hex_digit (n mod 16)])"

definition json_char :: "char \<Rightarrow> string" where
  "json_char c =
     (if c = quote_char then [backslash, quote_char]
      else if c = backslash then [backslash, backslash]
      else if c = CHR 0x08 then [backslash, CHR ''b'']
      else if c = CHR 0x0C then [backslash, CHR ''f'']
      else if c = CHR 0x0A then [backslash, CHR ''n'']
      else if c = CHR 0x0D then [backslash, CHR ''r'']
      else if c = CHR 0x09 then [backslash, CHR ''t'']
      else if char_code c < 32 then [backslash, CHR ''u''] @ hex4 (char_code c)
      else [c])"

definition jsonEscape :: "string \<Rightarrow> string" where
  "jsonEscape s = concat (map json_char s)"

text \<open>The text after the colon that follows the first occurrence of the name between quotes.\<close>

definition property_text :: "string \<Rightarrow> string \<Rightarrow> string option" where
  "property_text json name =
     (let marker = [quote_char] @ name @ [quote_char]
      in case find_str marker json of
           None \<Rightarrow> None
         | Some position \<Rightarrow>
             (let rest = drop (position + length marker) json
              in case find_char (CHR '':'') rest of
                   None \<Rightarrow> None
                 | Some colon \<Rightarrow> Some (dropWhile isspace (drop (colon + 1) rest))))"

definition simple_escape :: "char \<Rightarrow> char option" where
  "simple_escape c =
     (if c = quote_char then Some quote_char
      else if c = backslash then Some backslash
      else if c = CHR ''/'' then Some (CHR ''/'')
      else if c = CHR ''b'' then Some (CHR 0x08)
      else if c = CHR ''f'' then Some (CHR 0x0C)
      else if c = CHR ''n'' then Some (CHR 0x0A)
      else if c = CHR ''r'' then Some (CHR 0x0D)
      else if c = CHR ''t'' then Some (CHR 0x09)
      else None)"

fun unescape :: "bool \<Rightarrow> string \<Rightarrow> string \<Rightarrow> string option" where
  "unescape escaped value [] = None"
| "unescape escaped value (c # cs) =
     (if \<not> escaped \<and> c = quote_char then Some value
      else if escaped then
        (case simple_escape c of None \<Rightarrow> None | Some d \<Rightarrow> unescape False (value @ [d]) cs)
      else if c = backslash then unescape True value cs
      else unescape False (value @ [c]) cs)"

definition jsonStringProperty :: "string \<Rightarrow> string \<Rightarrow> string option" where
  "jsonStringProperty json name =
     (case property_text json name of
        None \<Rightarrow> None
      | Some [] \<Rightarrow> None
      | Some (c # cs) \<Rightarrow> if c = quote_char then unescape False [] cs else None)"

definition jsonUnsignedProperty :: "string \<Rightarrow> string \<Rightarrow> nat option" where
  "jsonUnsignedProperty json name =
     (case property_text json name of
        None \<Rightarrow> None
      | Some digits \<Rightarrow> (case from_chars 64 digits of Inl _ \<Rightarrow> None | Inr (n, used) \<Rightarrow> Some n))"

section \<open>Numbers\<close>

text \<open>
  \<open>output << x\<close> of a \<open>double\<close>: six significant digits, without trailing zeros, in scientific notation when
  the exponent is below -4 or above 5. \<open>decimal_exponent\<close> is the power of ten at or below a positive number.
\<close>

definition decimal_exponent :: "rat \<Rightarrow> int" where
  "decimal_exponent x =
     (if 1 \<le> x then int (length (to_string (nat \<lfloor>x\<rfloor>))) - 1
      else - int (length (to_string (nat (\<lceil>1 / x\<rceil> - 1)))))"

definition ten_pow :: "int \<Rightarrow> rat" where
  "ten_pow e = (if 0 \<le> e then 10 ^ nat e else 1 / 10 ^ nat (- e))"

text \<open>The six digits and the exponent after rounding.\<close>

definition six_digits :: "rat \<Rightarrow> nat \<times> int" where
  "six_digits x =
     (let e = decimal_exponent x; m = nat (round_half_even (x * ten_pow (5 - e)))
      in if m = 1000000 then (100000, e + 1) else (m, e))"

definition strip_zeros :: "string \<Rightarrow> string" where
  "strip_zeros s = rev (dropWhile (\<lambda>c. c = CHR ''0'') (rev s))"

definition with_fraction :: "string \<Rightarrow> string \<Rightarrow> string" where
  "with_fraction whole fraction =
     (let fraction = strip_zeros fraction in if fraction = [] then whole else whole @ ''.'' @ fraction)"

definition show_double :: "double \<Rightarrow> string" where
  "show_double x =
     (if x = 0 then ''0''
      else
        (let (m, e) = six_digits x; ds = to_string m
         in if e < -4 \<or> 6 \<le> e then
              with_fraction (take 1 ds) (drop 1 ds) @ ''e'' @ (if e < 0 then ''-'' else ''+'') @
                pad_left (CHR ''0'') 2 (to_string (nat \<bar>e\<bar>))
            else if 0 \<le> e then with_fraction (take (nat e + 1) ds) (drop (nat e + 1) ds)
            else with_fraction ''0'' (replicate (nat (- e) - 1) (CHR ''0'') @ ds)))"

definition optionalNumber :: "double option \<Rightarrow> string" where
  "optionalNumber v = (case v of None \<Rightarrow> ''null'' | Some x \<Rightarrow> show_double x)"

section \<open>Messages\<close>

definition stateName :: "tunnel_state \<Rightarrow> string" where
  "stateName s = (case s of TS_Stopped \<Rightarrow> ''stopped'' | TS_Starting \<Rightarrow> ''starting''
     | TS_Connecting \<Rightarrow> ''connecting'' | TS_Connected \<Rightarrow> ''connected'' | TS_Running \<Rightarrow> ''running''
     | TS_Stopping \<Rightarrow> ''stopping'' | TS_Failed \<Rightarrow> ''failed'')"

definition kindName :: "runtime_kind \<Rightarrow> string" where
  "kindName k = (case k of Kind_tunnel \<Rightarrow> ''tunnel'' | Kind_producer \<Rightarrow> ''producer'')"

definition eventKindName :: "event_kind \<Rightarrow> string" where
  "eventKindName k =
     (case k of Event_lifecycle \<Rightarrow> ''lifecycle'' | Event_log \<Rightarrow> ''log'' | Event_metrics \<Rightarrow> ''metrics'')"

definition severityName :: "event_severity \<Rightarrow> string" where
  "severityName s =
     (case s of Severity_info \<Rightarrow> ''info'' | Severity_warning \<Rightarrow> ''warning'' | Severity_error \<Rightarrow> ''error'')"

text \<open>
  \<open>q\<close> puts a text between double quotes; \<open>commas\<close> joins the elements of a sequence the way the loops of the
  source do, with a comma before every element but the first.
\<close>

definition q :: "string \<Rightarrow> string" where "q s = [quote_char] @ s @ [quote_char]"

fun commas :: "string list \<Rightarrow> string" where
  "commas [] = []"
| "commas [s] = s"
| "commas (s # t # ts) = s @ '','' @ commas (t # ts)"

definition datagramJson :: "datagram_detail \<Rightarrow> string" where
  "datagramJson d =
     ''{'' @ q ''timestamp_unix_milliseconds'' @ '':'' @ to_string (detail_time d) @ '','' @
     q ''bytes'' @ '':'' @ to_string (unat (detail_bytes d)) @ '','' @
     q ''latency_milliseconds'' @ '':'' @ optionalNumber (detail_latency d) @ ''}''"

definition snapshotJson :: "tunnel_snapshot \<Rightarrow> string" where
  "snapshotJson s =
     (let m = snap_metrics s in
      ''{'' @ q ''alias'' @ '':'' @ q (jsonEscape (snap_alias s)) @ '','' @ q ''kind'' @ '':'' @ q (kindName (snap_kind s)) @
      '','' @ q ''state'' @ '':'' @ q (stateName (snap_state s)) @ '','' @ q ''detail'' @ '':'' @
      q (jsonEscape (snap_detail s)) @ '','' @ q ''metrics'' @ '':{'' @
      q ''datagram_count'' @ '':'' @ to_string (unat (datagrams m)) @ '','' @
      q ''byte_count'' @ '':'' @ to_string (unat (byte_total m)) @ '','' @
      q ''throughput_bytes_per_second'' @ '':'' @ show_double (throughput m) @ '','' @
      q ''average_latency_milliseconds'' @ '':'' @ optionalNumber (average_ms m) @ '','' @
      q ''p50_latency_milliseconds'' @ '':'' @ optionalNumber (p50_ms m) @ '','' @
      q ''p99_latency_milliseconds'' @ '':'' @ optionalNumber (p99_ms m) @ '','' @
      q ''maximum_latency_milliseconds'' @ '':'' @ optionalNumber (maximum_ms m) @
      ''},'' @ q ''recent_datagrams'' @ '':['' @ commas (map datagramJson (snap_recent s)) @ '']}'')"

definition eventJson :: "control_event \<Rightarrow> string" where
  "eventJson e =
     ''{'' @ q ''api_version'' @ '':'' @ q ''v1'' @ '','' @ q ''event'' @ '':{'' @
     q ''kind'' @ '':'' @ q (eventKindName (event_kind_of e)) @ '','' @
     q ''severity'' @ '':'' @ q (severityName (event_severity_of e)) @ '','' @
     q ''timestamp_unix_milliseconds'' @ '':'' @ to_string (event_time e) @ '','' @
     q ''alias'' @ '':'' @ q (jsonEscape (event_alias e)) @ '','' @
     q ''message'' @ '':'' @ q (jsonEscape (event_message e)) @
     (case event_snapshot e of None \<Rightarrow> [] | Some s \<Rightarrow> '','' @ q ''snapshot'' @ '':'' @ snapshotJson s) @ ''}}''"

definition errorJson :: "string \<Rightarrow> string \<Rightarrow> string" where
  "errorJson code message =
     ''{'' @ q ''error'' @ '':{'' @ q ''code'' @ '':'' @ q code @ '','' @ q ''message'' @ '':'' @
     q (jsonEscape message) @ ''}}''"

section \<open>Reading back\<close>

text \<open>The characters whose escape the reader knows.\<close>

definition readable :: "char \<Rightarrow> bool" where
  "readable c \<longleftrightarrow> 32 \<le> char_code c \<or> c \<in> {CHR 0x08, CHR 0x0C, CHR 0x0A, CHR 0x0D, CHR 0x09}"

lemmas char_names = quote_char_def backslash_def

lemma unescape_char:
  "unescape False acc (json_char c @ rest) =
     (if readable c then unescape False (acc @ [c]) rest else None)"
proof (cases "c = quote_char \<or> c = backslash \<or> c \<in> {CHR 0x08, CHR 0x0C, CHR 0x0A, CHR 0x0D, CHR 0x09}")
  case True
  moreover have "readable quote_char" "readable backslash"
    by code_simp+
  ultimately show ?thesis
    by (auto simp: json_char_def simple_escape_def readable_def char_names)
next
  case False
  have "simple_escape (CHR ''u'') = None"
    by code_simp
  with False show ?thesis
    by (auto simp: json_char_def readable_def char_names)
qed

lemma unescape_escaped:
  "unescape False acc (jsonEscape s @ quote_char # rest) = (if list_all readable s then Some (acc @ s) else None)"
proof (induction s arbitrary: acc)
  case Nil
  then show ?case by (simp add: jsonEscape_def)
next
  case (Cons c s)
  have "jsonEscape (c # s) = json_char c @ jsonEscape s"
    by (simp add: jsonEscape_def)
  with Cons show ?case
    by (simp add: unescape_char)
qed

text \<open>
  C37. The configuration text in the answer of the server, or any text escaped the same way, is read back from
  the \<open>toml\<close> property exactly when every character is readable: not a control character below 32, or one of backspace, tab, newline, form feed
  and return; for any other control character \<open>jsonEscape\<close> writes an escape that \<open>jsonStringProperty\<close>
  refuses, and the property counts as missing.
\<close>

theorem toml_round_trip:
  "jsonStringProperty (''{'' @ q ''toml'' @ '':'' @ q (jsonEscape s) @ ''}'') ''toml'' =
     (if list_all readable s then Some s else None)"
proof -
  have "property_text (''{'' @ q ''toml'' @ '':'' @ q (jsonEscape s) @ ''}'') ''toml'' =
      Some (quote_char # jsonEscape s @ quote_char # ''}'')"
  proof -
    have "\<not> isspace quote_char"
      by code_simp
    then show ?thesis
      by (simp add: property_text_def q_def Let_def char_names)
  qed
  then show ?thesis
    using unescape_escaped [of "[]" s "''}''"]
    by (simp add: jsonStringProperty_def)
qed

end
