(* ===== verification/Http_Text.thy ===== *)
theory Http_Text
  imports Cxx_Strings String_Map
begin

text \<open>
  The HTTP text layer of \<open>src/src/control/LocalControlServer.cpp\<close>: \<open>sendAll\<close>, and \<open>receiveRequest\<close> on the
  pieces that \<open>recv\<close> delivers. A list of pieces stands for what successive calls return; an empty piece, or
  the end of the list, is a call that returned zero or an error.
\<close>

section \<open>Requests\<close>

definition kMaximumRequestSize :: nat where "kMaximumRequestSize = 1024 * 1024"

record http_request =
  req_method :: string
  req_target :: string
  req_headers :: "string string_map"
  req_body :: string

definition crlf :: string where "crlf = [CHR 0x0D, CHR 0x0A]"

definition lower :: "string \<Rightarrow> string" where "lower = map tolower"

text \<open>\<open>headers.insert_or_assign(name, value)\<close>.\<close>

definition insert_or_assign :: "string \<Rightarrow> 'v \<Rightarrow> 'v string_map \<Rightarrow> 'v string_map" where
  "insert_or_assign k v m = map_entry k (\<lambda>_. v) (emplace k v m)"

definition contentLength :: "http_request \<Rightarrow> nat option" where
  "contentLength request =
     (case map_of (req_headers request) ''content-length'' of
        None \<Rightarrow> Some 0
      | Some text \<Rightarrow>
          (case from_chars 64 text of
             Inl _ \<Rightarrow> None
           | Inr (n, used) \<Rightarrow> if used \<noteq> length text \<or> kMaximumRequestSize < n then None else Some n))"

text \<open>The first loop: the bytes so far, the position of the empty line, and the pieces not yet read.\<close>

fun read_head :: "string \<Rightarrow> string list \<Rightarrow> (string \<times> nat \<times> string list) option" where
  "read_head received [] = None"
| "read_head received (piece # pieces) =
     (if kMaximumRequestSize \<le> length received \<or> piece = [] then None
      else (case find_str (crlf @ crlf) (received @ piece) of
              Some header_end \<Rightarrow> Some (received @ piece, header_end, pieces)
            | None \<Rightarrow> read_head (received @ piece) pieces))"

definition strip_return :: "string \<Rightarrow> string" where
  "strip_return line = (if line \<noteq> [] \<and> last line = CHR 0x0D then butlast line else line)"

text \<open>\<open>stream >> word\<close>: the word and the rest of the stream; nothing when only white space is left.\<close>

definition next_word :: "string \<Rightarrow> (string \<times> string) option" where
  "next_word s =
     (let s = dropWhile isspace s
      in if s = [] then None else Some (takeWhile (\<lambda>c. \<not> isspace c) s, dropWhile (\<lambda>c. \<not> isspace c) s))"

definition request_line :: "string \<Rightarrow> (string \<times> string) option" where
  "request_line line =
     (case next_word line of None \<Rightarrow> None | Some (meth, s) \<Rightarrow>
        (case next_word s of None \<Rightarrow> None | Some (target, s) \<Rightarrow>
           (case next_word s of None \<Rightarrow> None | Some (version, s) \<Rightarrow>
              if version = ''HTTP/1.1'' then Some (meth, target) else None)))"

fun header_lines :: "string list \<Rightarrow> string string_map \<Rightarrow> string string_map option" where
  "header_lines [] headers = Some headers"
| "header_lines (line # lines) headers =
     (let line = strip_return line
      in case find_char (CHR '':'') line of
           None \<Rightarrow> None
         | Some colon \<Rightarrow>
             header_lines lines
               (insert_or_assign (lower (take colon line)) (dropWhile isspace (drop (colon + 1) line)) headers))"

text \<open>The last loop.\<close>

fun read_body :: "nat \<Rightarrow> string \<Rightarrow> string list \<Rightarrow> string option" where
  "read_body expected body [] = (if length body < expected then None else Some body)"
| "read_body expected body (piece # pieces) =
     (if length body < expected then (if piece = [] then None else read_body expected (body @ piece) pieces)
      else Some body)"

definition parse_request :: "string \<Rightarrow> http_request option" where
  "parse_request head =
     (case getlines head of
        [] \<Rightarrow> None
      | line # lines \<Rightarrow>
          (case request_line (strip_return line) of
             None \<Rightarrow> None
           | Some (meth, target) \<Rightarrow>
               map_option (\<lambda>headers. \<lparr>req_method = meth, req_target = target, req_headers = headers, req_body = []\<rparr>)
                 (header_lines lines [])))"

definition receiveRequest :: "string list \<Rightarrow> http_request option" where
  "receiveRequest pieces =
     (case read_head [] pieces of
        None \<Rightarrow> None
      | Some (received, header_end, pieces) \<Rightarrow>
          (case parse_request (take header_end received) of
             None \<Rightarrow> None
           | Some request \<Rightarrow>
               (case contentLength request of
                  None \<Rightarrow> None
                | Some expected \<Rightarrow>
                    (case read_body expected (drop (header_end + 4) received) pieces of
                       None \<Rightarrow> None
                     | Some body \<Rightarrow> if length body = expected then Some (request\<lparr>req_body := body\<rparr>) else None))))"

text \<open>\<open>sendAll\<close>: what the calls of \<open>send\<close> return, in order; no more results count as an error.\<close>

fun sendAll :: "string \<Rightarrow> int list \<Rightarrow> bool \<times> string" where
  "sendAll text [] = (text = [], [])"
| "sendAll text (r # rs) =
     (if text = [] then (True, [])
      else if r \<le> 0 then (False, [])
      else (let (ok, sent) = sendAll (drop (nat r) text) rs in (ok, take (nat r) text @ sent)))"

section \<open>Searching\<close>

lemma find_str_take:
  assumes "find_str needle s = Some i" and "needle \<noteq> []"
  shows "find_str needle (take k s) = (if i + length needle \<le> k then Some i else None)"
  using assms
proof (induction s arbitrary: i k)
  case (Cons x xs)
  show ?case
  proof (cases "prefix needle (x # xs)")
    case True
    then obtain rest where s: "x # xs = needle @ rest"
      by (auto simp: prefix_def)
    have i: "i = 0"
      using Cons.prems True by simp
    show ?thesis
    proof (cases "length needle \<le> k")
      case True
      then have "take k (x # xs) = needle @ take (k - length needle) rest"
        by (simp add: s)
      moreover have "find_str needle (needle @ ys) = Some 0" for ys
        using Cons.prems(2) by (cases needle) auto
      ultimately show ?thesis
        using i True by simp
    next
      case False
      have "find_str needle (take k (x # xs)) = None"
      proof (rule ccontr)
        assume "find_str needle (take k (x # xs)) \<noteq> None"
        then obtain j where "prefix needle (drop j (take k (x # xs)))"
          using find_str_Some by blast
        then have "length needle \<le> length (drop j (take k (x # xs)))"
          by (rule prefix_length_le)
        with False show False by simp
      qed
      with i False show ?thesis by simp
    qed
  next
    case False
    then obtain j where j: "find_str needle xs = Some j" "i = Suc j"
      using Cons.prems(1) by auto
    show ?thesis
    proof (cases k)
      case 0
      with Cons.prems(2) show ?thesis by simp
    next
      case (Suc m)
      have "\<not> prefix needle (x # take m xs)"
        using False Suc take_is_prefix [of k "x # xs"] by (metis prefix_order.trans take_Suc_Cons)
      with Suc j Cons.IH [OF j(1) Cons.prems(2), of m] show ?thesis
        by auto
    qed
  qed
qed simp

lemma find_empty_line_skip:
  "CHR 0x0D \<notin> set l \<Longrightarrow>
   find_str (crlf @ crlf) (l @ s) = map_option (\<lambda>i. length l + i) (find_str (crlf @ crlf) s)"
  using find_str_skip [of "CHR 0x0D" l "[CHR 0x0A, CHR 0x0D, CHR 0x0A]" s] by (simp add: crlf_def)

definition plain_line :: "string \<Rightarrow> bool" where
  "plain_line l \<longleftrightarrow> l \<noteq> [] \<and> CHR 0x0D \<notin> set l \<and> CHR 0x0A \<notin> set l"

definition head_text :: "string list \<Rightarrow> string" where
  "head_text lines = concat (map (\<lambda>l. l @ crlf) lines)"

lemma plain_line_hd: "plain_line l \<Longrightarrow> \<exists>c cs. l = c # cs \<and> c \<noteq> CHR 0x0D"
  by (cases l) (auto simp: plain_line_def)

lemma find_empty_line:
  assumes "list_all plain_line (line # lines)"
  shows "find_str (crlf @ crlf) (head_text (line # lines) @ crlf @ body) = Some (length (head_text (line # lines)) - 2)"
  using assms
proof (induction lines arbitrary: line)
  case Nil
  then have "CHR 0x0D \<notin> set line"
    by (simp add: plain_line_def)
  then show ?case
    by (simp add: head_text_def find_empty_line_skip) (simp add: crlf_def)
next
  case (Cons line2 lines)
  have line: "CHR 0x0D \<notin> set line"
    using Cons.prems by (simp add: plain_line_def)
  obtain c cs where c: "line2 = c # cs" "c \<noteq> CHR 0x0D"
    using Cons.prems plain_line_hd [of line2] by auto
  have IH: "find_str (crlf @ crlf) (head_text (line2 # lines) @ crlf @ body) =
      Some (length (head_text (line2 # lines)) - 2)"
    using Cons by simp
  have "find_str (crlf @ crlf) (crlf @ head_text (line2 # lines) @ crlf @ body) =
      Some (length (head_text (line2 # lines)))"
  proof -
    have "2 \<le> length (head_text (line2 # lines))"
      by (simp add: head_text_def crlf_def)
    with IH c show ?thesis
      by (simp add: crlf_def head_text_def)
  qed
  then have "find_str (crlf @ crlf) (line @ crlf @ head_text (line2 # lines) @ crlf @ body) =
      Some (length line + length (head_text (line2 # lines)))"
    using line by (simp add: find_empty_line_skip)
  then show ?case
    by (simp add: head_text_def crlf_def)
qed

section \<open>Reading a request\<close>

lemma read_head_found:
  assumes "find_str (crlf @ crlf) text = Some e" and "e + 4 \<le> kMaximumRequestSize"
    and "received @ concat pieces = text" and "\<forall>piece \<in> set pieces. piece \<noteq> []" and "length received < e + 4"
  shows "\<exists>r rest. read_head received pieces = Some (r, e, rest) \<and> r @ concat rest = text \<and>
    e + 4 \<le> length r \<and> (\<forall>piece \<in> set rest. piece \<noteq> [])"
  using assms(3-5)
proof (induction pieces arbitrary: received)
  case Nil
  have "e + 4 \<le> length text"
    using find_str_Some [OF assms(1)] by (auto simp: crlf_def dest!: prefix_length_le)
  with Nil show ?case by simp
next
  case (Cons piece pieces)
  let ?r = "received @ piece"
  have "take (length ?r) text = ?r"
    using Cons.prems(1) by (metis append.assoc append_eq_conv_conj concat.simps(2))
  then have find: "find_str (crlf @ crlf) ?r = (if e + 4 \<le> length ?r then Some e else None)"
    using find_str_take [OF assms(1), of "length ?r"] by (simp add: crlf_def)
  show ?case
  proof (cases "e + 4 \<le> length ?r")
    case True
    with find Cons.prems assms(2) show ?thesis by auto
  next
    case False
    with Cons.IH [of ?r] find Cons.prems assms(2) show ?thesis by auto
  qed
qed

lemma read_body_exact:
  assumes "\<forall>piece \<in> set pieces. piece \<noteq> []" and "length (body @ concat pieces) = n"
  shows "read_body n body pieces = Some (body @ concat pieces)"
  using assms by (induction pieces arbitrary: body) (auto simp: neq_Nil_conv)

lemma strip_return_plain: "plain_line l \<Longrightarrow> strip_return l = l"
  by (metis last_in_set plain_line_def strip_return_def)

lemma head_lines:
  assumes "list_all plain_line (line # lines)"
  shows "\<exists>l ls. getlines (take (length (head_text (line # lines)) - 2) (head_text (line # lines) @ rest)) = l # ls \<and>
    map strip_return (l # ls) = line # lines"
  using assms
proof (induction lines arbitrary: line)
  case Nil
  then show ?case
    by (simp add: head_text_def crlf_def plain_line_def getlines_last strip_return_plain)
next
  case (Cons line2 lines)
  then have "list_all plain_line (line2 # lines)"
    by simp
  from Cons.IH [OF this] obtain l ls where l: "getlines (take (length (head_text (line2 # lines)) - 2)
      (head_text (line2 # lines) @ rest)) = l # ls" "map strip_return (l # ls) = line2 # lines"
    by (elim exE conjE) (rule that)
  have len: "length (head_text (line # line2 # lines)) - 2 =
      length (line @ crlf) + (length (head_text (line2 # lines)) - 2)"
    by (simp add: head_text_def crlf_def)
  have "head_text (line # line2 # lines) @ rest = (line @ crlf) @ head_text (line2 # lines) @ rest"
    by (simp add: head_text_def)
  then have cut: "take (length (head_text (line # line2 # lines)) - 2) (head_text (line # line2 # lines) @ rest) =
      (line @ [CHR 0x0D]) @ CHR 0x0A # take (length (head_text (line2 # lines)) - 2) (head_text (line2 # lines) @ rest)"
    unfolding len by (simp add: crlf_def)
  have "CHR 0x0A \<notin> set (line @ [CHR 0x0D])"
    using Cons.prems by (simp add: plain_line_def)
  then have "getlines (take (length (head_text (line # line2 # lines)) - 2) (head_text (line # line2 # lines) @ rest)) =
      (line @ [CHR 0x0D]) # l # ls"
    unfolding cut l(1) [symmetric] by (rule getlines_line)
  moreover have "strip_return (line @ [CHR 0x0D]) = line"
    by (simp add: strip_return_def)
  ultimately show ?case
    using l(2) by (intro exI [of _ "line @ [CHR 0x0D]"] exI [of _ "l # ls"] conjI) simp_all
qed

lemma header_lines_strip:
  "map strip_return ls = map strip_return ls' \<Longrightarrow> header_lines ls headers = header_lines ls' headers"
proof (induction ls arbitrary: ls' headers)
  case (Cons l ls)
  then obtain l' k where "ls' = l' # k"
    by (cases ls') auto
  moreover from this have "header_lines ls = header_lines k"
    using Cons by (intro ext) auto
  ultimately show ?case
    using Cons.prems by (simp add: Let_def cong: option.case_cong)
qed simp

definition header_text :: "string \<times> string \<Rightarrow> string" where
  "header_text h = fst h @ '': '' @ snd h"

definition collected :: "(string \<times> string) list \<Rightarrow> string string_map" where
  "collected hs = fold (\<lambda>(name, v). insert_or_assign (lower name) v) hs []"

definition plain_header :: "string \<times> string \<Rightarrow> bool" where
  "plain_header h \<longleftrightarrow> CHR '':'' \<notin> set (fst h) \<and> plain_line (header_text h) \<and> (snd h = [] \<or> \<not> isspace (hd (snd h)))"

lemma space_isspace [simp]: "isspace (CHR '' '')"
  by code_simp

lemma header_lines_collected:
  assumes "list_all plain_header hs"
  shows "header_lines (map header_text hs) headers =
    Some (fold (\<lambda>(name, v). insert_or_assign (lower name) v) hs headers)"
  using assms
proof (induction hs arbitrary: headers)
  case (Cons h hs)
  obtain name v where h: "h = (name, v)"
    by (cases h)
  have p: "CHR '':'' \<notin> set name" "plain_line (header_text h)" "v = [] \<or> \<not> isspace (hd v)"
    using Cons.prems by (auto simp: plain_header_def h)
  have "find_char (CHR '':'') (header_text h) = Some (length name)"
    using p(1) by (simp add: h header_text_def)
  moreover have "dropWhile isspace (drop (length name + 1) (header_text h)) = v"
    using p(3) by (cases v) (simp_all add: h header_text_def)
  moreover have "take (length name) (header_text h) = name"
    by (simp add: h header_text_def)
  ultimately show ?case
    using Cons p(2) by (simp add: strip_return_plain h)
qed simp

definition token :: "string \<Rightarrow> bool" where
  "token s \<longleftrightarrow> s \<noteq> [] \<and> list_all (\<lambda>c. \<not> isspace c) s"

lemma next_word_token:
  assumes "token w" and "s = [] \<or> isspace (hd s)"
  shows "next_word (w @ s) = Some (w, s)" "next_word (CHR '' '' # w @ s) = Some (w, s)"
proof -
  have "dropWhile isspace (w @ s) = w @ s"
    using assms(1) by (cases w) (auto simp: token_def)
  moreover have "takeWhile (\<lambda>c. \<not> isspace c) (w @ s) = w" "dropWhile (\<lambda>c. \<not> isspace c) (w @ s) = s"
    using assms by (auto simp: token_def list_all_iff takeWhile_append2 dropWhile_append2 takeWhile_eq_Nil_iff)
      (cases s; simp)
  ultimately show "next_word (w @ s) = Some (w, s)" "next_word (CHR '' '' # w @ s) = Some (w, s)"
    using assms(1) by (auto simp: next_word_def token_def)
qed

lemma request_line_tokens:
  assumes "token meth" and "token target"
  shows "request_line (meth @ '' '' @ target @ '' HTTP/1.1'') = Some (meth, target)"
proof -
  have "token ''HTTP/1.1''"
    by code_simp
  then show ?thesis
    using assms next_word_token(1) [of meth "'' '' @ target @ '' HTTP/1.1''"]
      next_word_token(2) [of target "'' HTTP/1.1''"] next_word_token(2) [of "''HTTP/1.1''" "[]"]
    by (simp add: request_line_def)
qed

text \<open>The text of a request.\<close>

definition request_text :: "string \<Rightarrow> string \<Rightarrow> (string \<times> string) list \<Rightarrow> string \<Rightarrow> string" where
  "request_text meth target hs body =
     head_text ((meth @ '' '' @ target @ '' HTTP/1.1'') # map header_text hs) @ crlf @ body"

lemma token_plain:
  assumes "token meth" and "token target"
  shows "plain_line (meth @ '' '' @ target @ '' HTTP/1.1'')"
proof -
  have "isspace (CHR 0x0D)" "isspace (CHR 0x0A)"
    by code_simp+
  then show ?thesis
    using assms by (auto simp: plain_line_def token_def list_all_iff)
qed

lemma receive_cutting:
  assumes "token meth" and "token target" and "list_all plain_header hs"
    and "contentLength \<lparr>req_method = meth, req_target = target, req_headers = collected hs, req_body = []\<rparr> =
      Some (length body)"
    and "length (request_text meth target hs []) \<le> kMaximumRequestSize"
    and "concat pieces = request_text meth target hs body" and "\<forall>piece \<in> set pieces. piece \<noteq> []"
  shows "receiveRequest pieces =
    Some \<lparr>req_method = meth, req_target = target, req_headers = collected hs, req_body = body\<rparr>"
proof -
  let ?line = "meth @ '' '' @ target @ '' HTTP/1.1''" and ?lines = "map header_text hs"
  let ?head = "head_text (?line # ?lines)" and ?text = "request_text meth target hs body"
  let ?request = "\<lparr>req_method = meth, req_target = target, req_headers = collected hs, req_body = []\<rparr>"
  have plain: "list_all plain_line (?line # ?lines)"
    using token_plain [OF assms(1,2)] assms(3) by (auto simp: list_all_iff plain_header_def)
  have e: "find_str (crlf @ crlf) ?text = Some (length ?head - 2)"
    using find_empty_line [OF plain, of body] by (simp add: request_text_def)
  have two: "2 \<le> length ?head"
    by (simp add: head_text_def crlf_def)
  obtain r rest where r: "read_head [] pieces = Some (r, length ?head - 2, rest)" "r @ concat rest = ?text"
      "length ?head - 2 + 4 \<le> length r" "\<forall>piece \<in> set rest. piece \<noteq> []"
    using read_head_found [OF e, of "[]" pieces] assms(5-7) two
    by (auto simp: request_text_def crlf_def)
  have "take (length ?head - 2) r = take (length ?head - 2) (?head @ crlf @ body)"
    using arg_cong [OF r(2), of "take (length ?head - 2)"] r(3) by (simp add: request_text_def)
  then obtain l ls where l: "getlines (take (length ?head - 2) r) = l # ls"
      "strip_return l = ?line" "map strip_return ls = ?lines"
    using head_lines [OF plain, of "crlf @ body"] by auto
  have "header_lines ls [] = header_lines ?lines []"
    using l(3) plain by (intro header_lines_strip) (auto simp: strip_return_plain list_all_iff map_idI)
  then have parse: "parse_request (take (length ?head - 2) r) = Some ?request"
    using l request_line_tokens [OF assms(1,2)] header_lines_collected [OF assms(3), of "[]"]
    by (simp add: parse_request_def collected_def)
  have "drop (length ?head - 2 + 4) ?text = body"
    using two by (simp add: request_text_def crlf_def)
  then have "drop (length ?head - 2 + 4) r @ concat rest = body"
    using arg_cong [OF r(2), of "drop (length ?head - 2 + 4)"] r(3) by simp
  then have "read_body (length body) (drop (length ?head - 2 + 4) r) rest = Some body"
    using read_body_exact [OF r(4), of "drop (length ?head - 2 + 4) r" "length body"] by simp
  then show ?thesis
    using r(1) parse assms(4) by (simp add: receiveRequest_def)
qed

text \<open>
  C17. A well-formed request is read back as its method, target, headers (names in lower case, the last
  value of a repeated name) and body, however the connection cuts it into pieces, as long as its head fits
  into the size limit and the length header tells the length of the body.
\<close>

theorem request_any_cutting:
  assumes "token meth" and "token target" and "list_all plain_header hs"
    and "contentLength \<lparr>req_method = meth, req_target = target, req_headers = collected hs, req_body = []\<rparr> =
      Some (length body)"
    and "length (request_text meth target hs []) \<le> kMaximumRequestSize"
    and "concat pieces = request_text meth target hs body" and "\<forall>piece \<in> set pieces. piece \<noteq> []"
  shows "receiveRequest pieces =
    Some \<lparr>req_method = meth, req_target = target, req_headers = collected hs, req_body = body\<rparr>"
  by (rule receive_cutting [OF assms])

theorem request_any_cutting_witness:
  "receiveRequest (map (\<lambda>c. [c]) (request_text ''PUT'' ''/a'' [(''Content-Length'', ''2'')] ''hi'')) =
    Some \<lparr>req_method = ''PUT'', req_target = ''/a'', req_headers = [(''content-length'', ''2'')], req_body = ''hi''\<rparr>"
proof -
  have headers: "collected [(''Content-Length'', ''2'')] = [(''content-length'', ''2'')]"
    by code_simp
  have tokens: "token ''PUT''" "token ''/a''" and plain: "list_all plain_header [(''Content-Length'', ''2'')]"
    by code_simp+
  have "from_chars 64 ''2'' = Inr (2, 1)"
    using from_chars_to_string [of 2 64] by (simp add: to_string.simps digit_char_simps)
  then have len: "contentLength \<lparr>req_method = ''PUT'', req_target = ''/a'',
      req_headers = collected [(''Content-Length'', ''2'')], req_body = []\<rparr> = Some (length ''hi'')"
    unfolding headers by (simp add: contentLength_def kMaximumRequestSize_def)
  have size: "length (request_text ''PUT'' ''/a'' [(''Content-Length'', ''2'')] []) \<le> kMaximumRequestSize"
    by (simp add: request_text_def head_text_def header_text_def crlf_def kMaximumRequestSize_def)
  have "concat (map (\<lambda>c. [c]) s) = s" for s :: string
    by (induction s) auto
  from request_any_cutting [OF tokens plain len size this] show ?thesis
    unfolding headers by (simp only: set_map image_iff) blast
qed

end
