(* ===== verification/Websocket.thy ===== *)
theory Websocket
  imports Http_Text
begin

unbundle bit_operations_syntax

text \<open>
  The WebSocket part of \<open>src/src/control/LocalControlServer.cpp\<close>: SHA-1 and base64 for the handshake, and the
  text frames. The reference definitions follow FIPS 180 and RFC 6455.
\<close>

section \<open>SHA-1\<close>

text \<open>The loop that pads with zeros ends when none are missing.\<close>

lemma missing_zeros:
  fixes n :: nat
  assumes "n mod 64 \<noteq> 56"
  shows "(120 - n mod 64) mod 64 = Suc ((120 - Suc n mod 64) mod 64)"
proof -
  have missing: "(120 - r) mod 64 = (if r \<le> 56 then 56 - r else 120 - r)" if "r < 64" for r :: nat
  proof (cases "r \<le> 56")
    case True
    then have "120 - r = 64 + (56 - r)"
      by simp
    with True show ?thesis by (simp only: mod_add_self1) simp
  qed (use that in simp)
  have "(120 - r) mod 64 = Suc ((120 - Suc r mod 64) mod 64)" if "r < 64" "r \<noteq> 56" for r :: nat
  proof (cases "r = 63")
    case False
    then have "Suc r < 64"
      using that by simp
    with that show ?thesis
      using missing [of r] missing [of "Suc r"] by (auto split: if_splits)
  qed (simp add: missing)
  from this [of "n mod 64"] assms show ?thesis
    by (simp add: mod_Suc_eq)
qed

function pad_zeros :: "bytes \<Rightarrow> bytes" where
  "pad_zeros bs = (if length bs mod 64 \<noteq> 56 then pad_zeros (bs @ [0]) else bs)"
  by auto
termination
  by (relation "measure (\<lambda>bs. (120 - length bs mod 64) mod 64)") (use missing_zeros in auto)

declare pad_zeros.simps [simp del]

definition sha1_padded :: "string \<Rightarrow> bytes" where
  "sha1_padded input =
     (let bs = map char_byte input;
          bit_length = (of_nat (length bs) :: u64) * 8;
          bs = pad_zeros (bs @ [0x80])
      in bs @ map (\<lambda>shift. ucast (drop_bit shift bit_length)) [56, 48, 40, 32, 24, 16, 8, 0])"

definition rotl :: "nat \<Rightarrow> u32 \<Rightarrow> u32" where
  "rotl n x = push_bit n x OR drop_bit (32 - n) x"

definition block_words :: "bytes \<Rightarrow> nat \<Rightarrow> u32 list" where
  "block_words bs offset =
     map (\<lambda>i. push_bit 24 (ucast (bs ! (offset + i * 4))) OR push_bit 16 (ucast (bs ! (offset + i * 4 + 1))) OR
        push_bit 8 (ucast (bs ! (offset + i * 4 + 2))) OR ucast (bs ! (offset + i * 4 + 3))) [0..<16]"

definition extend_words :: "u32 list \<Rightarrow> u32 list" where
  "extend_words ws =
     fold (\<lambda>i ws. ws @ [rotl 1 (ws ! (i - 3) XOR ws ! (i - 8) XOR ws ! (i - 14) XOR ws ! (i - 16))]) [16..<80] ws"

type_synonym sha1_state = "u32 \<times> u32 \<times> u32 \<times> u32 \<times> u32"

definition sha1_function :: "nat \<Rightarrow> u32 \<Rightarrow> u32 \<Rightarrow> u32 \<Rightarrow> u32" where
  "sha1_function i b c d =
     (if i < 20 then (b AND c) OR (NOT b AND d)
      else if i < 40 then b XOR c XOR d
      else if i < 60 then (b AND c) OR (b AND d) OR (c AND d)
      else b XOR c XOR d)"

definition sha1_constant :: "nat \<Rightarrow> u32" where
  "sha1_constant i =
     (if i < 20 then 0x5A827999 else if i < 40 then 0x6ED9EBA1 else if i < 60 then 0x8F1BBCDC else 0xCA62C1D6)"

definition sha1_round :: "u32 list \<Rightarrow> nat \<Rightarrow> sha1_state \<Rightarrow> sha1_state" where
  "sha1_round ws i = (\<lambda>(a, b, c, d, e).
     (let temp = rotl 5 a + sha1_function i b c d + e + sha1_constant i + ws ! i
      in (temp, a, rotl 30 b, c, d)))"

definition sha1_block :: "bytes \<Rightarrow> nat \<Rightarrow> sha1_state \<Rightarrow> sha1_state" where
  "sha1_block bs offset = (\<lambda>(h0, h1, h2, h3, h4).
     (let ws = extend_words (block_words bs offset);
          (a, b, c, d, e) = fold (sha1_round ws) [0..<80] (h0, h1, h2, h3, h4)
      in (h0 + a, h1 + b, h2 + c, h3 + d, h4 + e)))"

definition sha1_initial :: sha1_state where
  "sha1_initial = (0x67452301, 0xEFCDAB89, 0x98BADCFE, 0x10325476, 0xC3D2E1F0)"

definition word_bytes :: "u32 \<Rightarrow> bytes" where
  "word_bytes h = [ucast (drop_bit 24 h), ucast (drop_bit 16 h), ucast (drop_bit 8 h), ucast h]"

definition sha1 :: "string \<Rightarrow> bytes" where
  "sha1 input =
     (let bs = sha1_padded input;
          (h0, h1, h2, h3, h4) = fold (\<lambda>k. sha1_block bs (64 * k)) [0..<(length bs + 63) div 64] sha1_initial
      in concat (map word_bytes [h0, h1, h2, h3, h4]))"

section \<open>Base64\<close>

definition alphabet :: string where
  "alphabet = ''ABCDEFGHIJKLMNOPQRSTUVWXYZabcdefghijklmnopqrstuvwxyz0123456789+/''"

definition alphabet_at :: "u32 \<Rightarrow> char" where
  "alphabet_at v = alphabet ! unat (v AND 0x3F)"

fun base64 :: "bytes \<Rightarrow> string" where
  "base64 [] = []"
| "base64 (x # xs) =
     (let v = push_bit 16 (ucast x :: u32) OR (if 0 < length xs then push_bit 8 (ucast (xs ! 0)) else 0) OR
            (if 1 < length xs then ucast (xs ! 1) else 0)
      in [alphabet_at (drop_bit 18 v), alphabet_at (drop_bit 12 v),
          if 0 < length xs then alphabet_at (drop_bit 6 v) else CHR ''='',
          if 1 < length xs then alphabet_at v else CHR ''=''] @ base64 (drop 2 xs))"

definition kWebSocketGuid :: string where
  "kWebSocketGuid = ''258EAFA5-E914-47DA-95CA-C5AB0DC85B11''"

definition accept_key :: "string \<Rightarrow> string" where
  "accept_key key = base64 (sha1 (key @ kWebSocketGuid))"

section \<open>Frames\<close>

definition text_frame :: "string \<Rightarrow> string option" where
  "text_frame s =
     (if 65535 < length s then None
      else Some (CHR 0x81 #
        (if length s < 126 then [char_of (length s)]
         else [char_of (126 :: nat), char_of (length s div 256 mod 256), char_of (length s mod 256)]) @ s))"

definition sendWebSocketText :: "string \<Rightarrow> int list \<Rightarrow> bool \<times> string" where
  "sendWebSocketText s results =
     (case text_frame s of None \<Rightarrow> (False, []) | Some frame \<Rightarrow> sendAll frame results)"

section \<open>Reference definitions\<close>

text \<open>FIPS 180: the padded message, the functions and constants of the rounds, the message schedule.\<close>

definition fips_padded :: "bytes \<Rightarrow> bytes" where
  "fips_padded bs =
     bs @ 0x80 # replicate ((119 - length bs mod 64) mod 64) 0 @
     map (\<lambda>k. of_nat (8 * length bs div 256 ^ k)) [7, 6, 5, 4, 3, 2, 1, 0]"

definition fips_ch :: "u32 \<Rightarrow> u32 \<Rightarrow> u32 \<Rightarrow> u32" where
  "fips_ch x y z = (x AND y) XOR (NOT x AND z)"

definition fips_maj :: "u32 \<Rightarrow> u32 \<Rightarrow> u32 \<Rightarrow> u32" where
  "fips_maj x y z = (x AND y) XOR (x AND z) XOR (y AND z)"

definition fips_function :: "nat \<Rightarrow> u32 \<Rightarrow> u32 \<Rightarrow> u32 \<Rightarrow> u32" where
  "fips_function t = (if t < 20 then fips_ch else if 40 \<le> t \<and> t < 60 then fips_maj else (\<lambda>x y z. x XOR y XOR z))"

definition fips_word :: "bytes \<Rightarrow> nat \<Rightarrow> u32" where
  "fips_word bs t = foldl (\<lambda>v b. 256 * v + ucast b) 0 (take 4 (drop (4 * t) bs))"

function fips_schedule :: "(nat \<Rightarrow> u32) \<Rightarrow> nat \<Rightarrow> u32" where
  "fips_schedule m t =
     (if t < 16 then m t
      else word_rotl 1 (fips_schedule m (t - 3) XOR fips_schedule m (t - 8) XOR
        fips_schedule m (t - 14) XOR fips_schedule m (t - 16)))"
  by auto
termination by (relation "measure snd") auto

declare fips_schedule.simps [simp del]

text \<open>The constants and the initial hash value, as sections 4.2.1 and 5.3.1 list them.\<close>

definition fips_constant :: "nat \<Rightarrow> u32" where
  "fips_constant t = [0x5a827999, 0x6ed9eba1, 0x8f1bbcdc, 0xca62c1d6] ! (t div 20)"

definition fips_initial :: sha1_state where
  "fips_initial = (0x67452301, 0xefcdab89, 0x98badcfe, 0x10325476, 0xc3d2e1f0)"

definition fips_round :: "(nat \<Rightarrow> u32) \<Rightarrow> nat \<Rightarrow> sha1_state \<Rightarrow> sha1_state" where
  "fips_round w t = (\<lambda>(a, b, c, d, e).
     (word_rotl 5 a + fips_function t b c d + e + fips_constant t + w t, a, word_rotl 30 b, c, d))"

definition fips_block :: "bytes \<Rightarrow> sha1_state \<Rightarrow> sha1_state" where
  "fips_block block h =
     (let (a, b, c, d, e) = fold (fips_round (fips_schedule (fips_word block))) [0..<80] h; (h0, h1, h2, h3, h4) = h
      in (h0 + a, h1 + b, h2 + c, h3 + d, h4 + e))"

definition fips_sha1 :: "bytes \<Rightarrow> bytes" where
  "fips_sha1 bs =
     (let (h0, h1, h2, h3, h4) =
        fold (\<lambda>k. fips_block (take 64 (drop (64 * k) (fips_padded bs)))) [0..<length (fips_padded bs) div 64] fips_initial
      in concat (map (\<lambda>h. map (\<lambda>k. of_nat (unat h div 256 ^ k)) [3, 2, 1, 0]) [h0, h1, h2, h3, h4]))"

text \<open>RFC 4648: the table of base64, by the codes of the characters, and decoding.\<close>

definition sextet :: "char \<Rightarrow> nat option" where
  "sextet c =
     (let n = char_code c
      in if char_code (CHR ''A'') \<le> n \<and> n \<le> char_code (CHR ''Z'') then Some (n - char_code (CHR ''A''))
         else if char_code (CHR ''a'') \<le> n \<and> n \<le> char_code (CHR ''z'') then Some (26 + (n - char_code (CHR ''a'')))
         else if char_code (CHR ''0'') \<le> n \<and> n \<le> char_code (CHR ''9'') then Some (52 + (n - char_code (CHR ''0'')))
         else if c = CHR ''+'' then Some 62 else if c = CHR ''/'' then Some 63 else None)"

fun base64_decode :: "string \<Rightarrow> bytes option" where
  "base64_decode [] = Some []"
| "base64_decode (c1 # c2 # c3 # c4 # cs) =
     (case (sextet c1, sextet c2) of
        (Some s1, Some s2) \<Rightarrow>
          if c4 = CHR ''='' then
            (if cs \<noteq> [] then None
             else if c3 = CHR ''='' then (if s2 mod 16 = 0 then Some [of_nat (s1 * 4 + s2 div 16)] else None)
             else (case sextet c3 of
                     None \<Rightarrow> None
                   | Some s3 \<Rightarrow>
                       if s3 mod 4 = 0 then Some [of_nat (s1 * 4 + s2 div 16), of_nat (s2 mod 16 * 16 + s3 div 4)] else None))
          else
            (case (sextet c3, sextet c4, base64_decode cs) of
               (Some s3, Some s4, Some bs) \<Rightarrow>
                 Some ([of_nat (s1 * 4 + s2 div 16), of_nat (s2 mod 16 * 16 + s3 div 4), of_nat (s3 mod 4 * 64 + s4)] @ bs)
             | _ \<Rightarrow> None)
      | _ \<Rightarrow> None)"
| "base64_decode _ = None"

text \<open>RFC 6455: the unmasked text frames of a server, with the shortest form of the length.\<close>

function read_frames :: "string \<Rightarrow> string list option" where
  "read_frames s =
     (case s of
        [] \<Rightarrow> Some []
      | [c] \<Rightarrow> None
      | c # l # s1 \<Rightarrow>
          if c \<noteq> CHR 0x81 then None
          else if char_code l < 126 then
            (if length s1 < char_code l then None
             else map_option ((#) (take (char_code l) s1)) (read_frames (drop (char_code l) s1)))
          else if char_code l = 126 then
            (case s1 of
               h # k # s2 \<Rightarrow>
                 (let n = 256 * char_code h + char_code k
                  in if length s2 < n \<or> n < 126 then None
                     else map_option ((#) (take n s2)) (read_frames (drop n s2)))
             | _ \<Rightarrow> None)
          else None)"
  by auto
termination by (relation "measure length") auto

declare read_frames.simps [simp del]

section \<open>The frames a client reads\<close>

lemma char_code_of [simp]: "char_code (char_of n) = n mod 256"
  by (simp add: char_code_def)

lemma read_frame_text:
  assumes "text_frame s = Some frame"
  shows "read_frames (frame @ rest) = map_option ((#) s) (read_frames rest)"
proof (cases "length s < 126")
  case True
  with assms have "frame @ rest = CHR 0x81 # char_of (length s) # s @ rest"
    by (auto simp: text_frame_def split: if_splits)
  with True show ?thesis
    by (subst read_frames.simps) simp
next
  case False
  with assms have len: "length s < 65536"
    and frame: "frame @ rest = CHR 0x81 # char_of (126 :: nat) # char_of (length s div 256) #
      char_of (length s mod 256) # s @ rest"
    by (auto simp: text_frame_def split: if_splits)
  have "length s div 256 < 256"
    using len by (simp add: less_mult_imp_div_less)
  moreover from this have "256 * (length s div 256) + length s mod 256 = length s"
    by simp
  ultimately show ?thesis
    using False unfolding frame by (subst read_frames.simps) simp
qed

interpretation frames: stream_code "\<lambda>s. text_frame s \<noteq> None" "\<lambda>s. the (text_frame s)" read_frames
proof
  show "read_frames [] = Some []"
    by (simp add: read_frames.simps)
  show "text_frame x \<noteq> None \<Longrightarrow> read_frames (the (text_frame x) @ rest) = map_option ((#) x) (read_frames rest)" for x rest
    by (auto intro: read_frame_text)
qed

lemma read_frames_concat:
  assumes "map text_frame messages = map Some frames"
  shows "read_frames (concat frames) = Some messages"
proof -
  have "list_all2 (\<lambda>m f. text_frame m = Some f) messages frames"
    using assms by (simp add: list_all2_conv_all_nth list_eq_iff_nth_eq)
  then have "frames = map (\<lambda>s. the (text_frame s)) messages \<and> list_all (\<lambda>s. text_frame s \<noteq> None) messages"
    by (induction rule: list_all2_induct) auto
  then show ?thesis
    using frames.read_all by blast
qed

lemma text_frame_length: "text_frame m = Some f \<Longrightarrow> length m \<le> 65535"
  by (auto simp: text_frame_def split: if_splits)

text \<open>
  C38. A client that reads the stream of text frames as RFC 6455 prescribes gets exactly the messages, in
  order, whatever they contain; messages of more than 65535 bytes are never sent.
\<close>

theorem frames_round_trip:
  assumes "map text_frame messages = map Some frames"
  shows "read_frames (concat frames) = Some messages \<and> list_all (\<lambda>m. length m \<le> 65535) messages"
proof -
  have "\<exists>f. text_frame m = Some f" if "m \<in> set messages" for m
    using assms that by (metis (no_types, lifting) image_iff list.set_map)
  then show ?thesis
    using read_frames_concat [OF assms] text_frame_length by (auto simp: list_all_iff)
qed

theorem frames_round_trip_witness:
  "\<exists>frames. map text_frame [''hi'', replicate 300 (CHR ''x'')] = map Some frames \<and>
    read_frames (concat frames) = Some [''hi'', replicate 300 (CHR ''x'')]"
proof -
  have "\<exists>frames. map text_frame [''hi'', replicate 300 (CHR ''x'')] = map Some frames"
    by (simp add: text_frame_def Cons_eq_map_conv)
  then obtain frames where "map text_frame [''hi'', replicate 300 (CHR ''x'')] = map Some frames" ..
  with frames_round_trip [OF this] show ?thesis
    by blast
qed

section \<open>The handshake\<close>

lemma rotl_word_rotl:
  assumes "n < 32"
  shows "rotl n x = word_rotl n x"
proof (rule bit_word_eqI)
  fix m assume "m < LENGTH(32)"
  then have m: "m < 32" by simp
  have low: "bit x k \<Longrightarrow> k < 32" for k
    using bit_imp_le_length [of x k] by simp
  show "bit (rotl n x) m = bit (word_rotl n x) m"
  proof (cases "n \<le> m")
    case True
    then have "m + 32 - n = 32 + (m - n)"
      by simp
    then have "(m + 32 - n) mod 32 = m - n"
      using m by (simp only: mod_add_self1) simp
    moreover have "\<not> bit x (32 + m - n)"
      using low [of "32 + m - n"] True by auto
    ultimately show ?thesis
      using assms m True by (auto simp: rotl_def bit_simps)
  next
    case False
    then have "(m + 32 - n) mod 32 = 32 + m - n"
      using assms m by simp
    with False assms m show ?thesis
      by (auto simp: rotl_def bit_simps)
  qed
qed

text \<open>
  The constants are those of the standard, which gets them as the integer parts of \<open>2^30\<close> times the square
  roots of 2, 3, 5 and 10, and the initial value counts its hexadecimal digits up and down.
\<close>

lemma fips_constant_roots:
  "list_all2 (\<lambda>t n. (unat (fips_constant t)) ^ 2 \<le> n * 2 ^ 60 \<and> n * 2 ^ 60 < (unat (fips_constant t) + 1) ^ 2)
     [0, 20, 40, 60] [2, 3, 5, 10]"
  by (simp add: fips_constant_def)

lemma sha1_constant_fips: "t < 80 \<Longrightarrow> sha1_constant t = fips_constant t"
proof -
  assume "t < 80"
  then consider "t div 20 = 0" "t < 20" | "t div 20 = 1" "20 \<le> t" "t < 40" | "t div 20 = 2" "40 \<le> t" "t < 60" |
    "t div 20 = 3" "60 \<le> t"
    by (cases "t < 20"; cases "t < 40"; cases "t < 60") auto
  then show ?thesis
    by cases (simp_all add: sha1_constant_def fips_constant_def)
qed

lemma sha1_initial_fips: "sha1_initial = fips_initial"
  by (simp add: sha1_initial_def fips_initial_def)

lemma sha1_function_fips: "i < 80 \<Longrightarrow> sha1_function i b c d = fips_function i b c d"
  unfolding sha1_function_def fips_function_def fips_ch_def fips_maj_def
  by (auto intro!: bit_word_eqI simp: bit_or_iff bit_and_iff bit_xor_iff bit_not_iff)

text \<open>Bytes put together with shifts are digits to the base 256.\<close>

lemma or_is_add: "x AND y = 0 \<Longrightarrow> x OR y = x + (y :: u32)"
  by (simp add: disjunctive_add_eq_or)

lemma four_bytes:
  fixes a b c d :: u8
  shows "push_bit 24 (ucast a :: u32) OR push_bit 16 (ucast b) OR push_bit 8 (ucast c) OR ucast d =
    256 * (256 * (256 * ucast a + ucast b) + ucast c) + ucast d"
proof -
  have low: "bit x k \<Longrightarrow> k < 8" for x :: u8 and k
    using bit_imp_le_length [of x k] by simp
  have "push_bit 8 (ucast c :: u32) AND ucast d = 0"
    by (rule bit_word_eqI) (auto simp: bit_simps dest!: low)
  moreover have "push_bit 16 (ucast b :: u32) AND (push_bit 8 (ucast c) OR ucast d) = 0"
    by (rule bit_word_eqI) (auto simp: bit_simps dest!: low)
  moreover have "push_bit 24 (ucast a :: u32) AND (push_bit 16 (ucast b) OR (push_bit 8 (ucast c) OR ucast d)) = 0"
    by (rule bit_word_eqI) (auto simp: bit_simps dest!: low)
  ultimately have "push_bit 24 (ucast a :: u32) OR push_bit 16 (ucast b) OR push_bit 8 (ucast c) OR ucast d =
      push_bit 24 (ucast a) + (push_bit 16 (ucast b) + (push_bit 8 (ucast c) + ucast d))"
    by (simp only: or_is_add or.assoc)
  also have "\<dots> = 256 * (256 * (256 * ucast a + ucast b) + ucast c) + ucast d"
    by (simp add: push_bit_eq_mult algebra_simps)
  finally show ?thesis .
qed

lemma pad_zeros_replicate: "pad_zeros bs = bs @ replicate ((120 - length bs mod 64) mod 64) 0"
proof (induction bs rule: pad_zeros.induct)
  case (1 bs)
  show ?case
  proof (cases "length bs mod 64 = 56")
    case False
    have "pad_zeros bs = (bs @ [0]) @ replicate ((120 - length (bs @ [0]) mod 64) mod 64) 0"
      using 1 False by (subst pad_zeros.simps) simp
    also have "\<dots> = bs @ replicate ((120 - length bs mod 64) mod 64) 0"
      unfolding missing_zeros [OF False] by simp
    finally show ?thesis .
  qed (subst pad_zeros.simps, simp)
qed

lemma length_byte: "(ucast (drop_bit (8 * k) (8 * of_nat n :: u64)) :: u8) = of_nat (8 * n div 256 ^ k)" if "k < 8"
proof -
  have "(256 :: nat) ^ k = 2 ^ (8 * k)"
    by (simp add: power_mult)
  moreover have "bit (ucast (drop_bit (8 * k) (of_nat m :: u64)) :: u8) i \<longleftrightarrow> bit (of_nat (m div 2 ^ (8 * k)) :: u8) i"
    if "i < 8" for m i
    using that \<open>k < 8\<close> by (auto simp: bit_simps bit_of_nat_iff drop_bit_eq_div [symmetric])
  moreover have "(8 * of_nat n :: u64) = of_nat (8 * n)"
    by simp
  ultimately show ?thesis
    by (simp only:) (rule bit_word_eqI, simp del: of_nat_mult of_nat_numeral)
qed

lemma sha1_padded_fips: "sha1_padded input = fips_padded (map char_byte input)"
proof -
  let ?n = "length input"
  have "(120 - Suc ?n mod 64) mod 64 = (119 - ?n mod 64) mod 64"
    by (cases "?n mod 64 = 63") (simp_all add: mod_Suc)
  moreover have "8 * (7 :: nat) = 56" "8 * (6 :: nat) = 48" "8 * (5 :: nat) = 40" "8 * (4 :: nat) = 32"
      "8 * (3 :: nat) = 24" "8 * (2 :: nat) = 16" "8 * (1 :: nat) = 8" "8 * (0 :: nat) = 0"
    by simp_all
  ultimately show ?thesis
    using length_byte [of 7 ?n] length_byte [of 6 ?n] length_byte [of 5 ?n] length_byte [of 4 ?n]
      length_byte [of 3 ?n] length_byte [of 2 ?n] length_byte [of 1 ?n] length_byte [of 0 ?n]
    by (simp add: sha1_padded_def fips_padded_def pad_zeros_replicate Let_def mult.commute del: length_greater_0_conv)
qed

lemma length_fips_padded: "length (fips_padded bs) mod 64 = 0"
proof -
  have "(r + 1 + (119 - r) mod 64 + 8) mod 64 = 0" if "r < 64" for r :: nat
  proof (cases "r \<le> 55")
    case True
    then have "(119 - r) mod 64 = 55 - r"
      using mod_add_self1 [of 64 "55 - r"] by simp
    with True show ?thesis by simp
  next
    case False
    with that show ?thesis by simp
  qed
  from this [of "length bs mod 64"]
  have "(length bs mod 64 + (1 + (119 - length bs mod 64) mod 64 + 8)) mod 64 = 0"
    by (simp add: ac_simps)
  moreover have "length (fips_padded bs) = length bs + (1 + (119 - length bs mod 64) mod 64 + 8)"
    by (simp add: fips_padded_def)
  ultimately show ?thesis
    by (simp only: mod_add_left_eq)
qed

lemma take_four:
  assumes "n + 4 \<le> length xs"
  shows "take 4 (drop n xs) = [xs ! n, xs ! (n + 1), xs ! (n + 2), xs ! (n + 3)]"
proof (rule nth_equalityI)
  show "length (take 4 (drop n xs)) = length [xs ! n, xs ! (n + 1), xs ! (n + 2), xs ! (n + 3)]"
    using assms by simp
  fix i assume "i < length (take 4 (drop n xs))"
  then consider "i = 0" | "i = 1" | "i = 2" | "i = 3"
    by fastforce
  then show "take 4 (drop n xs) ! i = [xs ! n, xs ! (n + 1), xs ! (n + 2), xs ! (n + 3)] ! i"
    using assms by cases simp_all
qed

lemma block_words_fips:
  assumes "64 * k + 64 \<le> length bs" and "t < 16"
  shows "block_words bs (64 * k) ! t = fips_word (take 64 (drop (64 * k) bs)) t"
proof -
  have "take 4 (drop (4 * t) (take 64 (drop (64 * k) bs))) = [bs ! (64 * k + t * 4), bs ! (64 * k + t * 4 + 1),
      bs ! (64 * k + t * 4 + 2), bs ! (64 * k + t * 4 + 3)]"
    using take_four [of "4 * t" "take 64 (drop (64 * k) bs)"] assms by (simp add: ac_simps)
  then show ?thesis
    using assms(2) by (simp add: block_words_def fips_word_def four_bytes)
qed

lemma extend_words_fips:
  assumes "length ws = 16" and "\<And>t. t < 16 \<Longrightarrow> ws ! t = m t" and "t < 80"
  shows "extend_words ws ! t = fips_schedule m t"
proof -
  define w where "w n = fold (\<lambda>i ws. ws @ [rotl 1 (ws ! (i - 3) XOR ws ! (i - 8) XOR ws ! (i - 14) XOR ws ! (i - 16))])
    [16..<n] ws" for n
  have w: "w 16 = ws" "16 \<le> n \<Longrightarrow> w (Suc n) = w n @ [rotl 1 (w n ! (n - 3) XOR w n ! (n - 8) XOR w n ! (n - 14) XOR w n ! (n - 16))]"
    for n by (simp_all add: w_def)
  have "length (w n) = n \<and> (\<forall>t < n. w n ! t = fips_schedule m t)" if "16 \<le> n" for n
    using that
  proof (induction n rule: dec_induct)
    case base
    with assms(1,2) show ?case
      by (simp add: fips_schedule.simps w)
  next
    case (step n)
    then have len: "length (w n) = n" and eq: "\<And>t. t < n \<Longrightarrow> w n ! t = fips_schedule m t"
      by auto
    have "fips_schedule m n = word_rotl 1 (w n ! (n - 3) XOR w n ! (n - 8) XOR w n ! (n - 14) XOR w n ! (n - 16))"
      using step(1) by (subst fips_schedule.simps) (simp add: eq)
    then have "w (Suc n) = w n @ [fips_schedule m n]"
      using step(1) by (simp only: w(2) rotl_word_rotl)
    then show ?case
      using len eq by (simp add: nth_append less_Suc_eq)
  qed
  then have "w 80 ! t = fips_schedule m t"
    using assms(3) by simp
  then show ?thesis
    unfolding extend_words_def w_def .
qed

lemma sha1_block_fips:
  assumes "64 * k + 64 \<le> length bs"
  shows "sha1_block bs (64 * k) h = fips_block (take 64 (drop (64 * k) bs)) h"
proof -
  let ?m = "fips_word (take 64 (drop (64 * k) bs))"
  have words: "extend_words (block_words bs (64 * k)) ! t = fips_schedule ?m t" if "t < 80" for t
    using that by (intro extend_words_fips) (simp_all add: block_words_fips [OF assms], simp add: block_words_def)
  have "fold (sha1_round (extend_words (block_words bs (64 * k)))) [0..<80] h =
      fold (fips_round (fips_schedule ?m)) [0..<80] h"
    by (rule fold_cong) (auto simp: sha1_round_def fips_round_def fun_eq_iff words sha1_function_fips sha1_constant_fips
        rotl_word_rotl Let_def)
  then show ?thesis
    by (cases h) (simp add: sha1_block_def fips_block_def Let_def)
qed

lemma word_bytes_fips: "word_bytes h = map (\<lambda>k. of_nat (unat h div 256 ^ k)) [3, 2, 1, 0]"
proof -
  have "(ucast (drop_bit n h) :: u8) = of_nat (unat h div 2 ^ n)" for n
    by (simp add: unat_drop_bit_eq [symmetric] drop_bit_eq_div [symmetric] unsigned_ucast_eq)
  from this [of 24] this [of 16] this [of 8] this [of 0] show ?thesis
    by (simp add: word_bytes_def)
qed

lemma sha1_fips: "sha1 input = fips_sha1 (map char_byte input)"
proof -
  let ?bs = "sha1_padded input"
  have len: "length ?bs mod 64 = 0"
    by (simp add: sha1_padded_fips length_fips_padded)
  then obtain n where n: "length ?bs = 64 * n"
    by (auto simp: mod_eq_0_iff_dvd)
  then have blocks: "(length ?bs + 63) div 64 = n" "length ?bs div 64 = n"
    by simp_all
  have "fold (\<lambda>k. sha1_block ?bs (64 * k)) [0..<n] h = fold (\<lambda>k. fips_block (take 64 (drop (64 * k) ?bs))) [0..<n] h" for h
    by (rule fold_cong) (use n in \<open>auto intro!: ext sha1_block_fips\<close>)
  then show ?thesis
    by (simp add: sha1_def fips_sha1_def blocks sha1_padded_fips [symmetric] sha1_initial_fips
        Let_def word_bytes_fips)
qed

section \<open>Base64\<close>

lemma alphabet_sextets: "map sextet alphabet = map Some [0..<64]"
  by (simp add: alphabet_def sextet_def char_code_def upt_rec)

lemma alphabet_facts: "length alphabet = 64" "CHR ''='' \<notin> set alphabet"
  by (simp_all add: alphabet_def)

lemma low_sextet: "unat (v AND 0x3F :: u32) = unat v mod 64"
proof -
  have "v AND 0x3F = take_bit 6 v"
    by (simp add: take_bit_eq_mask mask_eq_exp_minus_1)
  then show ?thesis
    by (simp only: unsigned_take_bit_eq) (simp add: take_bit_eq_mod)
qed

lemma sextet_alphabet: "sextet (alphabet_at v) = Some (unat v mod 64)"
  using arg_cong [OF alphabet_sextets, of "\<lambda>xs. xs ! (unat v mod 64)"]
  by (simp add: alphabet_at_def low_sextet alphabet_facts)

lemma alphabet_not_pad [simp]: "alphabet_at v \<noteq> CHR ''=''"
proof -
  have "alphabet_at v \<in> set alphabet"
    by (simp add: alphabet_at_def low_sextet alphabet_facts)
  then show ?thesis
    using alphabet_facts(2) by auto
qed

lemma three_bytes:
  fixes b c d :: u8
  shows "unat (push_bit 16 (ucast b :: u32) OR push_bit 8 (ucast c) OR ucast d) =
    65536 * unat b + 256 * unat c + unat d"
proof -
  have low: "unat x < 256" for x :: u8
    using unsigned_less [of x] by simp
  have "push_bit 16 (ucast b :: u32) OR push_bit 8 (ucast c) OR ucast d =
      of_nat (65536 * unat b + 256 * unat c + unat d)"
    using four_bytes [of 0 b c d] by (simp add: algebra_simps unsigned_ucast_eq [symmetric])
  moreover have "65536 * unat b + 256 * unat c + unat d < 2 ^ 32"
    using low [of b] low [of c] low [of d] by simp
  moreover have "unat (of_nat n :: u32) = n" if "n < 2 ^ 32" for n
    using that by (simp add: unsigned_of_nat take_bit_nat_eq_self)
  ultimately show ?thesis
    by (simp only:)
qed

lemma unat_drop: "unat (drop_bit n v :: u32) = unat v div 2 ^ n"
proof -
  have "unat v < 2 ^ 32"
    using unsigned_less [of v] by simp
  then show ?thesis
    by (simp only: unsigned_drop_bit_eq) (simp add: drop_bit_eq_div take_bit_nat_eq_self)
qed

text \<open>The arithmetic of one group.\<close>

lemma mod_digits: "k < a \<Longrightarrow> (a * x + k) mod (a * b) = a * (x mod b) + (k :: nat)"
  by (simp add: mod_mult2_eq)

lemma regroup:
  fixes x y z :: nat
  assumes "x < 256" and "y < 256" and "z < 256"
  defines "v \<equiv> 65536 * x + 256 * y + z"
  shows "v div 262144 mod 64 * 4 + v div 4096 mod 64 div 16 = x"
    and "v div 4096 mod 64 mod 16 * 16 + v div 64 mod 64 div 4 = y"
    and "v div 64 mod 64 mod 4 * 64 + v mod 64 = z"
proof -
  have a: "v div 262144 = x div 4" "v div 4096 = 16 * x + y div 16" "v div 64 = 1024 * x + 4 * y + z div 64"
    using assms by (simp_all add: v_def)
  have "y div 16 < 16" "z div 64 < 4"
    using assms(2,3) by simp_all
  from mod_digits [OF this(1), of x 4] mod_digits [OF this(2), of "256 * x + y" 16]
  have b: "(16 * x + y div 16) mod 64 = 16 * (x mod 4) + y div 16"
    "(1024 * x + 4 * y + z div 64) mod 64 = 4 * ((256 * x + y) mod 16) + z div 64"
    by (simp_all add: algebra_simps)
  have c: "(256 * x + y) mod 16 = y mod 16" "v mod 64 = z mod 64" "x div 4 mod 64 = x div 4"
  proof -
    have "256 * x + y = y + 16 * (16 * x)" "v = z + 64 * (1024 * x + 4 * y)"
      by (simp_all add: v_def)
    then show "(256 * x + y) mod 16 = y mod 16" "v mod 64 = z mod 64"
      by (simp_all only: mod_mult_self2)
  qed (use assms(1) in simp)
  show "v div 262144 mod 64 * 4 + v div 4096 mod 64 div 16 = x"
    unfolding a b c using assms(2) by simp
  show "v div 4096 mod 64 mod 16 * 16 + v div 64 mod 64 div 4 = y"
    unfolding a b c using assms(2,3) by simp
  show "v div 64 mod 64 mod 4 * 64 + v mod 64 = z"
    unfolding a b c using assms(3) by simp
qed

lemma padding_bits:
  fixes x y :: nat
  shows "(65536 * x) div 4096 mod 64 mod 16 = 0" and "(65536 * x + 256 * y) div 64 mod 64 mod 4 = 0"
proof -
  have "(65536 * x) div 4096 = 16 * x" "(65536 * x + 256 * y) div 64 = 4 * (256 * x + y)"
    by simp_all
  then show "(65536 * x) div 4096 mod 64 mod 16 = 0" "(65536 * x + 256 * y) div 64 mod 64 mod 4 = 0"
    by (simp_all add: mod_mod_cancel)
qed

lemma base64_decodes: "base64_decode (base64 bs) = Some bs"
proof (induction bs rule: base64.induct)
  case (2 x xs)
  have low: "unat x < 256" for x :: u8
    using unsigned_less [of x] by simp
  define y z where "y = (if 0 < length xs then xs ! 0 else 0)" and "z = (if 1 < length xs then xs ! 1 else 0)"
  define v where "v = push_bit 16 (ucast x :: u32) OR push_bit 8 (ucast y) OR ucast z"
  have v: "unat v = 65536 * unat x + 256 * unat y + unat z"
    unfolding v_def by (rule three_bytes)
  have v': "v = push_bit 16 (ucast x) OR (if 0 < length xs then push_bit 8 (ucast (xs ! 0)) else 0) OR
      (if 1 < length xs then ucast (xs ! 1) else 0)"
    by (simp add: v_def y_def z_def or.assoc)
  have code: "base64 (x # xs) = [alphabet_at (drop_bit 18 v), alphabet_at (drop_bit 12 v),
      if 0 < length xs then alphabet_at (drop_bit 6 v) else CHR ''='',
      if 1 < length xs then alphabet_at v else CHR ''=''] @ base64 (drop 2 xs)"
    unfolding base64.simps(2) Let_def v' [symmetric] or.assoc ..
  note groups = regroup [OF low [of x] low [of y] low [of z], folded v]
  have sextets: "sextet (alphabet_at (drop_bit 18 v)) = Some (unat v div 262144 mod 64)"
    "sextet (alphabet_at (drop_bit 12 v)) = Some (unat v div 4096 mod 64)"
    "sextet (alphabet_at (drop_bit 6 v)) = Some (unat v div 64 mod 64)"
    by (simp_all add: sextet_alphabet unat_drop)
  have IH: "base64_decode (base64 (drop 2 xs)) = Some (drop 2 xs)"
    using "2.IH" by simp
  consider "xs = []" | y' where "xs = [y']" | y' z' zs where "xs = y' # z' # zs"
    by (metis neq_Nil_conv)
  then show ?case
  proof cases
    case 1
    then have "unat v div 4096 mod 64 mod 16 = 0"
      using padding_bits(1) [of "unat x"] by (simp add: v y_def z_def)
    with 1 have "base64_decode (base64 (x # xs)) = Some [of_nat (unat x)]"
      unfolding code by (simp add: sextets sextet_alphabet [of v] groups del: of_nat_add of_nat_mult of_nat_numeral)
    with 1 show ?thesis by simp
  next
    case 2
    then have "unat v div 64 mod 64 mod 4 = 0"
      using padding_bits(2) [of "unat x" "unat y"] by (simp add: v y_def z_def)
    with 2 have "base64_decode (base64 (x # xs)) = Some [of_nat (unat x), of_nat (unat y)]"
      unfolding code by (simp add: sextets sextet_alphabet [of v] groups del: of_nat_add of_nat_mult of_nat_numeral)
    with 2 show ?thesis by (simp add: y_def)
  next
    case 3
    then have "base64_decode (base64 (x # xs)) = Some ([of_nat (unat x), of_nat (unat y), of_nat (unat z)] @ drop 2 xs)"
      using IH unfolding code by (simp add: sextets sextet_alphabet [of v] groups del: of_nat_add of_nat_mult of_nat_numeral)
    with 3 show ?thesis by (simp add: y_def z_def)
  qed
qed simp

text \<open>
  C16. The key that accepts a WebSocket connection is, decoded from base64, the SHA-1 digest (as FIPS 180
  defines it) of the client's key followed by the GUID of RFC 6455. The reference has its own constants and
  its own table of characters.
\<close>

theorem accept_key_correct:
  "base64_decode (accept_key key) =
     Some (fips_sha1 (map char_byte (key @ ''258EAFA5-E914-47DA-95CA-C5AB0DC85B11'')))"
  by (simp only: accept_key_def base64_decodes sha1_fips kWebSocketGuid_def)

end
