(* ===== verification/Local_Server.thy ===== *)
theory Local_Server
  imports Runtime_Properties Json_Text Websocket Producer
begin

text \<open>
  The local control server: \<open>src/src/control/LocalControlServer.cpp\<close> above the text layers, with the paths
  of \<open>src/src/control/ControlApi.h\<close>. A connection is served from what \<open>recv\<close> and \<open>send\<close> return and from the
  answers of the runtime; the assets are generated files and stand as arguments.
\<close>

section \<open>Replies\<close>

definition kTunnelsPath :: string where "kTunnelsPath = ''/api/v1/tunnels''"
definition kHealthPath :: string where "kHealthPath = ''/api/v1/health''"
definition kRuntimesPath :: string where "kRuntimesPath = ''/api/v1/runtimes''"
definition kConfigPath :: string where "kConfigPath = ''/api/v1/config''"
definition kEventsPath :: string where "kEventsPath = ''/api/v1/events''"

definition tunnelPath :: "string \<Rightarrow> string" where
  "tunnelPath al = kTunnelsPath @ ''/'' @ al"

definition tunnelActionPath :: "string \<Rightarrow> string \<Rightarrow> string" where
  "tunnelActionPath al act = tunnelPath al @ ''/'' @ act"

definition producerActionPath :: "string \<Rightarrow> string \<Rightarrow> string" where
  "producerActionPath al act = kTunnelsPath @ ''/'' @ al @ ''/producer/'' @ act"

datatype reply = Json_reply nat string | Asset_reply string string | Upgrade_reply string

fun reply_status :: "reply \<Rightarrow> nat" where
  "reply_status (Json_reply status body) = status"
| "reply_status (Asset_reply content_type body) = 200"
| "reply_status (Upgrade_reply key) = 101"

definition status_reason :: "nat \<Rightarrow> string" where
  "status_reason status =
     (if status = 200 then ''OK'' else if status = 202 then ''Accepted'' else if status = 400 then ''Bad Request''
      else if status = 404 then ''Not Found'' else if status = 409 then ''Conflict'' else ''Internal Server Error'')"

definition json_response :: "nat \<Rightarrow> string \<Rightarrow> string" where
  "json_response status body =
     ''HTTP/1.1 '' @ to_string status @ '' '' @ status_reason status @ crlf @ ''Content-Type: application/json'' @ crlf @
     ''Content-Length: '' @ to_string (length body) @ crlf @ ''Connection: close'' @ crlf @ crlf @ body"

definition content_policy :: string where
  "content_policy = ''default-src '' @ quoted ''self'' @ ''; connect-src '' @ quoted ''self'' @
     '' ws: wss:; style-src '' @ quoted ''self'' @ ''; script-src '' @ quoted ''self''"

definition asset_response :: "string \<Rightarrow> string \<Rightarrow> string" where
  "asset_response content_type body =
     ''HTTP/1.1 200 OK'' @ crlf @ ''Content-Type: '' @ content_type @ ''; charset=utf-8'' @ crlf @
     ''Content-Length: '' @ to_string (length body) @ crlf @ ''Cache-Control: no-store'' @ crlf @
     ''X-Content-Type-Options: nosniff'' @ crlf @ ''Content-Security-Policy: '' @ content_policy @ crlf @
     ''Connection: close'' @ crlf @ crlf @ body"

definition upgrade_response :: "string \<Rightarrow> string" where
  "upgrade_response key =
     ''HTTP/1.1 101 Switching Protocols'' @ crlf @ ''Upgrade: websocket'' @ crlf @ ''Connection: Upgrade'' @ crlf @
     ''Sec-WebSocket-Accept: '' @ key @ crlf @ crlf"

fun response_text :: "reply \<Rightarrow> string" where
  "response_text (Json_reply status body) = json_response status body"
| "response_text (Asset_reply content_type body) = asset_response content_type body"
| "response_text (Upgrade_reply key) = upgrade_response key"

section \<open>Requests\<close>

text \<open>The parts of a path between slashes, empty ones left out.\<close>

function splitPath :: "string \<Rightarrow> string list" where
  "splitPath path =
     (if path = [] then []
      else (case find_char (CHR ''/'') path of
              None \<Rightarrow> [path]
            | Some e \<Rightarrow> (if e = 0 then [] else [take e path]) @ splitPath (drop (e + 1) path)))"
  by auto
termination by (relation "measure length") auto

declare splitPath.simps [simp del]

datatype runtime_call =
    Start_tunnel string
  | Stop_tunnel string
  | Restart_tunnel string
  | Start_producer string producer_options
  | Stop_producer string
  | Restart_producer string producer_options

record web_assets =
  index_html :: string
  styles_css :: string
  app_js :: string

text \<open>
  The surroundings of a connection: the machine, what happens when the configuration is written, the assets,
  whether each call of the runtime returns or throws, and its snapshots.
\<close>

record connection_env =
  env_os :: os
  env_write :: write_env
  env_assets :: web_assets
  env_runtime :: "runtime_call \<Rightarrow> string option"
  env_snapshots :: "tunnel_snapshot list"

definition summaryJson :: "tunnel_summary \<Rightarrow> string" where
  "summaryJson s =
     ''{'' @ q ''alias'' @ '':'' @ q (jsonEscape (summary_alias s)) @ '','' @
     q ''mode'' @ '':'' @ q (jsonEscape (summary_mode s)) @ '','' @
     q ''udp_destination'' @ '':'' @ q (jsonEscape (summary_destination s)) @ '','' @
     q ''equivalent_direct_command'' @ '':'' @ q (jsonEscape (equivalent_direct_command s)) @ ''}''"

definition tunnelJson :: "service \<Rightarrow> named_tunnel \<Rightarrow> string \<Rightarrow> string" where
  "tunnelJson svc t al =
     ''{'' @ q ''alias'' @ '':'' @ q (jsonEscape (tunnel_alias t)) @ '','' @ q ''mode'' @ '':'' @ q (modeName t) @
     (case find (\<lambda>s. summary_alias s = al) (listTunnels svc) of
        None \<Rightarrow> []
      | Some s \<Rightarrow> '','' @ q ''udp_destination'' @ '':'' @ q (jsonEscape (summary_destination s))) @ ''}''"

text \<open>The options in the body of a producer request.\<close>

definition interval_option :: "string \<Rightarrow> producer_options \<Rightarrow> string + producer_options" where
  "interval_option body opts =
     (case jsonUnsignedProperty body ''interval_milliseconds'' of
        None \<Rightarrow> Inr opts
      | Some n \<Rightarrow>
          if n = 0 \<or> 4294967295 < n then Inl ''interval_milliseconds must be between 1 and 4294967295''
          else Inr (opts\<lparr>interval_ms := of_nat n\<rparr>))"

definition count_option :: "string \<Rightarrow> producer_options \<Rightarrow> string + producer_options" where
  "count_option body opts =
     (case jsonUnsignedProperty body ''count'' of
        None \<Rightarrow> Inr opts
      | Some n \<Rightarrow>
          if n = 0 \<or> 2 ^ 64 - 1 < n then Inl ''count must be a positive integer''
          else Inr (opts\<lparr>send_count := of_nat n\<rparr>))"

definition prefix_option :: "string \<Rightarrow> producer_options \<Rightarrow> producer_options" where
  "prefix_option body opts =
     (case jsonStringProperty body ''payload_prefix'' of None \<Rightarrow> opts | Some p \<Rightarrow> opts\<lparr>payload_prefix := p\<rparr>)"

definition request_options :: "string \<Rightarrow> string + producer_options" where
  "request_options body =
     and_then (interval_option body default_options) (\<lambda>opts.
     and_then (count_option body opts) (\<lambda>opts. Inr (prefix_option body opts)))"

text \<open>The actions on a tunnel and on its producer; an action that is not known throws.\<close>

definition tunnel_action :: "string \<Rightarrow> string \<Rightarrow> string + runtime_call" where
  "tunnel_action al act =
     (if act = ''start'' then Inr (Start_tunnel al) else if act = ''stop'' then Inr (Stop_tunnel al)
      else if act = ''restart'' then Inr (Restart_tunnel al) else Inl ''unknown tunnel action'')"

definition producer_action :: "string \<Rightarrow> string \<Rightarrow> string \<Rightarrow> string + runtime_call" where
  "producer_action al act body =
     and_then (if act = ''start'' \<or> act = ''restart'' then request_options body else Inr default_options) (\<lambda>opts.
       if act = ''start'' then Inr (Start_producer al opts) else if act = ''stop'' then Inr (Stop_producer al)
       else if act = ''restart'' then Inr (Restart_producer al opts) else Inl ''unknown producer action'')"

text \<open>
  The result of a request: the exception it threw or its reply, the calls of the runtime, the catalogue and
  the file system.
\<close>

type_synonym handled = "(string + reply) \<times> runtime_call list \<times> service \<times> file_system"

definition perform_call :: "connection_env \<Rightarrow> service \<Rightarrow> file_system \<Rightarrow> string + runtime_call \<Rightarrow> handled" where
  "perform_call env svc fs action =
     (case action of
        Inl message \<Rightarrow> (Inl message, [], svc, fs)
      | Inr call \<Rightarrow>
          (case env_runtime env call of
             Some message \<Rightarrow> (Inl message, [call], svc, fs)
           | None \<Rightarrow> (Inr (Json_reply 202 (''{'' @ q ''accepted'' @ '':true}'')), [call], svc, fs)))"

definition put_config :: "connection_env \<Rightarrow> string \<Rightarrow> service \<Rightarrow> file_system \<Rightarrow> handled" where
  "put_config env body svc fs =
     (case jsonStringProperty body ''toml'' of
        None \<Rightarrow> (Inl (''request must provide a JSON string property named '' @ quoted ''toml''), [], svc, fs)
      | Some toml \<Rightarrow>
          (case replaceConfiguration (env_os env) (env_write env) toml svc fs of
             (Some message, after) \<Rightarrow> (Inl message, [], after)
           | (None, after) \<Rightarrow> (Inr (Json_reply 200 (''{'' @ q ''updated'' @ '':true}'')), [], after)))"

definition tunnel_routes :: "connection_env \<Rightarrow> http_request \<Rightarrow> string list \<Rightarrow> service \<Rightarrow> file_system \<Rightarrow> handled" where
  "tunnel_routes env request parts svc fs =
     (let answer = (\<lambda>r. (r, [], svc, fs));
          not_found = answer (Inr (Json_reply 404 (errorJson ''not_found'' ''unknown control API endpoint'')))
      in if 4 \<le> length parts \<and> parts ! 0 = ''api'' \<and> parts ! 1 = ''v1'' \<and> parts ! 2 = ''tunnels'' then
           (let al = parts ! 3 in
            if req_method request = ''GET'' \<and> length parts = 4 then
              (case service_tunnel svc al of
                 Inl message \<Rightarrow> answer (Inl message)
               | Inr t \<Rightarrow> answer (Inr (Json_reply 200 (tunnelJson svc t al))))
            else if req_method request = ''POST'' \<and> length parts = 5 then
              perform_call env svc fs (tunnel_action al (parts ! 4))
            else if req_method request = ''POST'' \<and> length parts = 6 \<and> parts ! 4 = ''producer'' then
              perform_call env svc fs (producer_action al (parts ! 5) (req_body request))
            else not_found)
         else not_found)"

definition upgrade_wanted :: "http_request \<Rightarrow> string \<Rightarrow> bool" where
  "upgrade_wanted request path \<longleftrightarrow> req_method request = ''GET'' \<and> path = kEventsPath \<and>
     (case map_of (req_headers request) ''upgrade'' of None \<Rightarrow> False | Some v \<Rightarrow> lower v = ''websocket'')"

definition request_path :: "http_request \<Rightarrow> string" where
  "request_path request = takeWhile (\<lambda>c. c \<noteq> CHR ''?'') (req_target request)"

definition routes :: "connection_env \<Rightarrow> http_request \<Rightarrow> service \<Rightarrow> file_system \<Rightarrow> handled" where
  "routes env request svc fs =
     (let path = request_path request; get = (req_method request = ''GET''); answer = (\<lambda>r. (r, [], svc, fs));
          assets = env_assets env
      in if get \<and> (path = ''/'' \<or> path = ''/index.html'') then answer (Inr (Asset_reply ''text/html'' (index_html assets)))
         else if get \<and> path = ''/assets/styles.css'' then answer (Inr (Asset_reply ''text/css'' (styles_css assets)))
         else if get \<and> path = ''/assets/app.js'' then
           answer (Inr (Asset_reply ''application/javascript'' (app_js assets)))
         else if get \<and> path = kHealthPath then
           answer (Inr (Json_reply 200 (''{'' @ q ''service'' @ '':'' @ q ''dgramtunneler'' @ '','' @
             q ''api_version'' @ '':'' @ q ''v1'' @ '','' @ q ''ready'' @ '':true}'')))
         else if get \<and> path = kTunnelsPath then
           answer (Inr (Json_reply 200 (''{'' @ q ''tunnels'' @ '':['' @ commas (map summaryJson (listTunnels svc)) @ '']}'')))
         else if get \<and> path = kRuntimesPath then
           answer (Inr (Json_reply 200 (''{'' @ q ''runtimes'' @ '':['' @ commas (map snapshotJson (env_snapshots env)) @ '']}'')))
         else if get \<and> path = kConfigPath then
           (case configurationToml fs svc of
              Inl message \<Rightarrow> answer (Inl message)
            | Inr toml \<Rightarrow> answer (Inr (Json_reply 200 (''{'' @ q ''toml'' @ '':'' @ q (jsonEscape toml) @ ''}''))))
         else if req_method request = ''PUT'' \<and> path = kConfigPath then put_config env (req_body request) svc fs
         else if upgrade_wanted request path then
           (case map_of (req_headers request) ''sec-websocket-key'' of
              None \<Rightarrow> answer (Inl ''WebSocket request is missing Sec-WebSocket-Key'')
            | Some key \<Rightarrow> answer (Inr (Upgrade_reply (accept_key key))))
         else tunnel_routes env request (splitPath path) svc fs)"

text \<open>The \<open>try\<close> block: whatever is thrown becomes a reply with status 400.\<close>

definition handle_request ::
  "connection_env \<Rightarrow> http_request \<Rightarrow> service \<Rightarrow> file_system \<Rightarrow> reply \<times> runtime_call list \<times> service \<times> file_system" where
  "handle_request env request svc fs =
     (case routes env request svc fs of
        (Inl message, rest) \<Rightarrow> (Json_reply 400 (errorJson ''invalid_request'' message), rest)
      | (Inr reply, rest) \<Rightarrow> (reply, rest))"

section \<open>Connections\<close>

text \<open>
  What a connection leaves: the bytes of the response the peer got, the calls of the runtime, and for a
  connection that becomes a web socket the snapshots that are to be sent over it next. \<open>results\<close> says what
  the calls of \<open>send\<close> return during the response.
\<close>

record served =
  response_bytes :: string
  calls_made :: "runtime_call list"
  greeting :: "tunnel_snapshot list option"

definition serveConnection ::
  "connection_env \<Rightarrow> string list \<Rightarrow> int list \<Rightarrow> service \<Rightarrow> file_system \<Rightarrow> served \<times> service \<times> file_system" where
  "serveConnection env pieces results svc fs =
     (case receiveRequest pieces of
        None \<Rightarrow>
          (\<lparr>response_bytes = snd (sendAll (json_response 400 (errorJson ''invalid_request'' ''could not parse HTTP request'')) results),
            calls_made = [], greeting = None\<rparr>, svc, fs)
      | Some request \<Rightarrow>
          (let (reply, calls, svc', fs') = handle_request env request svc fs;
               (ok, sent) = sendAll (response_text reply) results
           in (\<lparr>response_bytes = sent, calls_made = calls,
                greeting = (case reply of Upgrade_reply key \<Rightarrow> if ok then Some (env_snapshots env) else None | _ \<Rightarrow> None)\<rparr>,
               svc', fs')))"

section \<open>The listener\<close>

text \<open>The calls of \<open>run\<close> before the loop, with the address that is bound.\<close>

datatype listen_call =
    Listen_socket
  | Listen_reuse
  | Listen_bind u16 u32
  | Listen_listen
  | Listen_timeout

text \<open>\<open>htonl\<close>.\<close>

definition htonl :: "byte_order \<Rightarrow> u32 \<Rightarrow> u32" where
  "htonl order w = load order (store Big 4 w)"

definition INADDR_LOOPBACK :: u32 where "INADDR_LOOPBACK = 0x7F000001"

definition open_listener :: "byte_order \<Rightarrow> (listen_call \<Rightarrow> int option) \<Rightarrow> u16 \<Rightarrow> string + listen_call list" where
  "open_listener order sys port =
     (let bind_call = Listen_bind (htons order port) (htonl order INADDR_LOOPBACK);
          failed = (\<lambda>what e. Inl (what @ '' (error '' @ show_int e @ '')''))
      in case sys Listen_socket of
           Some e \<Rightarrow> failed ''could not create local control socket'' e
         | None \<Rightarrow>
             (case sys bind_call of
                Some e \<Rightarrow> failed (''could not bind local control service to 127.0.0.1:'' @ to_string (unat port)) e
              | None \<Rightarrow>
                  (case sys Listen_listen of
                     Some e \<Rightarrow> failed ''could not listen for local control requests'' e
                   | None \<Rightarrow>
                       (case sys Listen_timeout of
                          Some e \<Rightarrow> failed ''could not listen for local control requests'' e
                        | None \<Rightarrow> Inr [Listen_socket, Listen_reuse, bind_call, Listen_listen, Listen_timeout]))))"

section \<open>What a request can change\<close>

definition puts_config :: "http_request \<Rightarrow> bool" where
  "puts_config request \<longleftrightarrow> req_method request = ''PUT'' \<and> request_path request = kConfigPath"

lemma put_config_result:
  assumes "put_config env body svc fs = (r, calls, svc', fs')"
  shows "calls = [] \<and> (\<forall>path. path \<noteq> configuration_path svc \<and> path \<noteq> temporary_path svc \<longrightarrow> fs' path = fs path) \<and>
    (case r of
      Inl message \<Rightarrow> svc' = svc \<and> (fs' (configuration_path svc) = fs (configuration_path svc) \<or>
        fs' (configuration_path svc) = None \<and> file_lost (env_os env) (env_write env))
    | Inr reply \<Rightarrow> reply_status reply = 200)"
proof (cases "jsonStringProperty body ''toml''")
  case (Some toml)
  obtain thrown svc1 fs1 where r: "replaceConfiguration (env_os env) (env_write env) toml svc fs = (thrown, svc1, fs1)"
    by (metis prod_cases3)
  have "fs1 path = fs path" if "path \<noteq> configuration_path svc" "path \<noteq> temporary_path svc" for path
    using replace_other_files [OF that, of "env_os env" "env_write env" toml fs] r by simp
  with Some assms r replace_thrown [of "env_os env" "env_write env" toml svc fs _ svc1 fs1] show ?thesis
    by (cases thrown) (auto simp: put_config_def)
qed (use assms in \<open>auto simp: put_config_def\<close>)

lemma perform_call_result:
  assumes "perform_call env svc fs action = (r, calls, svc', fs')"
  shows "svc' = svc \<and> fs' = fs \<and> length calls \<le> 1 \<and> (\<forall>c \<in> set calls. action = Inr c) \<and>
    (case r of Inl message \<Rightarrow> \<forall>c \<in> set calls. env_runtime env c = Some message
     | Inr reply \<Rightarrow> reply_status reply = 202 \<and> calls \<noteq> [] \<and> (\<forall>c \<in> set calls. env_runtime env c = None))"
  using assms by (auto simp: perform_call_def split: sum.splits option.splits)

lemma tunnel_routes_result:
  assumes "tunnel_routes env request parts svc fs = (r, calls, svc', fs')"
  shows "svc' = svc \<and> fs' = fs \<and> length calls \<le> 1 \<and> (calls \<noteq> [] \<longrightarrow> req_method request = ''POST'') \<and>
    (case r of Inl message \<Rightarrow> \<forall>c \<in> set calls. env_runtime env c = Some message
     | Inr reply \<Rightarrow> reply_status reply \<in> {200, 202, 404} \<and>
         (reply_status reply = 202 \<longleftrightarrow> calls \<noteq> []) \<and> (\<forall>c \<in> set calls. env_runtime env c = None))"
proof -
  have "(\<exists>action. tunnel_routes env request parts svc fs = perform_call env svc fs action \<and>
        req_method request = ''POST'') \<or>
      (\<exists>r'. tunnel_routes env request parts svc fs = (r', [], svc, fs) \<and>
        (case r' of Inl _ \<Rightarrow> True | Inr reply \<Rightarrow> reply_status reply = 200 \<or> reply_status reply = 404))"
    unfolding tunnel_routes_def Let_def by (auto split: sum.split)
  then consider (call) action where "tunnel_routes env request parts svc fs = perform_call env svc fs action"
      "req_method request = ''POST''"
    | (other) r' where "tunnel_routes env request parts svc fs = (r', [], svc, fs)"
      "case r' of Inl _ \<Rightarrow> True | Inr reply \<Rightarrow> reply_status reply = 200 \<or> reply_status reply = 404"
    by blast
  then show ?thesis
  proof cases
    case call
    with assms perform_call_result [of env svc fs action r calls svc' fs'] show ?thesis
      by (cases r) auto
  next
    case other
    with assms show ?thesis
      by (cases r) auto
  qed
qed

lemma routes_cases:
  obtains (answer) r' where "routes env request svc fs = (r', [], svc, fs)"
      "case r' of Inl _ \<Rightarrow> True | Inr reply \<Rightarrow> reply_status reply = 200 \<or> reply_status reply = 101"
    | (put) "routes env request svc fs = put_config env (req_body request) svc fs" "puts_config request"
    | (tunnel) "routes env request svc fs = tunnel_routes env request (splitPath (request_path request)) svc fs"
proof -
  define Q where "Q h \<longleftrightarrow> (\<exists>r'. h = (r', [], svc, fs) \<and>
        (case r' of Inl _ \<Rightarrow> True | Inr reply \<Rightarrow> reply_status reply = 200 \<or> reply_status reply = 101)) \<or>
      (h = put_config env (req_body request) svc fs \<and> puts_config request) \<or>
      h = tunnel_routes env request (splitPath (request_path request)) svc fs" for h
  have answered: "(case r' of Inl _ \<Rightarrow> True | Inr reply \<Rightarrow> reply_status reply = 200 \<or> reply_status reply = 101) \<Longrightarrow>
      Q (r', [], svc, fs)" for r'
    unfolding Q_def by blast
  have put: "req_method request = ''PUT'' \<and> request_path request = kConfigPath \<Longrightarrow>
      Q (put_config env (req_body request) svc fs)"
    and tunnel: "Q (tunnel_routes env request (splitPath (request_path request)) svc fs)"
    unfolding Q_def puts_config_def by blast+
  have on_sum: "(\<And>m. Q (f m)) \<Longrightarrow> (\<And>y. Q (g y)) \<Longrightarrow> Q (case x of Inl m \<Rightarrow> f m | Inr y \<Rightarrow> g y)"
    for f g and x :: "string + string"
    by (cases x) auto
  have on_option: "Q h \<Longrightarrow> (\<And>y. Q (g y)) \<Longrightarrow> Q (case x of None \<Rightarrow> h | Some y \<Rightarrow> g y)" for h g and x :: "string option"
    by (cases x) auto
  have branch: "(c \<Longrightarrow> Q h) \<Longrightarrow> (\<not> c \<Longrightarrow> Q h') \<Longrightarrow> Q (if c then h else h')" for c h h'
    by simp
  have "Q (routes env request svc fs)"
    unfolding routes_def Let_def
    by (intro branch answered put tunnel on_sum on_option) (simp (no_asm) | assumption)+
  then show ?thesis
    unfolding Q_def using that by blast
qed

lemma routes_result:
  assumes "routes env request svc fs = (r, calls, svc', fs')"
  shows "length calls \<le> 1 \<and> (calls \<noteq> [] \<longrightarrow> req_method request = ''POST'') \<and>
    (svc' \<noteq> svc \<or> fs' \<noteq> fs \<longrightarrow> puts_config request) \<and>
    (\<forall>path. path \<noteq> configuration_path svc \<and> path \<noteq> temporary_path svc \<longrightarrow> fs' path = fs path) \<and>
    (case r of
       Inl message \<Rightarrow> svc' = svc \<and> (fs' (configuration_path svc) = fs (configuration_path svc) \<or>
           fs' (configuration_path svc) = None \<and> file_lost (env_os env) (env_write env) \<and> puts_config request) \<and>
         (\<forall>c \<in> set calls. env_runtime env c = Some message)
     | Inr reply \<Rightarrow> reply_status reply \<in> {101, 200, 202, 404} \<and>
         (reply_status reply = 202 \<longleftrightarrow> calls \<noteq> []) \<and> (\<forall>c \<in> set calls. env_runtime env c = None) \<and>
         (reply_status reply = 404 \<longrightarrow> svc' = svc \<and> fs' = fs))"
proof (cases rule: routes_cases [of env request svc fs])
  case (answer r')
  with assms show ?thesis
    by (cases r) auto
next
  case put
  with assms put_config_result [of env "req_body request" svc fs r calls svc' fs'] show ?thesis
    by (cases r) auto
next
  case tunnel
  with assms tunnel_routes_result [of env request _ svc fs r calls svc' fs'] show ?thesis
    by (cases r) auto
qed

text \<open>
  The calls of the runtime as they begin in \<open>Managed_Runtime\<close>. \<open>performed\<close>: the answer of the runtime is the one
  that the call gets during some moves of callers and threads, when the server is caller \<open>c\<close> and its calls
  get the threads they ask for.
\<close>

fun call_caller :: "runtime_call \<Rightarrow> caller" where
  "call_caller (Start_tunnel al) = Lookup Kind_tunnel al"
| "call_caller (Stop_tunnel al) = Request_stop False Kind_tunnel al"
| "call_caller (Restart_tunnel al) = Request_stop True Kind_tunnel al"
| "call_caller (Start_producer al opts) = Lookup Kind_producer al"
| "call_caller (Stop_producer al) = Request_stop False Kind_producer al"
| "call_caller (Restart_producer al opts) = Request_stop True Kind_producer al"

fun restarts :: "runtime_call \<Rightarrow> bool" where
  "restarts (Restart_tunnel al) = True"
| "restarts (Restart_producer al opts) = True"
| "restarts _ = False"

definition performed ::
  "connection_env \<Rightarrow> nat \<Rightarrow> runtime_call \<Rightarrow> move list \<Rightarrow> runtime \<times> caller list \<Rightarrow> runtime \<times> caller list \<Rightarrow> bool" where
  "performed env c call ms before after \<longleftrightarrow>
     run_moves (Begin_call c (call_caller call) # ms) before = Some after \<and> list_all (within_call c) ms \<and>
     snd after ! c = (case env_runtime env call of None \<Rightarrow> Idle | Some message \<Rightarrow> Thrown message)"

lemma refused_performed:
  assumes "performed env c call ms (rt, cs) (rt', cs')" and "env_runtime env call = Some message" and "\<not> restarts call"
  shows "run_moves (filter (\<lambda>m. \<not> own_move c m) ms) (rt, cs) = Some (rt', cs'[c := cs ! c])"
proof -
  have run: "run_moves ms (rt, cs[c := call_caller call]) = Some (rt', cs')" and c: "c < length cs"
    and thrown: "cs' ! c = Thrown message" and ms: "list_all (within_call c) ms"
    using assms(1,2) by (auto simp: performed_def split: if_splits)
  have "early (call_caller call)"
    using assms(3) by (cases call) simp_all
  with refused_run [OF run ms, of message "cs ! c"] c thrown show ?thesis
    by simp
qed


section \<open>Frames\<close>

lemma sendAll_ok: "fst (sendAll s results) \<Longrightarrow> snd (sendAll s results) = s"
proof (induction s results rule: sendAll.induct)
  case (2 s r rs)
  then show ?case
    by (auto simp: case_prod_beta Let_def split: if_splits)
qed simp

lemma sendWebSocketText_ok:
  assumes "fst (sendWebSocketText s results)"
  shows "text_frame s = Some (snd (sendWebSocketText s results))"
  using assms sendAll_ok by (auto simp: sendWebSocketText_def split: option.splits)

text \<open>A subscriber that holds the frames of some messages.\<close>

definition frames_of :: "string list \<Rightarrow> string \<Rightarrow> bool" where
  "frames_of messages received \<longleftrightarrow> (\<exists>frames. map text_frame messages = map Some frames \<and> received = concat frames)"

lemma frames_of_append:
  "frames_of ms received \<Longrightarrow> text_frame m = Some frame \<Longrightarrow> frames_of (ms @ [m]) (received @ frame)"
  unfolding frames_of_def
  by (elim exE conjE) (rule exI [where x = "_ @ [frame]"], simp)

section \<open>Starting a producer\<close>

text \<open>
  The readers look for the name between quotes and for the next colon after it: a string that stands as a
  value is taken for a name, and the number of another property is returned for it.
\<close>

lemma value_taken_for_name:
  "jsonUnsignedProperty (''{'' @ q ''payload_prefix'' @ '':'' @ q ''count'' @ '','' @
     q ''interval_milliseconds'' @ '':7}'') ''count'' = Some 7"
proof -
  have "property_text (''{'' @ q ''payload_prefix'' @ '':'' @ q ''count'' @ '','' @ q ''interval_milliseconds'' @ '':7}'') ''count'' =
      Some (to_string 7 @ ''}'')"
    by code_simp
  moreover have "\<not> isdigit (hd ''}'')"
    by code_simp
  ultimately show ?thesis
    using from_chars_junk [of "''}''" 64 7] by (simp add: jsonUnsignedProperty_def)
qed

definition producer_body :: "nat \<Rightarrow> nat \<Rightarrow> string \<Rightarrow> string" where
  "producer_body a b p =
     ''{'' @ q ''interval_milliseconds'' @ '':'' @ to_string a @ '','' @ q ''count'' @ '':'' @ to_string b @ '','' @
     q ''payload_prefix'' @ '':'' @ q (jsonEscape p) @ ''}''"

lemma dropWhile_space_digits: "dropWhile isspace (to_string n @ s) = to_string n @ s"
proof -
  obtain c cs where c: "to_string n = c # cs"
    using to_string_nonempty [of n] by (cases "to_string n") auto
  then have "isdigit c"
    using hd_to_string_digit [of n] by simp
  then show ?thesis
    by (simp add: c)
qed

lemma quote_not_in_digits: "quote_char \<notin> set (to_string n)"
proof -
  have "\<not> isdigit quote_char"
    by code_simp
  then show ?thesis
    using to_string_isdigit by blast
qed

lemma property_after:
  assumes "find_str ([quote_char] @ name @ [quote_char]) (pre @ ([quote_char] @ name @ [quote_char]) @ CHR '':'' # rest) =
    Some (length pre)"
  shows "property_text (pre @ q name @ CHR '':'' # rest) name = Some (dropWhile isspace rest)"
proof -
  have "q name = [quote_char] @ name @ [quote_char]"
    by (simp add: q_def)
  moreover have "drop (length pre + length (q name)) (pre @ q name @ CHR '':'' # rest) = CHR '':'' # rest"
    by simp
  ultimately show ?thesis
    using assms unfolding property_text_def Let_def by simp
qed

lemma body_properties:
  "property_text (producer_body a b p) ''interval_milliseconds'' = Some (to_string a @ '','' @ q ''count'' @ '':'' @
     to_string b @ '','' @ q ''payload_prefix'' @ '':'' @ q (jsonEscape p) @ ''}'')" (is ?interval)
  "property_text (producer_body a b p) ''count'' =
     Some (to_string b @ '','' @ q ''payload_prefix'' @ '':'' @ q (jsonEscape p) @ ''}'')" (is ?count)
  "property_text (producer_body a b p) ''payload_prefix'' = Some (q (jsonEscape p) @ ''}'')" (is ?prefix)
proof -
  let ?final = "q ''payload_prefix'' @ '':'' @ q (jsonEscape p) @ ''}''"
  let ?pre1 = "''{'' @ q ''interval_milliseconds'' @ '':'' @ to_string a @ '',''"
  let ?pre2 = "?pre1 @ q ''count'' @ '':'' @ to_string b @ '',''"
  have digits: "CHR 0x22 \<notin> set (to_string n)" for n
    using quote_not_in_digits [of n] by (simp add: quote_char_def)
  have space: "\<not> isspace (CHR 0x22)"
    by code_simp
  have "producer_body a b p = ''{'' @ q ''interval_milliseconds'' @ CHR '':'' # to_string a @ '','' @ q ''count'' @ '':'' @
      to_string b @ '','' @ ?final"
    by (simp add: producer_body_def)
  moreover have "property_text (''{'' @ q ''interval_milliseconds'' @ CHR '':'' # to_string a @ '','' @ q ''count'' @ '':'' @
      to_string b @ '','' @ ?final) ''interval_milliseconds'' =
    Some (dropWhile isspace (to_string a @ '','' @ q ''count'' @ '':'' @ to_string b @ '','' @ ?final))"
    by (rule property_after) (simp add: quote_char_def)
  ultimately show ?interval
    by (simp only: dropWhile_space_digits)
  have "producer_body a b p = ?pre1 @ q ''count'' @ CHR '':'' # to_string b @ '','' @ ?final"
    by (simp add: producer_body_def)
  moreover have "property_text (?pre1 @ q ''count'' @ CHR '':'' # to_string b @ '','' @ ?final) ''count'' =
      Some (dropWhile isspace (to_string b @ '','' @ ?final))"
    by (rule property_after) (simp add: quote_char_def q_def find_str_skip digits)
  ultimately show ?count
    by (simp only: dropWhile_space_digits)
  have "producer_body a b p = ?pre2 @ q ''payload_prefix'' @ CHR '':'' # q (jsonEscape p) @ ''}''"
    by (simp add: producer_body_def)
  moreover have "property_text (?pre2 @ q ''payload_prefix'' @ CHR '':'' # q (jsonEscape p) @ ''}'') ''payload_prefix'' =
      Some (dropWhile isspace (q (jsonEscape p) @ ''}''))"
    by (rule property_after) (simp add: quote_char_def q_def find_str_skip digits)
  ultimately show ?prefix
    using space by (simp add: q_def quote_char_def)
qed

text \<open>
  The options a body asks for. A number that does not fit into 64 bits counts as missing.
\<close>

definition expected_options :: "nat \<Rightarrow> nat \<Rightarrow> string \<Rightarrow> string + producer_options" where
  "expected_options a b p =
     (if a = 0 \<or> (4294967295 < a \<and> a < 2 ^ 64) then Inl ''interval_milliseconds must be between 1 and 4294967295''
      else if b = 0 then Inl ''count must be a positive integer''
      else Inr \<lparr>interval_ms = (if a < 2 ^ 64 then of_nat a else 1000), send_count = (if b < 2 ^ 64 then of_nat b else 0),
        payload_prefix = p\<rparr>)"

lemma request_options_body:
  assumes "list_all readable p"
  shows "request_options (producer_body a b p) = expected_options a b p"
proof -
  have comma: "\<not> isdigit (CHR '','')"
    by code_simp
  have a: "jsonUnsignedProperty (producer_body a b p) ''interval_milliseconds'' = (if a < 2 ^ 64 then Some a else None)"
    using from_chars_junk [of "'','' @ q ''count'' @ '':'' @ to_string b @ '','' @ q ''payload_prefix'' @ '':'' @
        q (jsonEscape p) @ ''}''" 64 a] comma
    by (simp add: jsonUnsignedProperty_def body_properties)
  have b: "jsonUnsignedProperty (producer_body a b p) ''count'' = (if b < 2 ^ 64 then Some b else None)"
    using from_chars_junk [of "'','' @ q ''payload_prefix'' @ '':'' @ q (jsonEscape p) @ ''}''" 64 b] comma
    by (simp add: jsonUnsignedProperty_def body_properties)
  have p: "jsonStringProperty (producer_body a b p) ''payload_prefix'' = Some p"
    using unescape_escaped [of "[]" p "''}''"] assms
    by (simp add: jsonStringProperty_def body_properties q_def)
  show ?thesis
    by (simp add: request_options_def interval_option_def count_option_def prefix_option_def a b p
        expected_options_def default_options_def)
qed

lemma splitPath_slash: "splitPath (CHR ''/'' # rest) = splitPath rest"
  by (subst splitPath.simps) simp

lemma splitPath_part:
  assumes "CHR ''/'' \<notin> set part" and "part \<noteq> []"
  shows "splitPath (part @ CHR ''/'' # rest) = part # splitPath rest"
proof -
  have "find_char (CHR ''/'') (part @ CHR ''/'' # rest) = Some (length part)"
    using assms(1) by simp
  then show ?thesis
    using assms(2) by (subst splitPath.simps) simp
qed

lemma splitPath_last: "CHR ''/'' \<notin> set part \<Longrightarrow> part \<noteq> [] \<Longrightarrow> splitPath part = [part]"
  by (subst splitPath.simps) (simp flip: find_char_None)

lemma producer_start_path: "producerActionPath al ''start'' = ''/api/v1/tunnels/'' @ al @ ''/producer/start''"
  by (simp add: producerActionPath_def kTunnelsPath_def)

lemma producer_path:
  assumes "CHR ''/'' \<notin> set al" and "al \<noteq> []"
  shows "splitPath (producerActionPath al ''start'') =
    [''api'', ''v1'', ''tunnels'', al, ''producer'', ''start'']"
proof -
  have path: "producerActionPath al ''start'' = CHR ''/'' # ''api'' @ CHR ''/'' # ''v1'' @ CHR ''/'' # ''tunnels'' @
      CHR ''/'' # al @ CHR ''/'' # ''producer'' @ CHR ''/'' # ''start''"
    by (simp add: producer_start_path)
  show ?thesis
    unfolding path using assms by (simp add: splitPath_slash splitPath_part splitPath_last del: append_Cons)
qed

text \<open>
  Starting a producer over the API, with the body that the documentation gives: an interval of zero or of
  more than 32 bits, or a count of zero, is refused before anything is started; otherwise the runtime is
  asked once, for exactly this tunnel and these options, and the status is 202 when it starts and 400 with its
  message when it throws. (A number beyond 64 bits is treated as if it were not there.)
\<close>

theorem start_producer_request:
  assumes "CHR ''/'' \<notin> set al" and "CHR ''?'' \<notin> set al" and "al \<noteq> []" and "list_all readable p"
    and "req_method request = ''POST''" and "req_target request = producerActionPath al ''start''"
    and "req_body request = producer_body a b p"
  shows "handle_request env request svc fs =
    (case expected_options a b p of
       Inl message \<Rightarrow> (Json_reply 400 (errorJson ''invalid_request'' message), [], svc, fs)
     | Inr opts \<Rightarrow>
         (case env_runtime env (Start_producer al opts) of
            None \<Rightarrow> (Json_reply 202 (''{'' @ q ''accepted'' @ '':true}''), [Start_producer al opts], svc, fs)
          | Some message \<Rightarrow>
              (Json_reply 400 (errorJson ''invalid_request'' message), [Start_producer al opts], svc, fs)))"
proof -
  let ?path = "producerActionPath al ''start''"
  have path: "request_path request = ?path"
    using assms(2,6) by (auto simp: request_path_def takeWhile_eq_all_conv producer_start_path)
  have "routes env request svc fs = tunnel_routes env request (splitPath ?path) svc fs"
    using assms(5) by (simp add: routes_def upgrade_wanted_def path producer_start_path)
  also have "\<dots> = perform_call env svc fs (producer_action al ''start'' (producer_body a b p))"
    unfolding producer_path [OF assms(1,3)] using assms(5,7) by (simp add: tunnel_routes_def)
  also have "producer_action al ''start'' (producer_body a b p) =
      and_then (expected_options a b p) (\<lambda>opts. Inr (Start_producer al opts))"
    by (simp add: producer_action_def request_options_body [OF assms(4)])
  finally show ?thesis
    by (cases "expected_options a b p") (auto simp: handle_request_def perform_call_def split: option.split)
qed

end
