(* ===== verification/Json_Reader.thy ===== *)
theory Json_Reader
  imports Json_Text
begin

text \<open>
  A reader of JSON texts after RFC 8259, as a client of the control server uses one, and what it makes of the
  messages of \<open>src/src/control/LocalControlServer.cpp\<close>. The reader is a reference definition: it takes texts
  without white space between tokens, a byte at a time, and keeps numbers as their text.
\<close>

section \<open>The reader\<close>

datatype json =
    J_null
  | J_true
  | J_number string
  | J_string string
  | J_array "json list"
  | J_object "(string \<times> json) list"

definition hex_value :: "char \<Rightarrow> nat option" where
  "hex_value c =
     (let n = char_code c
      in if 48 \<le> n \<and> n \<le> 57 then Some (n - 48)
         else if 97 \<le> n \<and> n \<le> 102 then Some (n - 87)
         else if 65 \<le> n \<and> n \<le> 70 then Some (n - 55) else None)"

text \<open>The characters of a string up to the quote that closes it; \<open>\u\<close> escapes up to 255.\<close>

fun read_string :: "string \<Rightarrow> (string \<times> string) option" where
  "read_string [] = None"
| "read_string (c # cs) =
     (if c = quote_char then Some ([], cs)
      else if c = backslash then
        (case cs of
           [] \<Rightarrow> None
         | e # cs' \<Rightarrow>
             if e = CHR ''u'' then
               (case cs' of
                  c1 # c2 # c3 # c4 # cs'' \<Rightarrow>
                    (case (c1 = CHR ''0'' \<and> c2 = CHR ''0'', hex_value c3, hex_value c4) of
                       (True, Some a, Some b) \<Rightarrow> map_option (map_prod ((#) (char_of (16 * a + b))) id) (read_string cs'')
                     | _ \<Rightarrow> None)
                | _ \<Rightarrow> None)
             else
               (case simple_escape e of
                  None \<Rightarrow> None
                | Some d \<Rightarrow> map_option (map_prod ((#) d) id) (read_string cs')))
      else if char_code c < 32 then None
      else map_option (map_prod ((#) c) id) (read_string cs))"

definition digits :: "string \<Rightarrow> bool" where
  "digits s \<longleftrightarrow> s \<noteq> [] \<and> list_all isdigit s"

definition exponent_part :: "string \<Rightarrow> bool" where
  "exponent_part s \<longleftrightarrow>
     (case s of
        [] \<Rightarrow> True
      | c # r \<Rightarrow> c \<in> {CHR ''e'', CHR ''E''} \<and>
          digits (case r of [] \<Rightarrow> [] | d # r' \<Rightarrow> if d \<in> {CHR ''+'', CHR ''-''} then r' else r))"

definition fraction_part :: "string \<Rightarrow> bool" where
  "fraction_part s \<longleftrightarrow>
     (case s of
        [] \<Rightarrow> True
      | c # r \<Rightarrow>
          if c = CHR ''.'' then takeWhile isdigit r \<noteq> [] \<and> exponent_part (dropWhile isdigit r) else exponent_part s)"

definition number_text :: "string \<Rightarrow> bool" where
  "number_text s \<longleftrightarrow>
     (let s = (case s of [] \<Rightarrow> [] | c # r \<Rightarrow> if c = CHR ''-'' then r else s); whole = takeWhile isdigit s
      in (whole = ''0'' \<or> whole \<noteq> [] \<and> hd whole \<noteq> CHR ''0'') \<and> fraction_part (dropWhile isdigit s))"

definition number_char :: "char \<Rightarrow> bool" where
  "number_char c \<longleftrightarrow> isdigit c \<or> c \<in> {CHR ''+'', CHR ''-'', CHR ''.'', CHR ''e'', CHR ''E''}"

definition after :: "string \<Rightarrow> string \<Rightarrow> string option" where
  "after token s = (if take (length token) s = token then Some (drop (length token) s) else None)"

text \<open>The first argument bounds the depth of the recursion; the length of the text is always enough.\<close>

fun read_value :: "nat \<Rightarrow> string \<Rightarrow> (json \<times> string) option" and
  read_elements :: "nat \<Rightarrow> string \<Rightarrow> (json list \<times> string) option" and
  read_members :: "nat \<Rightarrow> string \<Rightarrow> ((string \<times> json) list \<times> string) option" where
  "read_value 0 s = None"
| "read_value (Suc n) s =
     (case s of
        [] \<Rightarrow> None
      | c # cs \<Rightarrow>
          if c = quote_char then map_option (map_prod J_string id) (read_string cs)
          else if c = CHR ''['' then
            (case after '']'' cs of
               Some r \<Rightarrow> Some (J_array [], r)
             | None \<Rightarrow> map_option (map_prod J_array id) (read_elements n cs))
          else if c = CHR ''{'' then
            (case after ''}'' cs of
               Some r \<Rightarrow> Some (J_object [], r)
             | None \<Rightarrow> map_option (map_prod J_object id) (read_members n cs))
          else if c = CHR ''n'' then map_option (\<lambda>r. (J_null, r)) (after ''null'' s)
          else if c = CHR ''t'' then map_option (\<lambda>r. (J_true, r)) (after ''true'' s)
          else
            (let text = takeWhile number_char s
             in if number_text text then Some (J_number text, dropWhile number_char s) else None))"
| "read_elements 0 s = None"
| "read_elements (Suc n) s =
     (case read_value n s of
        None \<Rightarrow> None
      | Some (v, r) \<Rightarrow>
          (case r of
             [] \<Rightarrow> None
           | c # r \<Rightarrow>
               if c = CHR '','' then map_option (map_prod ((#) v) id) (read_elements n r)
               else if c = CHR '']'' then Some ([v], r) else None))"
| "read_members 0 s = None"
| "read_members (Suc n) s =
     (case s of
        [] \<Rightarrow> None
      | c # s \<Rightarrow>
          if c \<noteq> quote_char then None
          else
            (case read_string s of
               None \<Rightarrow> None
             | Some (k, r) \<Rightarrow>
                 (case after '':'' r of
                    None \<Rightarrow> None
                  | Some r \<Rightarrow>
                      (case read_value n r of
                         None \<Rightarrow> None
                       | Some (v, r) \<Rightarrow>
                           (case r of
                              [] \<Rightarrow> None
                            | c # r \<Rightarrow>
                                if c = CHR '','' then map_option (map_prod ((#) (k, v)) id) (read_members n r)
                                else if c = CHR ''}'' then Some ([(k, v)], r) else None)))))"

definition read_json :: "string \<Rightarrow> json option" where
  "read_json s = (case read_value (Suc (length s)) s of Some (j, []) \<Rightarrow> Some j | _ \<Rightarrow> None)"

section \<open>Printed values are read back\<close>

text \<open>
  The text of a value the way the server writes it, for values whose keys need no escape and whose numbers
  are numbers.
\<close>

primrec show_json :: "json \<Rightarrow> string" where
  "show_json J_null = ''null''"
| "show_json J_true = ''true''"
| "show_json (J_number s) = s"
| "show_json (J_string s) = q (jsonEscape s)"
| "show_json (J_array js) = ''['' @ commas (map show_json js) @ '']''"
| "show_json (J_object ms) = ''{'' @ commas (map (\<lambda>(k, s). q k @ '':'' @ s) (map (map_prod id show_json) ms)) @ ''}''"

definition literal_key :: "string \<Rightarrow> bool" where
  "literal_key k \<longleftrightarrow> list_all (\<lambda>c. 32 \<le> char_code c \<and> c \<noteq> quote_char \<and> c \<noteq> backslash) k"

primrec ok_json :: "json \<Rightarrow> bool" where
  "ok_json J_null = True"
| "ok_json J_true = True"
| "ok_json (J_number s) = (number_text s \<and> list_all number_char s)"
| "ok_json (J_string s) = True"
| "ok_json (J_array js) = list_all id (map ok_json js)"
| "ok_json (J_object ms) = list_all (\<lambda>(k, b). literal_key k \<and> b) (map (map_prod id ok_json) ms)"

lemma hex_value_digit: "d < 16 \<Longrightarrow> hex_value (hex_digit d) = Some d"
  by (simp add: hex_value_def hex_digit_def Let_def char_code_def)

lemma read_string_other:
  assumes "char_code c < 32" and "c \<notin> {CHR 0x08, CHR 0x0C, CHR 0x0A, CHR 0x0D, CHR 0x09}"
  shows "read_string (json_char c @ rest) = map_option (map_prod ((#) c) id) (read_string rest)"
proof -
  let ?n = "char_code c"
  have zero: "hex_digit 0 = CHR ''0''" "char_code quote_char = 34" "char_code backslash = 92"
    by code_simp+
  then have "c \<noteq> quote_char" "c \<noteq> backslash"
    using assms(1) by auto
  then have "json_char c = [backslash, CHR ''u''] @ hex4 ?n"
    using assms by (simp add: json_char_def)
  also have "hex4 ?n = [CHR ''0'', CHR ''0'', hex_digit (?n div 16), hex_digit (?n mod 16)]"
    using zero(1) by (cases "?n < 16") (simp_all add: hex4_def pad_left_def numeral_2_eq_2 numeral_3_eq_3)
  finally have "json_char c = [backslash, CHR ''u'', CHR ''0'', CHR ''0'', hex_digit (?n div 16), hex_digit (?n mod 16)]"
    by simp
  moreover have "hex_value (hex_digit (?n div 16)) = Some (?n div 16)" "hex_value (hex_digit (?n mod 16)) = Some (?n mod 16)"
    using assms(1) by (simp_all add: hex_value_digit div_less_iff_less_mult)
  moreover have "char_of (16 * (?n div 16) + ?n mod 16) = c"
    by (simp add: char_code_def)
  ultimately show ?thesis
    by (simp add: char_names)
qed

lemma read_string_char: "read_string (json_char c @ rest) = map_option (map_prod ((#) c) id) (read_string rest)"
proof (cases "c \<in> {quote_char, backslash, CHR 0x08, CHR 0x0C, CHR 0x0A, CHR 0x0D, CHR 0x09}")
  case True
  then show ?thesis
    by (elim insertE emptyE) (simp_all add: json_char_def simple_escape_def char_names)
next
  case False
  show ?thesis
  proof (cases "char_code c < 32")
    case True
    with False show ?thesis
      by (intro read_string_other) simp_all
  next
    case large: False
    with False have "json_char c = [c]"
      by (simp add: json_char_def)
    with False large show ?thesis
      by simp
  qed
qed

lemma read_string_escaped: "read_string (jsonEscape s @ quote_char # rest) = Some (s, rest)"
proof (induction s)
  case (Cons c s)
  have "jsonEscape (c # s) = json_char c @ jsonEscape s"
    by (simp add: jsonEscape_def)
  with Cons show ?case
    by (simp add: read_string_char)
qed (simp add: jsonEscape_def)

lemma read_string_plain: "literal_key k \<Longrightarrow> read_string (k @ quote_char # rest) = Some (k, rest)"
  by (induction k) (auto simp: literal_key_def)

text \<open>What may follow a value.\<close>

definition ends :: "string \<Rightarrow> bool" where
  "ends s \<longleftrightarrow> s = [] \<or> hd s \<in> {CHR '','', CHR '']'', CHR ''}''}"

lemma takeWhile_number:
  assumes "list_all number_char s" and "ends rest"
  shows "takeWhile number_char (s @ rest) = s \<and> dropWhile number_char (s @ rest) = rest"
proof -
  have "\<not> number_char c" if "c \<in> {CHR '','', CHR '']'', CHR ''}''}" for c
    using that by (elim insertE emptyE; simp only:; code_simp)
  then have "rest = [] \<or> \<not> number_char (hd rest)"
    using assms(2) by (auto simp: ends_def)
  moreover have "\<forall>c \<in> set s. number_char c"
    using assms(1) by (simp add: list_all_iff)
  ultimately show ?thesis
    by (cases rest) (auto simp: takeWhile_append2 dropWhile_append2)
qed

lemma number_start:
  assumes "number_text s"
  shows "\<exists>c cs. s = c # cs \<and> (c = CHR ''-'' \<or> isdigit c)"
  using assms by (cases s) (auto simp: number_text_def Let_def split: if_splits)

lemma number_start_other:
  assumes "c = CHR ''-'' \<or> isdigit c"
  shows "c \<noteq> quote_char \<and> c \<notin> {CHR ''['', CHR ''{'', CHR ''n'', CHR ''t'', CHR '','', CHR '']'', CHR ''}''}"
  using assms by (auto simp: quote_char_def isdigit_def char_code_def)

lemma show_json_start:
  assumes "ok_json j"
  shows "\<exists>c cs. show_json j = c # cs \<and> c \<notin> {CHR '','', CHR '']'', CHR ''}''}"
proof (cases j)
  case (J_number s)
  with assms show ?thesis
    using number_start number_start_other by fastforce
qed (auto simp: q_def quote_char_def)

lemma commas_Cons: "xs \<noteq> [] \<Longrightarrow> commas (x # xs) = x @ '','' @ commas xs"
  by (cases xs) auto

definition reads_back :: "json \<Rightarrow> bool" where
  "reads_back j \<longleftrightarrow> (\<forall>n rest. ends rest \<longrightarrow> length (show_json j) \<le> n \<longrightarrow> read_value n (show_json j @ rest) = Some (j, rest))"

lemma reads_backD:
  "reads_back j \<Longrightarrow> ends rest \<Longrightarrow> length (show_json j) \<le> n \<Longrightarrow> read_value n (show_json j @ rest) = Some (j, rest)"
  by (simp add: reads_back_def)

lemma ends_simps [simp]: "ends (CHR '','' # s)" "ends (CHR '']'' # s)" "ends (CHR ''}'' # s)" "ends []"
  by (simp_all add: ends_def)

lemma read_elements_shown:
  assumes "js \<noteq> []" and "list_all reads_back js"
    and "length (commas (map show_json js)) < n"
  shows "read_elements n (commas (map show_json js) @ CHR '']'' # rest) = Some (js, rest)"
  using assms
proof (induction js arbitrary: n)
  case (Cons j js)
  then obtain m where n: "n = Suc m"
    by (cases n) auto
  show ?case
  proof (cases "js = []")
    case True
    with Cons.prems n show ?thesis
      by (simp add: reads_backD)
  next
    case False
    have shown: "commas (map show_json (j # js)) = show_json j @ '','' @ commas (map show_json js)"
      using False by (simp add: commas_Cons)
    have "read_elements m (commas (map show_json js) @ CHR '']'' # rest) = Some (js, rest)"
      using Cons.prems n False shown by (intro Cons.IH) auto
    moreover have "read_value m (show_json j @ CHR '','' # commas (map show_json js) @ CHR '']'' # rest) =
        Some (j, CHR '','' # commas (map show_json js) @ CHR '']'' # rest)"
      using Cons.prems n shown by (intro reads_backD) auto
    ultimately show ?thesis
      unfolding shown n by simp
  qed
qed simp

definition show_member :: "string \<times> json \<Rightarrow> string" where
  "show_member m = q (fst m) @ '':'' @ show_json (snd m)"

lemma read_members_shown:
  assumes "ms \<noteq> []" and "list_all (\<lambda>m. literal_key (fst m) \<and> reads_back (snd m)) ms"
    and "length (commas (map show_member ms)) < n"
  shows "read_members n (commas (map show_member ms) @ CHR ''}'' # rest) = Some (ms, rest)"
  using assms
proof (induction ms arbitrary: n)
  case (Cons m ms)
  obtain k v where m: "m = (k, v)"
    by fastforce
  obtain n' where n: "n = Suc n'"
    using Cons.prems(3) by (cases n) auto
  have member: "show_member m @ s = quote_char # k @ quote_char # CHR '':'' # show_json v @ s" for s
    by (simp add: show_member_def m q_def)
  have key: "read_string (k @ quote_char # s) = Some (k, s)" for s
    using Cons.prems(2) by (simp add: m read_string_plain)
  have colon: "after '':'' (CHR '':'' # s) = Some s" for s
    by (simp add: after_def)
  show ?case
  proof (cases "ms = []")
    case True
    have "read_value n' (show_json v @ CHR ''}'' # rest) = Some (v, CHR ''}'' # rest)"
      using Cons.prems(2,3) True n by (intro reads_backD) (simp_all add: m show_member_def q_def)
    then show ?thesis
      using True n member by (simp add: key colon m)
  next
    case False
    let ?rest = "commas (map show_member ms) @ CHR ''}'' # rest"
    have shown: "commas (map show_member (m # ms)) = show_member m @ '','' @ commas (map show_member ms)"
      using False by (simp add: commas_Cons)
    have "read_members n' ?rest = Some (ms, rest)"
      using Cons.prems n False shown by (intro Cons.IH) auto
    moreover have "read_value n' (show_json v @ CHR '','' # ?rest) = Some (v, CHR '','' # ?rest)"
      using Cons.prems(2) Cons.prems(3) [unfolded shown n] by (intro reads_backD) (simp_all add: m show_member_def)
    ultimately show ?thesis
      unfolding shown n using member by (simp add: key colon m)
  qed
qed simp

lemma show_object: "show_json (J_object ms) = ''{'' @ commas (map show_member ms) @ ''}''"
proof -
  have "(\<lambda>(k, s). q k @ '':'' @ s) \<circ> map_prod id show_json = show_member"
    by (simp add: fun_eq_iff show_member_def case_prod_beta)
  then show ?thesis
    by (simp only: show_json.simps map_map)
qed

lemma read_value_shown:
  "ok_json j \<Longrightarrow> ends rest \<Longrightarrow> length (show_json j) \<le> n \<Longrightarrow> read_value n (show_json j @ rest) = Some (j, rest)"
proof (induction j arbitrary: n rest)
  case J_null
  then show ?case
    by (cases n) (simp_all add: after_def quote_char_def)
next
  case J_true
  then show ?case
    by (cases n) (simp_all add: after_def quote_char_def)
next
  case (J_number s)
  then obtain c cs where c: "s = c # cs" "c = CHR ''-'' \<or> isdigit c"
    using number_start [of s] by auto
  with J_number takeWhile_number [of s rest] number_start_other [OF c(2)] show ?case
    by (cases n) (auto simp: Let_def)
next
  case (J_string s)
  then show ?case
    by (cases n) (simp_all add: q_def read_string_escaped)
next
  case (J_array js)
  then obtain m where n: "n = Suc m" "length (commas (map show_json js)) < m"
    by (cases n) auto
  show ?case
  proof (cases "js = []")
    case True
    then show ?thesis
      by (simp add: n after_def quote_char_def)
  next
    case False
    then obtain j js' where js: "js = j # js'"
      by (cases js) auto
    then obtain c cs where c: "show_json j = c # cs" "c \<noteq> CHR '']''"
      using show_json_start [of j] J_array.prems(1) by auto
    obtain r where r: "commas (map show_json js) @ CHR '']'' # rest = c # r"
      using c js by (cases js') auto
    have "read_elements m (commas (map show_json js) @ CHR '']'' # rest) = Some (js, rest)"
      using J_array False n by (intro read_elements_shown) (auto simp: list_all_iff reads_back_def)
    moreover have "after '']'' (commas (map show_json js) @ CHR '']'' # rest) = None"
      using c by (simp add: after_def r)
    ultimately show ?thesis
      by (simp add: n quote_char_def)
  qed
next
  case (J_object ms)
  then have "length (show_json (J_object ms)) \<le> n" "0 < n"
    by simp_all
  then obtain m where n: "n = Suc m" "length (commas (map show_member ms)) < m"
    unfolding show_object by (cases n) auto
  show ?case
  proof (cases "ms = []")
    case True
    then show ?thesis
      by (simp add: n after_def quote_char_def)
  next
    case False
    then obtain mem ms' where ms: "ms = mem # ms'"
      by (cases ms) auto
    obtain r where r: "commas (map show_member ms) @ CHR ''}'' # rest = quote_char # r"
      using ms by (cases ms') (auto simp: show_member_def q_def)
    have "literal_key (fst mem) \<and> reads_back (snd mem)" if "mem \<in> set ms" for mem
      using that J_object.prems(1) J_object.IH [OF that]
      by (fastforce simp: list_all_iff reads_back_def snds.simps case_prod_beta)
    then have "list_all (\<lambda>m. literal_key (fst m) \<and> reads_back (snd m)) ms"
      by (simp add: list_all_iff)
    then have "read_members m (commas (map show_member ms) @ CHR ''}'' # rest) = Some (ms, rest)"
      using False n(2) by (intro read_members_shown)
    moreover have "after ''}'' (commas (map show_member ms) @ CHR ''}'' # rest) = None"
      by (simp add: after_def r quote_char_def)
    ultimately show ?thesis
      unfolding show_object by (simp add: n(1) quote_char_def)
  qed
qed

theorem read_json_shown: "ok_json j \<Longrightarrow> read_json (show_json j) = Some j"
  using read_value_shown [of j "[]" "Suc (length (show_json j))"] by (simp add: read_json_def ends_def)

end
