(* ===== verification/Json_Messages.thy ===== *)
theory Json_Messages
  imports Json_Reader
begin

text \<open>
  What the messages of \<open>src/src/control/LocalControlServer.cpp\<close> mean: the value that each message shows, and
  that the reader finds it.
\<close>

section \<open>Numbers\<close>

lemma isdigit_number_char [simp]: "isdigit c \<Longrightarrow> number_char c"
  by (simp add: number_char_def)

lemma to_string_digits_all: "list_all isdigit (to_string n)" "digits (to_string n)"
  using to_string_isdigit [of _ n] to_string_nonempty [of n] by (auto simp: list_all_iff digits_def)

lemma hd_to_string: "to_string n = ''0'' \<or> hd (to_string n) \<noteq> CHR ''0''"
proof (induction n rule: to_string.induct)
  case (1 n)
  show ?case
  proof (cases "n < 10")
    case True
    then have "to_string n = [digit_char n]"
      by (subst to_string.simps) simp
    moreover have "n \<in> {0, 1, 2, 3, 4, 5, 6, 7, 8, 9}"
      using True by auto
    ultimately show ?thesis
      by (elim insertE emptyE) (simp_all add: digit_char_simps)
  next
    case False
    have "to_string (n div 10) \<noteq> ''0''"
    proof
      assume "to_string (n div 10) = ''0''"
      also have "''0'' = to_string 0"
        by (subst to_string.simps) (simp add: digit_char_simps)
      finally show False
        using False by simp
    qed
    then have "hd (to_string (n div 10)) \<noteq> CHR ''0''"
      using 1 False by simp
    moreover have "hd (to_string n) = hd (to_string (n div 10))"
      using False to_string_nonempty [of "n div 10"] by (subst to_string.simps) simp
    ultimately show ?thesis
      by simp
  qed
qed

text \<open>The parts of a decimal number: digits, a fraction, an exponent.\<close>

lemma span_digits:
  assumes "list_all isdigit ds" and "r = [] \<or> \<not> isdigit (hd r)"
  shows "takeWhile isdigit (ds @ r) = ds" "dropWhile isdigit (ds @ r) = r"
  using assms by (induction ds) (cases r; simp)+

lemma exponent_shown:
  assumes "digits ds"
  shows "exponent_part (''e+'' @ ds)" "exponent_part (''e-'' @ ds)"
  using assms by (simp_all add: exponent_part_def)

lemma fraction_shown:
  assumes "list_all isdigit ds" and "ds \<noteq> []" and "exponent_part r" and "r = [] \<or> \<not> isdigit (hd r)"
  shows "fraction_part (CHR ''.'' # ds @ r)"
  using assms by (simp add: fraction_part_def span_digits)

lemma fraction_of_exponent:
  assumes "exponent_part r"
  shows "fraction_part r"
  using assms by (cases r) (auto simp: fraction_part_def exponent_part_def)

lemma not_digit_start: "\<not> isdigit (CHR ''.'')" "\<not> isdigit (CHR ''e'')" "\<not> isdigit (CHR ''-'')"
  by code_simp+

definition whole_part :: "string \<Rightarrow> bool" where
  "whole_part ds \<longleftrightarrow> digits ds \<and> (ds = ''0'' \<or> hd ds \<noteq> CHR ''0'')"

lemma number_shown:
  assumes "whole_part ds" and "fraction_part r" and "r = [] \<or> \<not> isdigit (hd r)"
  shows "number_text (ds @ r)"
proof -
  obtain c cs where c: "ds = c # cs" "isdigit c"
    using assms(1) by (cases ds) (auto simp: whole_part_def digits_def)
  then have "c \<noteq> CHR ''-''"
    using not_digit_start(3) by auto
  moreover have "takeWhile isdigit (ds @ r) = ds" "dropWhile isdigit (ds @ r) = r"
    using assms by (simp_all add: span_digits whole_part_def digits_def)
  ultimately show ?thesis
    using assms c(1) by (auto simp: number_text_def whole_part_def digits_def Let_def)
qed

lemma whole_to_string: "whole_part (to_string n)"
  using to_string_digits_all(2) hd_to_string by (auto simp: whole_part_def)

lemma whole_take: "whole_part ds \<Longrightarrow> whole_part (take (Suc k) ds)"
  by (cases ds) (auto simp: whole_part_def digits_def list_all_iff dest: in_set_takeD)

lemma strip_zeros_digits: "list_all isdigit ds \<Longrightarrow> list_all isdigit (strip_zeros ds)"
  by (auto simp: strip_zeros_def list_all_iff dest: set_dropWhileD)

definition json_number :: "string \<Rightarrow> bool" where
  "json_number s \<longleftrightarrow> number_text s \<and> list_all number_char s"

lemma number_char_digits: "list_all isdigit ds \<Longrightarrow> list_all number_char ds"
  by (auto simp: list_all_iff)

lemma number_char_signs: "number_char (CHR ''.'')" "number_char (CHR ''e'')" "number_char (CHR ''+'')" "number_char (CHR ''-'')"
  by (simp_all add: number_char_def)

lemma with_fraction_shown:
  assumes "whole_part whole" and "list_all isdigit fraction" and "exponent_part r" and "r = [] \<or> \<not> isdigit (hd r)"
    and "list_all number_char r"
  shows "json_number (with_fraction whole fraction @ r)"
proof (cases "strip_zeros fraction = []")
  case True
  then show ?thesis
    using assms number_shown [of whole r] fraction_of_exponent
    by (auto simp: json_number_def with_fraction_def whole_part_def digits_def number_char_digits)
next
  case False
  let ?f = "strip_zeros fraction"
  have "list_all isdigit ?f"
    using assms(2) by (rule strip_zeros_digits)
  then have "number_text (whole @ CHR ''.'' # ?f @ r)"
    using assms False by (intro number_shown) (simp_all add: fraction_shown not_digit_start)
  then show ?thesis
    using assms False \<open>list_all isdigit ?f\<close>
    by (simp add: json_number_def with_fraction_def whole_part_def digits_def number_char_digits number_char_signs)
qed

lemma show_double_number: "json_number (show_double x)"
proof (cases "x = 0")
  case True
  have "json_number ''0''"
    by code_simp
  with True show ?thesis
    by (simp add: show_double_def)
next
  case False
  obtain m e where me: "six_digits x = (m, e)"
    by fastforce
  let ?ds = "to_string m" and ?sign = "if e < 0 then ''-'' else ''+''"
    and ?exp = "pad_left (CHR ''0'') 2 (to_string (nat \<bar>e\<bar>))"
  have zero: "isdigit (CHR ''0'')"
    by code_simp
  have ds: "whole_part (take (Suc k) ?ds)" "list_all isdigit (drop k ?ds)" for k
    using to_string_digits_all(1) [of m] by (simp_all add: whole_take whole_to_string list_all_iff in_set_dropD)
  have exp: "digits ?exp"
    using to_string_digits_all [of "nat \<bar>e\<bar>"] zero by (auto simp: digits_def pad_left_def list_all_iff)
  consider (scientific) "e < -4 \<or> 6 \<le> e" | (large) "\<not> (e < -4 \<or> 6 \<le> e)" "0 \<le> e" | (small) "\<not> (e < -4 \<or> 6 \<le> e)" "e < 0"
    by linarith
  then show ?thesis
  proof cases
    case scientific
    have "json_number (with_fraction (take (Suc 0) ?ds) (drop 1 ?ds) @ ''e'' @ ?sign @ ?exp)"
    proof (rule with_fraction_shown)
      show "exponent_part (''e'' @ ?sign @ ?exp)"
        using exponent_shown [OF exp] by (cases "e < 0") (simp_all del: abs_of_neg abs_of_nonneg)
      show "list_all number_char (''e'' @ ?sign @ ?exp)"
        using exp by (simp add: number_char_signs digits_def number_char_digits)
    qed (use ds not_digit_start in auto)
    with scientific False show ?thesis
      by (cases "e < 0") (simp_all add: show_double_def me Let_def)
  next
    case large
    have "json_number (with_fraction (take (Suc (nat e)) ?ds) (drop (Suc (nat e)) ?ds) @ [])"
      by (rule with_fraction_shown) (use ds in \<open>auto simp: exponent_part_def\<close>)
    with large False show ?thesis
      by (simp add: show_double_def me Let_def)
  next
    case small
    have "list_all isdigit (replicate (nat (- e) - 1) (CHR ''0'') @ ?ds)"
      using to_string_digits_all(1) [of m] zero by (auto simp: list_all_iff)
    moreover have "whole_part ''0''"
      using zero by (simp add: whole_part_def digits_def)
    ultimately have "json_number (with_fraction ''0'' (replicate (nat (- e) - 1) (CHR ''0'') @ ?ds) @ [])"
      by (intro with_fraction_shown) (simp_all add: exponent_part_def)
    with small False show ?thesis
      by (simp add: show_double_def me Let_def)
  qed
qed

lemma to_string_number: "json_number (to_string n)"
  using number_shown [OF whole_to_string [of n], of "[]"] to_string_digits_all(1) [of n]
  by (simp add: json_number_def fraction_part_def number_char_digits)

lemma number_ok [simp]: "ok_json (J_number (to_string n))" "ok_json (J_number (show_double x))"
  using to_string_number [of n] show_double_number [of x] by (simp_all add: json_number_def)

section \<open>Values of the messages\<close>

definition latency_value :: "double option \<Rightarrow> json" where
  "latency_value v = (case v of None \<Rightarrow> J_null | Some x \<Rightarrow> J_number (show_double x))"

definition count_value :: "u64 \<Rightarrow> json" where
  "count_value n = J_number (to_string (unat n))"

definition datagram_value :: "datagram_detail \<Rightarrow> json" where
  "datagram_value d = J_object
     [(''timestamp_unix_milliseconds'', J_number (to_string (detail_time d))),
      (''bytes'', count_value (detail_bytes d)),
      (''latency_milliseconds'', latency_value (detail_latency d))]"

definition metrics_value :: "tunnel_metrics \<Rightarrow> json" where
  "metrics_value m = J_object
     [(''datagram_count'', count_value (datagrams m)),
      (''byte_count'', count_value (byte_total m)),
      (''throughput_bytes_per_second'', J_number (show_double (throughput m))),
      (''average_latency_milliseconds'', latency_value (average_ms m)),
      (''p50_latency_milliseconds'', latency_value (p50_ms m)),
      (''p99_latency_milliseconds'', latency_value (p99_ms m)),
      (''maximum_latency_milliseconds'', latency_value (maximum_ms m))]"

definition snapshot_value :: "tunnel_snapshot \<Rightarrow> json" where
  "snapshot_value s = J_object
     [(''alias'', J_string (snap_alias s)),
      (''kind'', J_string (kindName (snap_kind s))),
      (''state'', J_string (stateName (snap_state s))),
      (''detail'', J_string (snap_detail s)),
      (''metrics'', metrics_value (snap_metrics s)),
      (''recent_datagrams'', J_array (map datagram_value (snap_recent s)))]"

definition event_value :: "control_event \<Rightarrow> json" where
  "event_value e = J_object
     [(''api_version'', J_string ''v1''),
      (''event'', J_object
        ([(''kind'', J_string (eventKindName (event_kind_of e))),
          (''severity'', J_string (severityName (event_severity_of e))),
          (''timestamp_unix_milliseconds'', J_number (to_string (event_time e))),
          (''alias'', J_string (event_alias e)),
          (''message'', J_string (event_message e))] @
         (case event_snapshot e of None \<Rightarrow> [] | Some s \<Rightarrow> [(''snapshot'', snapshot_value s)])))]"

definition error_value :: "string \<Rightarrow> string \<Rightarrow> json" where
  "error_value code message =
     J_object [(''error'', J_object [(''code'', J_string code), (''message'', J_string message)])]"

lemmas value_defs = latency_value_def count_value_def datagram_value_def metrics_value_def snapshot_value_def
  event_value_def error_value_def

text \<open>Names need no escape.\<close>

lemma escape_literal: "literal_key s \<Longrightarrow> jsonEscape s = s"
proof (induction s)
  case (Cons c s)
  have "json_char c = [c]" if "32 \<le> char_code c" "c \<noteq> quote_char" "c \<noteq> backslash"
    using that by (auto simp: json_char_def char_code_def)
  with Cons show ?case
    by (simp add: jsonEscape_def literal_key_def)
qed (simp add: jsonEscape_def)

lemma stateName_literal: "literal_key (stateName s)"
  by (cases s; simp only:; code_simp)

lemma kindName_literal: "literal_key (kindName k)"
  by (cases k; simp only:; code_simp)

lemma eventKindName_literal: "literal_key (eventKindName k)"
  by (cases k; simp only:; code_simp)

lemma severityName_literal: "literal_key (severityName s)"
  by (cases s; simp only:; code_simp)

lemma version_literal: "literal_key ''v1''"
  by code_simp

lemmas name_escapes =
  stateName_literal [THEN escape_literal] kindName_literal [THEN escape_literal]
  eventKindName_literal [THEN escape_literal] severityName_literal [THEN escape_literal]
  version_literal [THEN escape_literal]

lemma latency_shown: "optionalNumber v = show_json (latency_value v)"
  by (simp add: optionalNumber_def latency_value_def split: option.split)

lemma datagramJson_shown: "datagramJson d = show_json (datagram_value d)"
  by (simp add: datagramJson_def datagram_value_def count_value_def latency_shown)

lemma snapshotJson_shown: "snapshotJson s = show_json (snapshot_value s)"
proof -
  have "datagramJson = show_json \<circ> datagram_value"
    by (simp add: fun_eq_iff datagramJson_shown)
  then show ?thesis
    by (simp add: snapshotJson_def snapshot_value_def metrics_value_def count_value_def latency_shown name_escapes Let_def)
qed

lemma eventJson_shown: "eventJson e = show_json (event_value e)"
  by (cases "event_snapshot e") (simp_all add: eventJson_def event_value_def snapshotJson_shown name_escapes)

lemma errorJson_shown: "literal_key code \<Longrightarrow> errorJson code message = show_json (error_value code message)"
  by (simp add: errorJson_def error_value_def escape_literal)

lemma keys_literal:
  "literal_key ''timestamp_unix_milliseconds''" "literal_key ''bytes''" "literal_key ''latency_milliseconds''"
  "literal_key ''datagram_count''" "literal_key ''byte_count''" "literal_key ''throughput_bytes_per_second''"
  "literal_key ''average_latency_milliseconds''" "literal_key ''p50_latency_milliseconds''"
  "literal_key ''p99_latency_milliseconds''" "literal_key ''maximum_latency_milliseconds''"
  "literal_key ''alias''" "literal_key ''kind''" "literal_key ''state''" "literal_key ''detail''" "literal_key ''metrics''"
  "literal_key ''recent_datagrams''" "literal_key ''api_version''" "literal_key ''event''" "literal_key ''severity''"
  "literal_key ''message''" "literal_key ''snapshot''" "literal_key ''error''" "literal_key ''code''"
  by code_simp+

lemma latency_ok [simp]: "ok_json (latency_value v)"
  by (cases v) (simp_all add: latency_value_def del: ok_json.simps(3))

lemma count_ok [simp]: "ok_json (count_value n)"
  by (simp add: count_value_def del: ok_json.simps(3))

lemma datagram_ok [simp]: "ok_json (datagram_value d)"
  by (simp add: datagram_value_def keys_literal del: ok_json.simps(3))

lemma snapshot_ok [simp]: "ok_json (snapshot_value s)"
  by (simp add: snapshot_value_def metrics_value_def keys_literal list_all_iff del: ok_json.simps(3))

lemma event_ok [simp]: "ok_json (event_value e)"
  by (cases "event_snapshot e") (simp_all add: event_value_def keys_literal del: ok_json.simps(3))

lemma error_ok [simp]: "ok_json (error_value code message)"
  by (simp add: error_value_def keys_literal)

text \<open>
  C19. Every message that goes to subscribers is well-formed: a reader that follows RFC 8259 accepts it and
  finds the event in it, with its kind, severity, time, texts (whatever bytes they hold) and, when there is
  one, the snapshot with its metrics (\<open>null\<close> where there is none) and recent datagrams in order.
\<close>

theorem event_json_reads: "read_json (eventJson e) = Some (event_value e)"
  by (simp add: eventJson_shown read_json_shown)

end
