(* ===== verification/Server_Run.thy ===== *)
theory Server_Run
  imports Local_Server Json_Messages
begin

text \<open>
  \<open>LocalControlServer::run\<close> of \<open>src/src/control/LocalControlServer.cpp\<close>: the loop that accepts connections,
  the thread that publishes metrics, \<open>publish\<close>, which the threads of workers and of requests call, and
  \<open>requestStop\<close>. They interleave, and a step is what happens between two points at which another thread can
  intervene: the test of a loop, a connection up to its response, one message sent to one subscriber under its
  mutex, one section under the mutex of the list of subscribers.
\<close>

section \<open>The server\<close>

text \<open>
  A \<open>WebSocketClient\<close> is an object with an identity; \<open>objects\<close> holds the bytes of the frames that each of the
  objects ever made has sent, \<open>clients\<close> is the list \<open>clients_\<close>. A call of \<open>broadcastEvent\<close> that has copied the
  list: its event, the subscribers it has yet to serve, those for which the sending failed, and whether
  it has returned.
\<close>

record broadcast =
  carried :: control_event
  waiting :: "nat list"
  failures :: "nat list"
  finished :: bool

text \<open>
  Where the accept loop is (\<open>Greeting i ss k\<close>: a new subscriber has been sent \<open>k\<close> of the snapshots \<open>ss\<close>) and
  where the metrics thread is (\<open>Timer_round ss b\<close>: it has the snapshots \<open>ss\<close> yet to publish, and \<open>b\<close> is the
  broadcast it has begun).
\<close>

datatype accept_phase = Accept_test | Accept_wait | Greeting nat "tunnel_snapshot list" nat | Accept_ended

datatype timer_phase = Timer_test | Timer_sleep | Timer_round "tunnel_snapshot list" "nat option" | Timer_ended

record control_server =
  server_service :: service
  server_files :: file_system
  objects :: "string list"
  clients :: "nat list"
  broadcasts :: "broadcast list"
  stop_requested :: bool
  listening :: bool
  accepting :: accept_phase
  timer :: timer_phase
  calls_so_far :: "runtime_call list"

definition start_server :: "service \<Rightarrow> file_system \<Rightarrow> control_server" where
  "start_server svc fs =
     \<lparr>server_service = svc, server_files = fs, objects = [], clients = [], broadcasts = [], stop_requested = False,
      listening = True, accepting = Accept_test, timer = Timer_test, calls_so_far = []\<rparr>"

definition requestStop :: "control_server \<Rightarrow> control_server" where
  "requestStop s = s\<lparr>stop_requested := True, listening := False\<rparr>"

text \<open>The accept loop and \<open>serveConnection\<close>.\<close>

definition test_accept :: "control_server \<Rightarrow> control_server" where
  "test_accept s = s\<lparr>accepting := (if stop_requested s then Accept_ended else Accept_wait)\<rparr>"

definition accept_connection :: "connection_env \<Rightarrow> string list \<Rightarrow> int list \<Rightarrow> control_server \<Rightarrow> control_server" where
  "accept_connection env pieces results s =
     (let (r, svc, fs) = serveConnection env pieces results (server_service s) (server_files s);
          s = s\<lparr>server_service := svc, server_files := fs, calls_so_far := calls_so_far s @ calls_made r\<rparr>
      in case greeting r of
           None \<Rightarrow> s\<lparr>accepting := Accept_test\<rparr>
         | Some ss \<Rightarrow> s\<lparr>objects := objects s @ [[]], accepting := Greeting (length (objects s)) ss 0\<rparr>)"

definition snapshot_event :: "event_kind \<Rightarrow> string \<Rightarrow> nat \<Rightarrow> tunnel_snapshot \<Rightarrow> control_event" where
  "snapshot_event kind message now s =
     \<lparr>event_kind_of = kind, event_severity_of = Severity_info, event_time = now, event_alias = snap_alias s,
      event_message = message, event_snapshot = Some s\<rparr>"

definition greeting_event :: "nat \<Rightarrow> tunnel_snapshot \<Rightarrow> control_event" where
  "greeting_event = snapshot_event Event_lifecycle ''current runtime snapshot''"

text \<open>\<open>sendWebSocketText\<close> on an object: whether it succeeded, and the server after it.\<close>

definition send_text :: "nat \<Rightarrow> control_event \<Rightarrow> int list \<Rightarrow> control_server \<Rightarrow> bool \<times> control_server" where
  "send_text i event results s =
     (let (ok, sent) = sendWebSocketText (eventJson event) results
      in (ok, s\<lparr>objects := (objects s)[i := objects s ! i @ sent]\<rparr>))"

definition greet :: "nat \<Rightarrow> int list \<Rightarrow> control_server \<Rightarrow> control_server option" where
  "greet now results s =
     (case accepting s of
        Greeting i ss k \<Rightarrow>
          if k < length ss then
            (let (ok, s) = send_text i (greeting_event now (ss ! k)) results s
             in Some (s\<lparr>accepting := (if ok then Greeting i ss (Suc k) else Accept_test)\<rparr>))
          else None
      | _ \<Rightarrow> None)"

definition register_client :: "control_server \<Rightarrow> control_server option" where
  "register_client s =
     (case accepting s of
        Greeting i ss k \<Rightarrow> if k = length ss then Some (s\<lparr>clients := clients s @ [i], accepting := Accept_test\<rparr>) else None
      | _ \<Rightarrow> None)"

text \<open>\<open>broadcastEvent\<close>: its first section, the sending to the next subscriber, its last section.\<close>

definition begin_broadcast :: "control_event \<Rightarrow> control_server \<Rightarrow> control_server" where
  "begin_broadcast event s =
     s\<lparr>broadcasts := broadcasts s @ [\<lparr>carried = event, waiting = clients s, failures = [], finished = False\<rparr>]\<rparr>"

definition update_broadcast :: "nat \<Rightarrow> (broadcast \<Rightarrow> broadcast) \<Rightarrow> control_server \<Rightarrow> control_server" where
  "update_broadcast n f s = s\<lparr>broadcasts := (broadcasts s)[n := f (broadcasts s ! n)]\<rparr>"

definition send_next :: "nat \<Rightarrow> int list \<Rightarrow> control_server \<Rightarrow> control_server option" where
  "send_next n results s =
     (if length (broadcasts s) \<le> n then None
      else case waiting (broadcasts s ! n) of
        [] \<Rightarrow> None
      | i # rest \<Rightarrow>
          (let (ok, s) = send_text i (carried (broadcasts s ! n)) results s
           in Some (update_broadcast n
                (\<lambda>b. b\<lparr>waiting := rest, failures := failures b @ (if ok then [] else [i])\<rparr>) s)))"

definition end_broadcast :: "nat \<Rightarrow> control_server \<Rightarrow> control_server option" where
  "end_broadcast n s =
     (if length (broadcasts s) \<le> n \<or> waiting (broadcasts s ! n) \<noteq> [] \<or> finished (broadcasts s ! n) then None
      else Some (update_broadcast n (\<lambda>b. b\<lparr>finished := True\<rparr>)
        (s\<lparr>clients := filter (\<lambda>i. i \<notin> set (failures (broadcasts s ! n))) (clients s)\<rparr>)))"

text \<open>The metrics thread and \<open>broadcastMetricSnapshots\<close>.\<close>

definition test_timer :: "control_server \<Rightarrow> control_server" where
  "test_timer s = s\<lparr>timer := (if stop_requested s \<or> accepting s = Accept_ended then Timer_ended else Timer_sleep)\<rparr>"

definition begin_round :: "tunnel_snapshot list \<Rightarrow> control_server \<Rightarrow> control_server" where
  "begin_round ss s = s\<lparr>timer := (if clients s = [] then Timer_test else Timer_round ss None)\<rparr>"

definition timer_expired :: "tunnel_snapshot list \<Rightarrow> control_server \<Rightarrow> control_server" where
  "timer_expired ss s =
     (if stop_requested s \<or> accepting s = Accept_ended then s\<lparr>timer := Timer_test\<rparr> else begin_round ss s)"

definition round_ready :: "control_server \<Rightarrow> nat option \<Rightarrow> bool" where
  "round_ready s b \<longleftrightarrow> (case b of None \<Rightarrow> True | Some n \<Rightarrow> finished (broadcasts s ! n))"

definition metric_next :: "nat \<Rightarrow> control_server \<Rightarrow> control_server option" where
  "metric_next now s =
     (case timer s of
        Timer_round ss b \<Rightarrow>
          if \<not> round_ready s b then None
          else (case ss of
             [] \<Rightarrow> Some (s\<lparr>timer := Timer_test\<rparr>)
           | snapshot # rest \<Rightarrow>
               if \<not> active_state (snap_state snapshot) then Some (s\<lparr>timer := Timer_round rest None\<rparr>)
               else Some (begin_broadcast (snapshot_event Event_metrics ''Runtime telemetry'' now snapshot)
                 (s\<lparr>timer := Timer_round rest (Some (length (broadcasts s)))\<rparr>)))
      | _ \<Rightarrow> None)"

section \<open>Steps\<close>

text \<open>
  The actions, with what the surroundings answer: \<open>accept\<close> yields a connection or fails, at a timeout or
  because the listener is closed; \<open>Publish\<close> is a call of \<open>publish\<close> by any thread.
\<close>

datatype server_action =
    Test_accept
  | Accept_failed
  | Accepted connection_env "string list" "int list"
  | Greet nat "int list"
  | Register
  | Publish control_event
  | Send_next nat "int list"
  | End_broadcast nat
  | Test_timer
  | Timer_expired "tunnel_snapshot list"
  | Metric_next nat
  | Request_stop

fun server_step :: "server_action \<Rightarrow> control_server \<Rightarrow> control_server option" where
  "server_step Test_accept s = (if accepting s = Accept_test then Some (test_accept s) else None)"
| "server_step Accept_failed s = (if accepting s = Accept_wait then Some (s\<lparr>accepting := Accept_test\<rparr>) else None)"
| "server_step (Accepted env pieces results) s =
     (if accepting s = Accept_wait then Some (accept_connection env pieces results s) else None)"
| "server_step (Greet now results) s = greet now results s"
| "server_step Register s = register_client s"
| "server_step (Publish event) s = Some (begin_broadcast event s)"
| "server_step (Send_next n results) s = send_next n results s"
| "server_step (End_broadcast n) s = end_broadcast n s"
| "server_step Test_timer s = (if timer s = Timer_test then Some (test_timer s) else None)"
| "server_step (Timer_expired ss) s = (if timer s = Timer_sleep then Some (timer_expired ss s) else None)"
| "server_step (Metric_next now) s = metric_next now s"
| "server_step Request_stop s = Some (requestStop s)"

abbreviation server_run :: "server_action list \<Rightarrow> control_server \<Rightarrow> control_server option" where
  "server_run \<equiv> run_steps server_step"

text \<open>What the steps of a broadcast and of a greeting do, as far as they can be taken.\<close>

lemma send_next_Some:
  "send_next n results s = Some s' \<longleftrightarrow>
     (\<exists>i rest. n < length (broadcasts s) \<and> waiting (broadcasts s ! n) = i # rest \<and>
       s' = update_broadcast n
         (\<lambda>b. b\<lparr>waiting := rest, failures := failures b @
            (if fst (send_text i (carried (broadcasts s ! n)) results s) then [] else [i])\<rparr>)
         (snd (send_text i (carried (broadcasts s ! n)) results s)))"
  by (auto simp: send_next_def case_prod_beta Let_def split: list.split)

lemma end_broadcast_Some:
  "end_broadcast n s = Some s' \<longleftrightarrow>
     n < length (broadcasts s) \<and> waiting (broadcasts s ! n) = [] \<and> \<not> finished (broadcasts s ! n) \<and>
     s' = update_broadcast n (\<lambda>b. b\<lparr>finished := True\<rparr>)
        (s\<lparr>clients := filter (\<lambda>i. i \<notin> set (failures (broadcasts s ! n))) (clients s)\<rparr>)"
  by (auto simp: end_broadcast_def)

lemma greet_Some:
  "greet now results s = Some s' \<longleftrightarrow>
     (\<exists>i ss k. accepting s = Greeting i ss k \<and> k < length ss \<and>
       s' = (snd (send_text i (greeting_event now (ss ! k)) results s))
         \<lparr>accepting := (if fst (send_text i (greeting_event now (ss ! k)) results s) then Greeting i ss (Suc k) else Accept_test)\<rparr>)"
  by (auto simp: greet_def case_prod_beta Let_def split: accept_phase.split)

lemma register_Some:
  "register_client s = Some s' \<longleftrightarrow>
     (\<exists>i ss. accepting s = Greeting i ss (length ss) \<and> s' = s\<lparr>clients := clients s @ [i], accepting := Accept_test\<rparr>)"
  by (auto simp: register_client_def split: accept_phase.split)

lemma metric_next_Some:
  "metric_next now s = Some s' \<Longrightarrow>
     (\<exists>phase. s' = s\<lparr>timer := phase\<rparr>) \<or> (\<exists>event phase. s' = begin_broadcast event (s\<lparr>timer := phase\<rparr>))"
  by (auto simp: metric_next_def split: timer_phase.splits if_splits list.splits)

lemma accept_connection_fields:
  "stop_requested (accept_connection env pieces results s) = stop_requested s"
  "clients (accept_connection env pieces results s) = clients s"
  "broadcasts (accept_connection env pieces results s) = broadcasts s"
  "timer (accept_connection env pieces results s) = timer s"
  "accepting (accept_connection env pieces results s) \<noteq> Accept_wait"
  by (simp_all add: accept_connection_def Let_def split: prod.split option.split)

lemmas action_simps = test_accept_def test_timer_def timer_expired_def begin_round_def requestStop_def send_text_def

lemmas broadcast_steps = send_next_Some end_broadcast_Some update_broadcast_def begin_broadcast_def

section \<open>Replies are JSON\<close>

definition json_body :: "nat \<Rightarrow> string \<Rightarrow> bool" where
  "json_body status body \<longleftrightarrow>
     (\<exists>j. ok_json j \<and> body = show_json j \<and>
       (status \<in> {200, 202} \<or> (\<exists>code message. code \<in> {''invalid_request'', ''not_found''} \<and> j = error_value code message)))"

fun good_reply :: "string + reply \<Rightarrow> bool" where
  "good_reply (Inr (Json_reply status body)) = json_body status body"
| "good_reply _ = True"

lemma error_codes_literal: "literal_key ''invalid_request''" "literal_key ''not_found''"
  by code_simp+

lemma error_body: "code \<in> {''invalid_request'', ''not_found''} \<Longrightarrow> json_body status (errorJson code message)"
  unfolding json_body_def
  by (rule exI [where x = "error_value code message"]) (use error_codes_literal errorJson_shown in auto)

lemma value_body: "ok_json j \<Longrightarrow> body = show_json j \<Longrightarrow> status \<in> {200, 202} \<Longrightarrow> json_body status body"
  by (auto simp: json_body_def)

definition tunnel_value :: "tunnel_summary \<Rightarrow> json" where
  "tunnel_value s = J_object
     [(''alias'', J_string (summary_alias s)), (''mode'', J_string (summary_mode s)),
      (''udp_destination'', J_string (summary_destination s)),
      (''equivalent_direct_command'', J_string (equivalent_direct_command s))]"

lemma reply_keys_literal:
  "literal_key ''alias''" "literal_key ''mode''" "literal_key ''udp_destination''" "literal_key ''equivalent_direct_command''"
  "literal_key ''service''" "literal_key ''api_version''" "literal_key ''ready''" "literal_key ''tunnels''"
  "literal_key ''runtimes''" "literal_key ''toml''" "literal_key ''updated''" "literal_key ''accepted''"
  "literal_key ''dgramtunneler''"
  by code_simp+

lemma modeName_literal: "literal_key (modeName t)"
proof -
  have "literal_key ''client''" "literal_key ''server''"
    by code_simp+
  then show ?thesis
    by (simp add: modeName_def)
qed

lemma list_body:
  assumes "\<And>x. f x = show_json (g x)" and "\<And>x. ok_json (g x)" and "literal_key k"
  shows "json_body 200 (''{'' @ q k @ '':['' @ commas (map f xs) @ '']}'')"
proof (rule value_body [where j = "J_object [(k, J_array (map g xs))]"])
  have "f = show_json \<circ> g"
    using assms(1) by (simp add: fun_eq_iff)
  then show "''{'' @ q k @ '':['' @ commas (map f xs) @ '']}'' = show_json (J_object [(k, J_array (map g xs))])"
    by simp
qed (use assms in \<open>simp_all add: list_all_iff\<close>)

lemma summaryJson_shown: "summaryJson s = show_json (tunnel_value s)"
  by (simp add: summaryJson_def tunnel_value_def)

lemma tunnel_value_ok: "ok_json (tunnel_value s)"
  by (simp add: tunnel_value_def reply_keys_literal)

lemma tunnelJson_body: "json_body 200 (tunnelJson svc t al)"
proof (rule value_body [where j = "J_object ([(''alias'', J_string (tunnel_alias t)), (''mode'', J_string (modeName t))] @
    (case find (\<lambda>s. summary_alias s = al) (listTunnels svc) of None \<Rightarrow> []
     | Some s \<Rightarrow> [(''udp_destination'', J_string (summary_destination s))]))"])
qed (auto simp: tunnelJson_def reply_keys_literal escape_literal [OF modeName_literal] split: option.split)

lemma flag_body: "literal_key k \<Longrightarrow> status \<in> {200, 202} \<Longrightarrow> json_body status (''{'' @ q k @ '':true}'')"
  by (rule value_body [where j = "J_object [(k, J_true)]"]) simp_all

lemma toml_body: "json_body 200 (''{'' @ q ''toml'' @ '':'' @ q (jsonEscape s) @ ''}'')"
  by (rule value_body [where j = "J_object [(''toml'', J_string s)]"]) (simp_all add: reply_keys_literal)

lemma health_body:
  "json_body 200 (''{'' @ q ''service'' @ '':'' @ q ''dgramtunneler'' @ '','' @ q ''api_version'' @ '':'' @ q ''v1'' @ '','' @
     q ''ready'' @ '':true}'')"
  by (rule value_body [where j = "J_object [(''service'', J_string ''dgramtunneler''), (''api_version'', J_string ''v1''),
        (''ready'', J_true)]"])
    (simp_all add: reply_keys_literal escape_literal reply_keys_literal(13) version_literal)

lemma perform_call_good: "good_reply (fst (perform_call env svc fs action))"
  using flag_body [OF reply_keys_literal(12), of 202] by (simp add: perform_call_def split: sum.split option.split)

lemma put_config_good: "good_reply (fst (put_config env body svc fs))"
  using flag_body [OF reply_keys_literal(11), of 200]
  by (auto simp: put_config_def split: option.split prod.split)

lemma tunnel_routes_good: "good_reply (fst (tunnel_routes env request parts svc fs))"
  using error_body [of "''not_found''"] tunnelJson_body perform_call_good
  by (simp add: tunnel_routes_def Let_def split: sum.split)

lemma routes_good: "good_reply (fst (routes env request svc fs))"
proof -
  define Q where "Q h \<longleftrightarrow> good_reply (fst h)" for h :: handled
  have answered: "good_reply r \<Longrightarrow> Q (r, rest)" for r rest
    by (simp add: Q_def)
  have other: "Q (put_config env (req_body request) svc fs)" "Q (tunnel_routes env request parts svc fs)" for parts
    by (simp_all add: Q_def put_config_good tunnel_routes_good)
  have on_sum: "(\<And>m. Q (f m)) \<Longrightarrow> (\<And>y. Q (g y)) \<Longrightarrow> Q (case x of Inl m \<Rightarrow> f m | Inr y \<Rightarrow> g y)"
    for f g and x :: "string + string"
    by (cases x) auto
  have on_option: "Q h \<Longrightarrow> (\<And>y. Q (g y)) \<Longrightarrow> Q (case x of None \<Rightarrow> h | Some y \<Rightarrow> g y)" for h g and x :: "string option"
    by (cases x) auto
  have branch: "Q h \<Longrightarrow> Q h' \<Longrightarrow> Q (if c then h else h')" for c h h'
    by simp
  have bodies: "good_reply (Inr (Json_reply 200 (''{'' @ q ''tunnels'' @ '':['' @ commas (map summaryJson xs) @ '']}'')))"
    "good_reply (Inr (Json_reply 200 (''{'' @ q ''runtimes'' @ '':['' @ commas (map snapshotJson ys) @ '']}'')))" for xs ys
    using list_body [of summaryJson tunnel_value, OF summaryJson_shown tunnel_value_ok reply_keys_literal(8)]
      list_body [of snapshotJson snapshot_value, OF snapshotJson_shown snapshot_ok reply_keys_literal(9)]
    by simp_all
  have "Q (routes env request svc fs)"
    unfolding routes_def Let_def
    by (intro branch answered other on_sum on_option bodies) (simp_all only: good_reply.simps health_body toml_body)
  then show ?thesis
    by (simp add: Q_def)
qed

text \<open>
  C18. Every JSON reply is well-formed: a reader that follows RFC 8259 accepts it, and unless the status is 200
  or 202 it finds in it the error object that the documentation describes, with one of the codes
  \<open>invalid_request\<close> and \<open>not_found\<close> and a message.
\<close>

theorem replies_are_json:
  assumes "fst (handle_request env request svc fs) = Json_reply status body"
  shows "\<exists>j. read_json body = Some j \<and>
    (status = 200 \<or> status = 202 \<or>
      (\<exists>code message. code \<in> {''invalid_request'', ''not_found''} \<and> j = error_value code message))"
proof -
  have "json_body status body"
  proof (cases "fst (routes env request svc fs)")
    case (Inl message)
    then have "status = 400" "body = errorJson ''invalid_request'' message"
      using assms by (auto simp: handle_request_def split: prod.splits sum.splits)
    then show ?thesis
      using error_body [of "''invalid_request''" 400] by simp
  next
    case (Inr r)
    then have "r = Json_reply status body"
      using assms by (auto simp: handle_request_def split: prod.splits sum.splits)
    then show ?thesis
      using Inr routes_good [of env request svc fs] by simp
  qed
  then show ?thesis
    using read_json_shown by (auto simp: json_body_def)
qed



section \<open>Stopping\<close>

fun is_connection :: "server_action \<Rightarrow> bool" where
  "is_connection (Accepted env pieces results) = True"
| "is_connection _ = False"

lemma stopped_step:
  assumes "server_step a s = Some s'" and "stop_requested s"
  shows "stop_requested s' \<and> (is_connection a \<longrightarrow> accepting s = Accept_wait \<and> accepting s' \<noteq> Accept_wait) \<and>
    (accepting s \<noteq> Accept_wait \<longrightarrow> accepting s' \<noteq> Accept_wait)"
proof (cases a)
  case (Accepted env pieces results)
  with assms show ?thesis
    by (auto simp: accept_connection_fields split: if_splits)
next
  case (Metric_next now)
  with assms show ?thesis
    by (auto simp: begin_broadcast_def dest!: metric_next_Some)
qed (use assms in \<open>auto simp: action_simps broadcast_steps greet_Some register_Some case_prod_beta Let_def split: if_splits\<close>)

lemma stopped_run:
  assumes "server_run as s = Some s'" and "stop_requested s"
  shows "length (filter is_connection as) \<le> (if accepting s = Accept_wait then 1 else 0)"
  using assms
proof (induction as arbitrary: s)
  case (Cons a as)
  then obtain s1 where s1: "server_step a s = Some s1" "server_run as s1 = Some s'"
    by (auto split: option.splits)
  note step = stopped_step [OF s1(1) Cons.prems(2)]
  have "length (filter is_connection as) \<le> (if accepting s1 = Accept_wait then 1 else 0)"
    using Cons.IH [OF s1(2)] step by simp
  then show ?case
    using step by (cases "is_connection a") (auto split: if_splits)
qed simp

interpretation stopped: step_invariant server_step "\<lambda>a. True" stop_requested
  by unfold_locales (simp add: stopped_step)

text \<open>Without connections nothing is done on behalf of a client.\<close>

definition work_done :: "control_server \<Rightarrow> service \<times> file_system \<times> runtime_call list" where
  "work_done s = (server_service s, server_files s, calls_so_far s)"

lemma idle_step:
  assumes "server_step a s = Some s'" and "\<not> is_connection a"
  shows "work_done s' = work_done s"
proof (cases a)
  case (Metric_next now)
  with assms show ?thesis
    by (auto simp: work_done_def begin_broadcast_def dest!: metric_next_Some)
qed (use assms in \<open>auto simp: work_done_def action_simps broadcast_steps greet_Some register_Some case_prod_beta Let_def split: if_splits\<close>)

interpretation idle: step_invariant server_step "\<lambda>a. \<not> is_connection a" "\<lambda>s. work_done s = d" for d
  by unfold_locales (simp add: idle_step)

text \<open>
  C40. After \<open>requestStop\<close> the server serves one more connection at most, the one for which \<open>accept\<close> was waiting
  already, and none otherwise; in that case no request changes the catalogue, a file or the runtime any more.
  The next test of the accept loop and of the metrics thread ends them.
\<close>

theorem server_stops:
  assumes "server_run as (requestStop s) = Some s'"
  shows "length (filter is_connection as) \<le> 1 \<and>
    (accepting s \<noteq> Accept_wait \<longrightarrow> filter is_connection as = [] \<and> server_service s' = server_service s \<and>
      server_files s' = server_files s \<and> calls_so_far s' = calls_so_far s) \<and>
    accepting (test_accept s') = Accept_ended \<and> timer (test_timer s') = Timer_ended"
proof -
  have stop: "stop_requested (requestStop s)" "accepting (requestStop s) = accepting s"
    by (simp_all add: requestStop_def)
  have one: "length (filter is_connection as) \<le> (if accepting s = Accept_wait then 1 else 0)"
    using stopped_run [OF assms stop(1)] stop(2) by simp
  moreover have "filter is_connection as = [] \<longrightarrow> server_service s' = server_service s \<and>
      server_files s' = server_files s \<and> calls_so_far s' = calls_so_far s"
    using idle.run_keeps [OF assms, of "work_done s"]
    by (auto simp: filter_empty_conv list_all_iff work_done_def requestStop_def)
  ultimately show ?thesis
    using stopped.run_keeps [OF assms _ stop(1)]
    by (auto simp: test_accept_def test_timer_def list_all_iff split: if_splits)
qed

end
