(* ===== verification/Server_Stream.thy ===== *)
theory Server_Stream
  imports Server_Run
begin

text \<open>
  What holds of the control server of \<open>Server_Run\<close> in every interleaving: what its file says compared with its
  catalogue, and what its subscribers have received.
\<close>

section \<open>The catalogue and the file\<close>

text \<open>The text a connection asks to put in place of the configuration.\<close>

definition put_text :: "string list \<Rightarrow> string option" where
  "put_text pieces =
     (case receiveRequest pieces of
        None \<Rightarrow> None
      | Some request \<Rightarrow> if puts_config request then jsonStringProperty (req_body request) ''toml'' else None)"

text \<open>The connections in which the file can come to differ from the catalogue.\<close>

fun loses_file :: "server_action \<Rightarrow> bool" where
  "loses_file (Accepted env pieces results) \<longleftrightarrow> put_text pieces \<noteq> None \<and> file_lost (env_os env) (env_write env)"
| "loses_file _ \<longleftrightarrow> False"

fun cuts_text :: "server_action \<Rightarrow> bool" where
  "cuts_text (Accepted env pieces results) \<longleftrightarrow>
     (case put_text pieces of None \<Rightarrow> False | Some toml \<Rightarrow> text_cut (env_write env) toml)"
| "cuts_text _ \<longleftrightarrow> False"

fun same_machine :: "os \<Rightarrow> server_action \<Rightarrow> bool" where
  "same_machine os (Accepted env pieces results) \<longleftrightarrow> env_os env = os"
| "same_machine os _ \<longleftrightarrow> True"

lemma put_config_follows:
  assumes "follows (env_os env) path lost shortened (svc, fs)" and "put_config env body svc fs = (r, calls, svc', fs')"
    and "\<And>toml. jsonStringProperty body ''toml'' = Some toml \<Longrightarrow>
      (file_lost (env_os env) (env_write env) \<longrightarrow> lost) \<and> (text_cut (env_write env) toml \<longrightarrow> shortened)"
  shows "follows (env_os env) path lost shortened (svc', fs')"
proof (cases "jsonStringProperty body ''toml''")
  case (Some toml)
  obtain thrown svc1 fs1 where r: "replaceConfiguration (env_os env) (env_write env) toml svc fs = (thrown, svc1, fs1)"
    by (metis prod_cases3)
  then have "svc1 = svc' \<and> fs1 = fs'"
    using assms(2) Some by (cases thrown) (auto simp: put_config_def)
  with replace_follows [OF assms(1) r] assms(3) [OF Some] show ?thesis
    by (auto elim: follows_mono)
qed (use assms(1,2) in \<open>simp add: put_config_def\<close>)

lemma serve_follows:
  assumes "follows (env_os env) path lost shortened (svc, fs)"
    and "serveConnection env pieces results svc fs = (r, svc', fs')"
    and "loses_file (Accepted env pieces results) \<longrightarrow> lost" and "cuts_text (Accepted env pieces results) \<longrightarrow> shortened"
  shows "follows (env_os env) path lost shortened (svc', fs')"
proof (cases "receiveRequest pieces")
  case (Some request)
  obtain answer calls where routes: "routes env request svc fs = (answer, calls, svc', fs')"
    using assms(2) Some
    by (auto simp: serveConnection_def handle_request_def Let_def split: prod.splits sum.splits)
  show ?thesis
  proof (cases rule: routes_cases [of env request svc fs])
    case (answer r')
    with routes assms(1) show ?thesis
      by simp
  next
    case put
    then have "put_config env (req_body request) svc fs = (answer, calls, svc', fs')"
      using routes by simp
    from put_config_follows [OF assms(1) this] show ?thesis
      using assms(3,4) Some put(2) by (simp add: put_text_def)
  next
    case tunnel
    then have "svc' = svc \<and> fs' = fs"
      using tunnel_routes_result routes by metis
    with assms(1) show ?thesis
      by simp
  qed
qed (use assms(1,2) in \<open>simp add: serveConnection_def\<close>)

lemma step_follows:
  assumes "server_step a s = Some s'" and "same_machine os a \<and> (loses_file a \<longrightarrow> lost) \<and> (cuts_text a \<longrightarrow> shortened)"
    and "follows os path lost shortened (server_service s, server_files s)"
  shows "follows os path lost shortened (server_service s', server_files s')"
proof (cases "is_connection a")
  case True
  then obtain env pieces results where a: "a = Accepted env pieces results"
    by (cases a) auto
  obtain r svc fs where r: "serveConnection env pieces results (server_service s) (server_files s) = (r, svc, fs)"
    by (metis prod_cases3)
  have "server_service s' = svc \<and> server_files s' = fs"
    using assms(1) r by (auto simp: a accept_connection_def Let_def split: if_splits option.splits)
  with serve_follows [OF _ r, of path lost shortened] assms(2,3) show ?thesis
    by (simp add: a)
next
  case False
  with idle_step [OF assms(1)] assms(3) show ?thesis
    by (simp add: work_done_def)
qed

interpretation catalogue: step_invariant server_step
    "\<lambda>a. same_machine os a \<and> (loses_file a \<longrightarrow> lost) \<and> (cuts_text a \<longrightarrow> shortened)"
    "\<lambda>s. follows os path lost shortened (server_service s, server_files s)" for os lost shortened path
  by unfold_locales (rule step_follows)

lemma run_follows:
  assumes "construct_service os fs path = Inr svc" and "list_all (same_machine os) as"
    and "server_run as (start_server svc fs) = Some s"
  shows "follows os path (list_ex loses_file as) (list_ex cuts_text as) (server_service s, server_files s)"
proof -
  have "list_all (\<lambda>a. same_machine os a \<and> (loses_file a \<longrightarrow> list_ex loses_file as) \<and>
      (cuts_text a \<longrightarrow> list_ex cuts_text as)) as"
    using assms(2) by (auto simp: list_all_iff list_ex_iff)
  moreover have "follows os path (list_ex loses_file as) (list_ex cuts_text as)
      (server_service (start_server svc fs), server_files (start_server svc fs))"
    using follows_constructed [OF assms(1)] by (auto simp: start_server_def elim: follows_mono)
  ultimately show ?thesis
    using catalogue.run_keeps [OF assms(3)] by blast
qed

section \<open>Objects and broadcasts\<close>

text \<open>No sending to the subscriber has failed.\<close>

definition unfailed :: "nat \<Rightarrow> control_server \<Rightarrow> bool" where
  "unfailed i s \<longleftrightarrow> (\<forall>n < length (broadcasts s). i \<notin> set (failures (broadcasts s ! n)))"

text \<open>A subscriber has the frames of some events; one that is greeted has those of the snapshots it was sent.\<close>

definition heard :: "string \<Rightarrow> bool" where
  "heard received \<longleftrightarrow> (\<exists>es. frames_of (map eventJson es) received)"

definition greeted :: "tunnel_snapshot list \<Rightarrow> nat \<Rightarrow> string \<Rightarrow> bool" where
  "greeted ss k received \<longleftrightarrow>
     (\<exists>times. length times = k \<and> frames_of (map eventJson (map2 greeting_event times (take k ss))) received)"

definition fresh :: "nat \<Rightarrow> control_server \<Rightarrow> bool" where
  "fresh i s \<longleftrightarrow> i < length (objects s) \<and> i \<notin> set (clients s) \<and>
     (\<forall>n < length (broadcasts s). i \<notin> set (waiting (broadcasts s ! n)) \<and> i \<notin> set (failures (broadcasts s ! n)))"

definition broadcast_ok :: "control_server \<Rightarrow> broadcast \<Rightarrow> bool" where
  "broadcast_ok s b \<longleftrightarrow> distinct (waiting b) \<and>
     (\<forall>i \<in> set (waiting b). i < length (objects s) \<and> (unfailed i s \<longrightarrow> i \<in> set (clients s))) \<and>
     (\<forall>i \<in> set (failures b). i < length (objects s)) \<and> (finished b \<longrightarrow> waiting b = [])"

definition client_ok :: "control_server \<Rightarrow> nat \<Rightarrow> bool" where
  "client_ok s i \<longleftrightarrow> i < length (objects s) \<and> (unfailed i s \<longrightarrow> heard (objects s ! i))"

definition greeting_ok :: "control_server \<Rightarrow> bool" where
  "greeting_ok s \<longleftrightarrow> (case accepting s of
     Greeting i ss k \<Rightarrow> fresh i s \<and> k \<le> length ss \<and> greeted ss k (objects s ! i) | _ \<Rightarrow> True)"

definition streams_ok :: "control_server \<Rightarrow> bool" where
  "streams_ok s \<longleftrightarrow> distinct (clients s) \<and> (\<forall>i \<in> set (clients s). client_ok s i) \<and>
     (\<forall>n < length (broadcasts s). broadcast_ok s (broadcasts s ! n)) \<and> greeting_ok s"

lemma heard_reads:
  assumes "heard received"
  shows "\<exists>es. map_option (map read_json) (read_frames received) = Some (map (Some \<circ> event_value) es)"
proof -
  obtain es frames where "map text_frame (map eventJson es) = map Some frames" "received = concat frames"
    using assms unfolding heard_def frames_of_def by blast
  then have "read_frames received = Some (map eventJson es)"
    using read_frames_concat by blast
  then have "map_option (map read_json) (read_frames received) = Some (map (Some \<circ> event_value) es)"
    by (simp add: eventJson_shown read_json_shown)
  then show ?thesis
    by (rule exI)
qed

text \<open>Sending a message.\<close>

lemma send_text_fields:
  "clients (snd (send_text i e results s)) = clients s" "broadcasts (snd (send_text i e results s)) = broadcasts s"
  "accepting (snd (send_text i e results s)) = accepting s"
  "objects (snd (send_text i e results s)) =
     (objects s)[i := objects s ! i @ snd (sendWebSocketText (eventJson e) results)]"
  "fst (send_text i e results s) = fst (sendWebSocketText (eventJson e) results)"
  by (simp_all add: send_text_def case_prod_beta)

lemma frames_of_sent:
  "fst (sendWebSocketText (eventJson e) results) \<Longrightarrow> frames_of ms received \<Longrightarrow>
   frames_of (ms @ [eventJson e]) (received @ snd (sendWebSocketText (eventJson e) results))"
  using frames_of_append sendWebSocketText_ok by blast

lemma heard_sent:
  assumes "fst (sendWebSocketText (eventJson e) results)" and "heard received"
  shows "heard (received @ snd (sendWebSocketText (eventJson e) results))"
proof -
  obtain es where "frames_of (map eventJson es) received"
    using assms(2) by (auto simp: heard_def)
  from frames_of_sent [OF assms(1) this] have "frames_of (map eventJson (es @ [e]))
      (received @ snd (sendWebSocketText (eventJson e) results))"
    by simp
  then show ?thesis
    unfolding heard_def by (rule exI)
qed

lemma greeted_sent:
  assumes "fst (sendWebSocketText (eventJson (greeting_event now (ss ! k))) results)" and "greeted ss k received"
    and "k < length ss"
  shows "greeted ss (Suc k) (received @ snd (sendWebSocketText (eventJson (greeting_event now (ss ! k))) results))"
proof -
  obtain times where times: "length times = k" "frames_of (map eventJson (map2 greeting_event times (take k ss))) received"
    using assms(2) by (auto simp: greeted_def)
  have "map eventJson (map2 greeting_event (times @ [now]) (take (Suc k) ss)) =
      map eventJson (map2 greeting_event times (take k ss)) @ [eventJson (greeting_event now (ss ! k))]"
    using times(1) assms(3) by (simp add: take_Suc_conv_app_nth)
  with frames_of_sent [OF assms(1) times(2)] times(1) show ?thesis
    unfolding greeted_def by (intro exI [of _ "times @ [now]"]) simp
qed

lemma greeted_heard: "greeted ss k received \<Longrightarrow> heard received"
  unfolding greeted_def heard_def by blast


section \<open>What the steps keep\<close>

text \<open>The parts of the state that matter here.\<close>

lemma streams_cong:
  "objects s' = objects s \<Longrightarrow> clients s' = clients s \<Longrightarrow> broadcasts s' = broadcasts s \<Longrightarrow> streams_ok s \<Longrightarrow>
   greeting_ok s' \<Longrightarrow> streams_ok s'"
  by (simp add: streams_ok_def client_ok_def broadcast_ok_def unfailed_def)

lemma accept_ok:
  assumes "streams_ok s"
  shows "streams_ok (accept_connection env pieces results s)"
proof (cases "greeting (fst (serveConnection env pieces results (server_service s) (server_files s)))")
  case None
  then show ?thesis
    by (intro streams_cong [OF _ _ _ assms])
      (simp_all add: accept_connection_def case_prod_beta Let_def greeting_ok_def)
next
  case (Some ss)
  let ?s = "accept_connection env pieces results s"
  have objects: "objects ?s = objects s @ [[]]" "accepting ?s = Greeting (length (objects s)) ss 0"
    using Some by (simp_all add: accept_connection_def case_prod_beta Let_def)
  note same = accept_connection_fields(2,3) [of env pieces results s]
  have "fresh (length (objects s)) ?s"
    using assms objects(1) by (auto simp: fresh_def streams_ok_def client_ok_def broadcast_ok_def same)
  moreover have "greeted ss 0 []"
    by (simp add: greeted_def frames_of_def)
  ultimately have "greeting_ok ?s"
    by (simp add: greeting_ok_def objects)
  moreover have "client_ok s j \<Longrightarrow> client_ok ?s j" "broadcast_ok s b \<Longrightarrow> broadcast_ok ?s b" for j b
    by (auto simp: client_ok_def broadcast_ok_def unfailed_def same objects(1) nth_append intro: less_SucI)
  ultimately show ?thesis
    using assms by (simp add: streams_ok_def same)
qed

lemma greet_ok:
  assumes "streams_ok s" and "greet now results s = Some s'"
  shows "streams_ok s'"
proof -
  obtain i ss k where acc: "accepting s = Greeting i ss k" "k < length ss" and
    s': "s' = (snd (send_text i (greeting_event now (ss ! k)) results s))
      \<lparr>accepting := (if fst (send_text i (greeting_event now (ss ! k)) results s) then Greeting i ss (Suc k) else Accept_test)\<rparr>"
    using assms(2) by (auto simp: greet_Some)
  have g: "fresh i s" "greeted ss k (objects s ! i)"
    using assms(1) acc by (simp_all add: streams_ok_def greeting_ok_def)
  have fields: "clients s' = clients s" "broadcasts s' = broadcasts s" "length (objects s') = length (objects s)"
    "\<And>j. j \<noteq> i \<Longrightarrow> objects s' ! j = objects s ! j"
    by (simp_all add: s' send_text_fields)
  have "client_ok s' j" if "j \<in> set (clients s)" for j
  proof -
    have "j \<noteq> i"
      using that g(1) by (auto simp: fresh_def)
    with that assms(1) fields show ?thesis
      by (simp add: client_ok_def streams_ok_def unfailed_def)
  qed
  moreover have "broadcast_ok s' b" if "broadcast_ok s b" for b
    using that fields by (simp add: broadcast_ok_def unfailed_def)
  moreover have "greeting_ok s'"
    using g acc(2) greeted_sent [of now ss k results "objects s ! i"]
    by (auto simp: greeting_ok_def s' send_text_fields fresh_def)
  ultimately show ?thesis
    using assms(1) fields by (simp add: streams_ok_def)
qed

lemma register_ok:
  assumes "streams_ok s" and "register_client s = Some s'"
  shows "streams_ok s'"
proof -
  obtain i ss where acc: "accepting s = Greeting i ss (length ss)"
    and s': "s' = s\<lparr>clients := clients s @ [i], accepting := Accept_test\<rparr>"
    using assms(2) by (auto simp: register_Some)
  have "fresh i s" "heard (objects s ! i)"
    using assms(1) acc greeted_heard by (auto simp: streams_ok_def greeting_ok_def)
  with assms(1) show ?thesis
    by (auto simp: streams_ok_def s' client_ok_def broadcast_ok_def unfailed_def fresh_def greeting_ok_def)
qed

lemma begin_ok:
  assumes "streams_ok s"
  shows "streams_ok (begin_broadcast e s)"
proof -
  let ?s = "begin_broadcast e s"
  have unfailed: "unfailed i ?s \<longleftrightarrow> unfailed i s" for i
    by (auto simp: unfailed_def begin_broadcast_def nth_append less_Suc_eq)
  have same: "objects ?s = objects s" "clients ?s = clients s" "accepting ?s = accepting s"
    by (simp_all add: begin_broadcast_def)
  have ok: "broadcast_ok ?s b \<longleftrightarrow> broadcast_ok s b" "client_ok ?s i \<longleftrightarrow> client_ok s i" for b i
    by (simp_all add: broadcast_ok_def client_ok_def unfailed same)
  have new: "broadcast_ok s \<lparr>carried = e, waiting = clients s, failures = [], finished = False\<rparr>"
    using assms by (simp add: broadcast_ok_def streams_ok_def client_ok_def)
  have "\<forall>n < length (broadcasts ?s). broadcast_ok ?s (broadcasts ?s ! n)"
    unfolding ok using assms new by (auto simp: streams_ok_def begin_broadcast_def nth_append less_Suc_eq)
  moreover have "fresh i ?s" if "fresh i s" for i
    using that by (auto simp: fresh_def begin_broadcast_def nth_append less_Suc_eq)
  then have "greeting_ok ?s"
    using assms by (auto simp: streams_ok_def greeting_ok_def same split: accept_phase.splits)
  ultimately show ?thesis
    using assms by (simp add: streams_ok_def same ok)
qed

lemma send_next_ok:
  assumes "streams_ok s" and "send_next n results s = Some s'"
  shows "streams_ok s'"
proof -
  obtain i rest where n: "n < length (broadcasts s)" and w: "waiting (broadcasts s ! n) = i # rest"
    and s'_def: "s' = update_broadcast n
         (\<lambda>b. b\<lparr>waiting := rest, failures := failures b @
            (if fst (send_text i (carried (broadcasts s ! n)) results s) then [] else [i])\<rparr>)
         (snd (send_text i (carried (broadcasts s ! n)) results s))"
    using assms(2) by (auto simp: send_next_Some)
  define sent where "sent = sendWebSocketText (eventJson (carried (broadcasts s ! n))) results"
  define b where "b = (broadcasts s ! n)\<lparr>waiting := rest,
    failures := failures (broadcasts s ! n) @ (if fst sent then [] else [i])\<rparr>"
  have fields: "clients s' = clients s" "accepting s' = accepting s" "broadcasts s' = (broadcasts s)[n := b]"
    "objects s' = (objects s)[i := objects s ! i @ snd sent]"
    by (simp_all add: s'_def update_broadcast_def send_text_fields b_def sent_def)
  have old: "broadcast_ok s (broadcasts s ! m)" if "m < length (broadcasts s)" for m
    using assms(1) that by (simp add: streams_ok_def)
  have i: "i < length (objects s)" "i \<notin> set rest" "unfailed i s \<longrightarrow> i \<in> set (clients s)"
    using old [OF n] w by (simp_all add: broadcast_ok_def)
  have unfailed: "unfailed j s' \<longleftrightarrow> unfailed j s \<and> (j = i \<longrightarrow> fst sent)" for j
    using n by (auto simp: unfailed_def fields(3) b_def nth_list_update)
  have "client_ok s' j" if "j \<in> set (clients s)" for j
    using assms(1) that i(1) heard_sent [of "carried (broadcasts s ! n)" results "objects s ! i"]
    by (cases "j = i") (auto simp: streams_ok_def client_ok_def unfailed fields sent_def)
  moreover have ok: "broadcast_ok s' b'" if "broadcast_ok s b'" for b'
    using that by (auto simp: broadcast_ok_def unfailed fields)
  have "broadcast_ok s b"
    using old [OF n] w by (auto simp: broadcast_ok_def b_def)
  then have "\<forall>m < length (broadcasts s'). broadcast_ok s' (broadcasts s' ! m)"
    using old ok n by (simp add: fields(3) nth_list_update)
  moreover have "greeting_ok s'"
  proof (cases "accepting s")
    case (Greeting j ss k)
    then have j: "fresh j s" "k \<le> length ss" "greeted ss k (objects s ! j)"
      using assms(1) by (simp_all add: streams_ok_def greeting_ok_def)
    have "j \<noteq> i"
      using j(1) n w by (auto simp: fresh_def)
    with j n w show ?thesis
      by (auto simp: greeting_ok_def fields Greeting fresh_def b_def nth_list_update)
  qed (simp_all add: greeting_ok_def fields)
  ultimately show ?thesis
    using assms(1) by (simp add: streams_ok_def fields(1))
qed

lemma end_broadcast_ok:
  assumes "streams_ok s" and "end_broadcast n s = Some s'"
  shows "streams_ok s'"
proof -
  have n: "n < length (broadcasts s)" "waiting (broadcasts s ! n) = []"
    and s'_def: "s' = update_broadcast n (\<lambda>b. b\<lparr>finished := True\<rparr>)
        (s\<lparr>clients := filter (\<lambda>i. i \<notin> set (failures (broadcasts s ! n))) (clients s)\<rparr>)"
    using assms(2) by (simp_all add: end_broadcast_Some)
  define b where "b = (broadcasts s ! n)\<lparr>finished := True\<rparr>"
  have fields: "clients s' = filter (\<lambda>i. i \<notin> set (failures (broadcasts s ! n))) (clients s)"
    "accepting s' = accepting s" "broadcasts s' = (broadcasts s)[n := b]" "objects s' = objects s"
    by (simp_all add: s'_def update_broadcast_def b_def)
  have unfailed: "unfailed j s' \<longleftrightarrow> unfailed j s" for j
    using n by (auto simp: unfailed_def fields(3) b_def nth_list_update)
  have kept: "unfailed j s \<Longrightarrow> j \<in> set (clients s) \<Longrightarrow> j \<in> set (clients s')" for j
    using n(1) by (simp add: fields(1) unfailed_def)
  have ok: "broadcast_ok s' b'" if "broadcast_ok s b'" for b'
    using that kept by (simp add: broadcast_ok_def unfailed fields(4))
  have "broadcast_ok s b"
    using assms(1) n by (simp add: broadcast_ok_def b_def streams_ok_def)
  then have "\<forall>m < length (broadcasts s'). broadcast_ok s' (broadcasts s' ! m)"
    using assms(1) ok n by (simp add: fields(3) nth_list_update streams_ok_def)
  moreover have "greeting_ok s'"
    using assms(1) n by (auto simp: streams_ok_def greeting_ok_def fresh_def fields b_def nth_list_update split: accept_phase.splits)
  moreover have "\<forall>j \<in> set (clients s'). client_ok s' j"
    using assms(1) by (simp add: streams_ok_def client_ok_def unfailed fields(1,4))
  ultimately show ?thesis
    using assms(1) by (simp add: streams_ok_def fields(1))
qed

lemma phase_ok:
  assumes "streams_ok s" and "objects s' = objects s" and "clients s' = clients s" and "broadcasts s' = broadcasts s"
    and "accepting s' = accepting s \<or> (\<forall>i ss k. accepting s' \<noteq> Greeting i ss k)"
  shows "streams_ok s'"
proof (rule streams_cong [OF assms(2-4,1)])
  have "greeting_ok s"
    using assms(1) by (simp add: streams_ok_def)
  with assms(2-5) show "greeting_ok s'"
    by (auto simp: greeting_ok_def fresh_def split: accept_phase.splits)
qed

lemma stream_step_ok:
  assumes "server_step a s = Some s'" and "streams_ok s"
  shows "streams_ok s'"
proof -
  have timer: "streams_ok (s\<lparr>timer := phase\<rparr>)" for phase
    by (rule phase_ok [OF assms(2)]) simp_all
  show ?thesis
  proof (cases a)
    case (Metric_next now)
    with assms(1) timer show ?thesis
      by (auto dest!: metric_next_Some intro: begin_ok)
  qed (use assms(1) in \<open>auto split: if_splits simp: test_accept_def test_timer_def timer_expired_def begin_round_def requestStop_def
      intro: phase_ok [OF assms(2)] timer accept_ok [OF assms(2)] begin_ok [OF assms(2)] greet_ok [OF assms(2)]
        register_ok [OF assms(2)] send_next_ok [OF assms(2)] end_broadcast_ok [OF assms(2)]\<close>)
qed

interpretation streams: step_invariant server_step "\<lambda>a. True" streams_ok
  by unfold_locales (rule stream_step_ok)

lemma run_streams: "server_run as (start_server svc fs) = Some s \<Longrightarrow> streams_ok s"
  by (erule streams.run_keeps) (simp_all add: list_all_iff streams_ok_def start_server_def greeting_ok_def)


text \<open>
  C7. The server as a whole, on every platform and for every interleaving of connections, greetings, broadcasts,
  metrics and a stop. The catalogue is always what some text loads as, and the configuration file holds this
  text, with two exceptions: it is missing only if the configuration was put during a double failure of
  \<open>rename\<close> on Windows, and it holds a mere beginning of the text only if the disk lost the end of a text that
  was put; in a run without such a connection a new service would load the very same catalogue from the file.
  Every subscriber is registered once. And what a subscriber has received is a sequence of whole frames, each
  of them a message that the JSON reader turns into an event, unless the sending of a message to it failed.
\<close>

theorem server_invariant:
  assumes "construct_service os fs path = Inr svc" and "list_all (same_machine os) as"
    and "server_run as (start_server svc fs) = Some s"
  shows "(\<exists>toml. parseConfiguration os toml = Inr (configuration (server_service s)) \<and>
      (case server_files s path of
         None \<Rightarrow> list_ex loses_file as
       | Some content \<Rightarrow> content = toml \<or> prefix content toml \<and> list_ex cuts_text as)) \<and>
    configuration_path (server_service s) = path \<and>
    (\<not> list_ex loses_file as \<and> \<not> list_ex cuts_text as \<longrightarrow>
      construct_service os (server_files s) path = Inr (server_service s)) \<and>
    distinct (clients s) \<and>
    (\<forall>i \<in> set (clients s). (\<forall>b \<in> set (broadcasts s). i \<notin> set (failures b)) \<longrightarrow>
      (\<exists>es. map_option (map read_json) (read_frames (objects s ! i)) = Some (map (Some \<circ> event_value) es)))"
proof -
  note follows = run_follows [OF assms]
  have "(\<exists>toml. parseConfiguration os toml = Inr (configuration (server_service s)) \<and>
      (case server_files s path of
         None \<Rightarrow> list_ex loses_file as
       | Some content \<Rightarrow> content = toml \<or> prefix content toml \<and> list_ex cuts_text as)) \<and>
    configuration_path (server_service s) = path"
    using follows unfolding follows_def prod.case by (auto split: option.splits)
  moreover have "construct_service os (server_files s) path = Inr (server_service s)"
    if "\<not> list_ex loses_file as" "\<not> list_ex cuts_text as"
    using follows that by (simp add: follows_loads)
  moreover have "\<exists>es. map_option (map read_json) (read_frames (objects s ! i)) = Some (map (Some \<circ> event_value) es)"
    if "i \<in> set (clients s)" "\<forall>b \<in> set (broadcasts s). i \<notin> set (failures b)" for i
  proof -
    have "heard (objects s ! i)"
      using run_streams [OF assms(3)] that by (simp add: streams_ok_def client_ok_def unfailed_def)
    then show ?thesis
      by (rule heard_reads)
  qed
  ultimately show ?thesis
    using run_streams [OF assms(3)] by (auto simp: streams_ok_def)
qed

section \<open>The stream of a subscriber\<close>

text \<open>The broadcasts whose message is sent to an object during a run, by their numbers, in the order of the sending.\<close>

definition delivered :: "nat \<Rightarrow> server_action \<Rightarrow> control_server \<Rightarrow> nat list" where
  "delivered i a s =
     (case a of
        Send_next n results \<Rightarrow>
          if n < length (broadcasts s) \<and> waiting (broadcasts s ! n) \<noteq> [] \<and> hd (waiting (broadcasts s ! n)) = i then [n] else []
      | _ \<Rightarrow> [])"

fun deliveries :: "nat \<Rightarrow> server_action list \<Rightarrow> control_server \<Rightarrow> nat list" where
  "deliveries i [] s = []"
| "deliveries i (a # as) s =
     delivered i a s @ (case server_step a s of None \<Rightarrow> [] | Some s' \<Rightarrow> deliveries i as s')"

lemma deliveries_append:
  "server_run as s = Some s' \<Longrightarrow> deliveries i (as @ as') s = deliveries i as s @ deliveries i as' s'"
  by (induction as arbitrary: s) (auto split: option.splits)

text \<open>
  A subscriber that was registered when \<open>n0\<close> broadcasts had begun and had received the frames of \<open>ms\<close>, after the
  deliveries \<open>ns\<close>.
\<close>

definition subscribed :: "nat \<Rightarrow> string list \<Rightarrow> nat \<Rightarrow> nat list \<Rightarrow> control_server \<Rightarrow> bool" where
  "subscribed n0 ms i ns s \<longleftrightarrow> n0 \<le> length (broadcasts s) \<and> i < length (objects s) \<and>
     (\<forall>n < n0. i \<notin> set (waiting (broadcasts s ! n))) \<and> distinct ns \<and>
     (\<forall>n \<in> set ns. n0 \<le> n \<and> n < length (broadcasts s) \<and> i \<notin> set (waiting (broadcasts s ! n))) \<and>
     (unfailed i s \<longrightarrow> i \<in> set (clients s) \<and>
        frames_of (ms @ map (\<lambda>n. eventJson (carried (broadcasts s ! n))) ns) (objects s ! i) \<and>
        (\<forall>n. n0 \<le> n \<and> n < length (broadcasts s) \<and> i \<notin> set (waiting (broadcasts s ! n)) \<longrightarrow> n \<in> set ns))"

lemma delivered_other: "(\<And>n results. a \<noteq> Send_next n results) \<Longrightarrow> delivered i a s = []"
  by (auto simp: delivered_def split: server_action.split)

lemma subscribedD:
  assumes "subscribed n0 ms i ns s"
  shows "n0 \<le> length (broadcasts s)" and "i < length (objects s)" and "distinct ns"
    and "n < n0 \<Longrightarrow> i \<notin> set (waiting (broadcasts s ! n))"
    and "n \<in> set ns \<Longrightarrow> n0 \<le> n \<and> n < length (broadcasts s) \<and> i \<notin> set (waiting (broadcasts s ! n))"
    and "unfailed i s \<Longrightarrow> i \<in> set (clients s)"
    and "unfailed i s \<Longrightarrow> frames_of (ms @ map (\<lambda>n. eventJson (carried (broadcasts s ! n))) ns) (objects s ! i)"
    and "unfailed i s \<Longrightarrow> n0 \<le> n \<Longrightarrow> n < length (broadcasts s) \<Longrightarrow> i \<notin> set (waiting (broadcasts s ! n)) \<Longrightarrow> n \<in> set ns"
  using assms by (simp_all add: subscribed_def)

lemma subscribed_same:
  assumes "subscribed n0 ms i ns s" and "broadcasts s' = broadcasts s" and "i < length (objects s')"
    and "unfailed i s \<Longrightarrow> objects s' ! i = objects s ! i" and "unfailed i s \<Longrightarrow> i \<in> set (clients s')"
  shows "subscribed n0 ms i ns s'"
proof -
  have "unfailed i s' \<longleftrightarrow> unfailed i s"
    by (simp add: unfailed_def assms(2))
  with subscribedD [OF assms(1)] assms(3-5) show ?thesis
    unfolding subscribed_def assms(2) by simp
qed

lemma subscribed_accept:
  assumes "subscribed n0 ms i ns s"
  shows "subscribed n0 ms i ns (accept_connection env pieces results s)"
proof -
  let ?s = "accept_connection env pieces results s"
  have "objects ?s = objects s \<or> objects ?s = objects s @ [[]]"
    by (simp add: accept_connection_def Let_def split: prod.split option.split)
  then have "i < length (objects ?s)" "objects ?s ! i = objects s ! i"
    using subscribedD(2) [OF assms] by (auto simp: nth_append)
  with subscribedD(6) [OF assms] show ?thesis
    by (intro subscribed_same [OF assms]) (simp_all add: accept_connection_fields)
qed

lemma subscribed_greet:
  assumes "subscribed n0 ms i ns s" and "streams_ok s" and "greet now results s = Some s'"
  shows "subscribed n0 ms i ns s'"
proof -
  obtain j ss k where acc: "accepting s = Greeting j ss k" and
    s': "s' = (snd (send_text j (greeting_event now (ss ! k)) results s))
      \<lparr>accepting := (if fst (send_text j (greeting_event now (ss ! k)) results s) then Greeting j ss (Suc k) else Accept_test)\<rparr>"
    using assms(3) by (auto simp: greet_Some)
  have "j \<notin> set (clients s)"
    using assms(2) acc by (simp add: streams_ok_def greeting_ok_def fresh_def)
  then have "j \<noteq> i" if "unfailed i s"
    using that subscribedD(6) [OF assms(1)] by auto
  with subscribedD(2,6) [OF assms(1)] show ?thesis
    by (intro subscribed_same [OF assms(1)]) (simp_all add: s' send_text_fields)
qed

lemma subscribed_begin:
  assumes "subscribed n0 ms i ns s"
  shows "subscribed n0 ms i ns (begin_broadcast e s)"
proof -
  let ?s = "begin_broadcast e s"
  have n: "n0 \<le> length (broadcasts s)" "\<forall>n \<in> set ns. n < length (broadcasts s)"
    using subscribedD(1,5) [OF assms] by simp_all
  have old: "broadcasts ?s ! n = broadcasts s ! n" if "n < length (broadcasts s)" for n
    using that by (simp add: begin_broadcast_def nth_append)
  have new: "waiting (broadcasts ?s ! length (broadcasts s)) = clients s" "length (broadcasts ?s) = Suc (length (broadcasts s))"
    by (simp_all add: begin_broadcast_def)
  have unfailed: "unfailed i ?s \<longleftrightarrow> unfailed i s"
    by (auto simp: unfailed_def begin_broadcast_def nth_append less_Suc_eq)
  have messages: "map (\<lambda>n. eventJson (carried (broadcasts ?s ! n))) ns = map (\<lambda>n. eventJson (carried (broadcasts s ! n))) ns"
    using n(2) old by simp
  have "n \<in> set ns" if "unfailed i s" "n0 \<le> n" "n < Suc (length (broadcasts s))" "i \<notin> set (waiting (broadcasts ?s ! n))" for n
  proof -
    have "i \<in> set (clients s)"
      using subscribedD(6) [OF assms that(1)] .
    then have "n < length (broadcasts s)"
      using that(3,4) new(1) by (cases "n = length (broadcasts s)") auto
    then show ?thesis
      using that(4) subscribedD(8) [OF assms that(1,2)] old by simp
  qed
  moreover have "objects ?s = objects s" "clients ?s = clients s"
    by (simp_all add: begin_broadcast_def)
  moreover have "i \<notin> set (waiting (broadcasts ?s ! m))" if "m < n0" for m
    using that n(1) old [of m] subscribedD(4) [OF assms that] by simp
  moreover have "n0 \<le> m \<and> m < Suc (length (broadcasts s)) \<and> i \<notin> set (waiting (broadcasts ?s ! m))" if "m \<in> set ns" for m
    using subscribedD(5) [OF assms that] old [of m] by simp
  ultimately show ?thesis
    using subscribedD(1-3,6,7) [OF assms] unfolding subscribed_def unfailed messages new(2) by simp
qed

lemma subscribed_send:
  assumes "subscribed n0 ms i ns s" and "streams_ok s" and "send_next n results s = Some s'"
  shows "subscribed n0 ms i (ns @ delivered i (Send_next n results) s) s'"
proof -
  obtain j rest where n: "n < length (broadcasts s)" and w: "waiting (broadcasts s ! n) = j # rest"
    and s'_def: "s' = update_broadcast n
         (\<lambda>b. b\<lparr>waiting := rest, failures := failures b @
            (if fst (send_text j (carried (broadcasts s ! n)) results s) then [] else [j])\<rparr>)
         (snd (send_text j (carried (broadcasts s ! n)) results s))"
    using assms(3) by (auto simp: send_next_Some)
  define sent where "sent = sendWebSocketText (eventJson (carried (broadcasts s ! n))) results"
  define b where "b = (broadcasts s ! n)\<lparr>waiting := rest,
    failures := failures (broadcasts s ! n) @ (if fst sent then [] else [j])\<rparr>"
  have fields: "clients s' = clients s" "broadcasts s' = (broadcasts s)[n := b]"
    "objects s' = (objects s)[j := objects s ! j @ snd sent]" "carried b = carried (broadcasts s ! n)" "waiting b = rest"
    by (simp_all add: s'_def update_broadcast_def send_text_fields b_def sent_def)
  have rest: "j \<notin> set rest"
    using assms(2) n w by (force simp: streams_ok_def broadcast_ok_def)
  have waits: "i \<in> set (waiting (broadcasts s' ! m)) \<longleftrightarrow> i \<in> set (waiting (broadcasts s ! m)) \<and> \<not> (m = n \<and> i = j)"
    if "m < length (broadcasts s)" for m
    using that n w rest by (auto simp: fields nth_list_update)
  have messages: "map (\<lambda>m. eventJson (carried (broadcasts s' ! m))) ms' = map (\<lambda>m. eventJson (carried (broadcasts s ! m))) ms'"
    for ms'
    using n by (simp add: fields nth_list_update)
  have unfailed: "unfailed i s' \<longleftrightarrow> unfailed i s \<and> (j = i \<longrightarrow> fst sent)"
    using n by (auto simp: unfailed_def fields(2) b_def nth_list_update)
  have lengths: "length (broadcasts s') = length (broadcasts s)" "length (objects s') = length (objects s)"
    by (simp_all add: fields)
  note old = subscribedD [OF assms(1)]
  have before: "i \<notin> set (waiting (broadcasts s' ! m))" if "m < n0" for m
    using waits [of m] old(1) old(4) [OF that] that by simp
  have numbers: "n0 \<le> m \<and> m < length (broadcasts s) \<and> i \<notin> set (waiting (broadcasts s' ! m))" if "m \<in> set ns" for m
    using waits [of m] old(5) [OF that] by simp
  show ?thesis
  proof (cases "j = i")
    case True
    then have d: "delivered i (Send_next n results) s = [n]"
      using n w by (simp add: delivered_def)
    have waiting_n: "i \<in> set (waiting (broadcasts s ! n))"
      using w True by simp
    have new: "n0 \<le> n" "n \<notin> set ns"
      using old(4) [of n] old(5) [of n] waiting_n by (auto simp: not_le [symmetric])
    have "frames_of (ms @ map (\<lambda>m. eventJson (carried (broadcasts s ! m))) (ns @ [n])) (objects s' ! i)"
      if "fst sent" "unfailed i s"
      using frames_of_sent [of "carried (broadcasts s ! n)" results, OF _ old(7) [OF that(2)]] that(1) old(2) True
      by (simp add: fields sent_def)
    moreover have "m \<in> set (ns @ [n])" if "unfailed i s" "n0 \<le> m" "m < length (broadcasts s)" "i \<notin> set (waiting (broadcasts s' ! m))" for m
      using old(8) [OF that(1-3)] waits [OF that(3)] that(4) True by auto
    moreover have "n0 \<le> m \<and> m < length (broadcasts s) \<and> i \<notin> set (waiting (broadcasts s' ! m))" if "m \<in> set (ns @ [n])" for m
      using that numbers new(1) n waits [OF n] True by auto
    ultimately show ?thesis
      using old(1-3,6) new(2) before True unfolding subscribed_def d unfailed messages lengths fields(1) by simp
  next
    case False
    then have d: "delivered i (Send_next n results) s = []"
      using n w by (simp add: delivered_def)
    have "objects s' ! i = objects s ! i"
      using False by (simp add: fields)
    moreover have "m \<in> set ns" if "unfailed i s" "n0 \<le> m" "m < length (broadcasts s)" "i \<notin> set (waiting (broadcasts s' ! m))" for m
      using old(8) [OF that(1-3)] waits [OF that(3)] that(4) False by auto
    ultimately show ?thesis
      using old(1-3,6,7) numbers before False unfolding subscribed_def d unfailed messages lengths fields(1) append_Nil2 by simp
  qed
qed

lemma subscribed_end:
  assumes "subscribed n0 ms i ns s" and "end_broadcast n s = Some s'"
  shows "subscribed n0 ms i ns s'"
proof -
  have n: "n < length (broadcasts s)"
    and s'_def: "s' = update_broadcast n (\<lambda>b. b\<lparr>finished := True\<rparr>)
        (s\<lparr>clients := filter (\<lambda>i. i \<notin> set (failures (broadcasts s ! n))) (clients s)\<rparr>)"
    using assms(2) by (simp_all add: end_broadcast_Some)
  have same: "waiting (broadcasts s' ! m) = waiting (broadcasts s ! m)" "carried (broadcasts s' ! m) = carried (broadcasts s ! m)"
    "failures (broadcasts s' ! m) = failures (broadcasts s ! m)" for m
    using n by (cases "m = n"; simp add: s'_def update_broadcast_def)+
  have lengths: "length (broadcasts s') = length (broadcasts s)" "objects s' = objects s"
    by (simp_all add: s'_def update_broadcast_def)
  have "i \<in> set (clients s')" if "unfailed i s" "i \<in> set (clients s)"
    using that n by (simp add: s'_def update_broadcast_def unfailed_def)
  then show ?thesis
    using assms(1) unfolding subscribed_def unfailed_def same lengths by blast
qed

lemma subscribed_step:
  assumes "server_step a s = Some s'" and "streams_ok s" and "subscribed n0 ms i ns s"
  shows "subscribed n0 ms i (ns @ delivered i a s) s'"
proof (cases "\<exists>n results. a = Send_next n results")
  case True
  with subscribed_send [OF assms(3,2)] assms(1) show ?thesis
    by auto
next
  case False
  then have d: "ns @ delivered i a s = ns"
    by (simp add: delivered_other)
  have phase: "subscribed n0 ms i ns (s\<lparr>timer := phase\<rparr>)" for phase
    by (rule subscribed_same [OF assms(3)]) (use subscribedD(2,6) [OF assms(3)] in simp_all)
  note same = subscribed_same [OF assms(3)]
  show ?thesis
    unfolding d
  proof (cases a)
    case (Metric_next now)
    with assms(1) phase show "subscribed n0 ms i ns s'"
      by (auto dest!: metric_next_Some intro: subscribed_begin)
  next
    case Register
    with assms(1) subscribedD(2,6) [OF assms(3)] show "subscribed n0 ms i ns s'"
      by (auto simp: register_Some intro!: same)
  next
    case (Accepted env pieces results)
    with assms(1) subscribed_accept [OF assms(3)] show "subscribed n0 ms i ns s'"
      by (auto split: if_splits)
  next
    case (Greet now results)
    with assms(1) subscribed_greet [OF assms(3,2)] show "subscribed n0 ms i ns s'"
      by simp
  next
    case (End_broadcast n)
    with assms(1) subscribed_end [OF assms(3)] show "subscribed n0 ms i ns s'"
      by simp
  next
    case (Publish e)
    with assms(1) subscribed_begin [OF assms(3)] show "subscribed n0 ms i ns s'"
      by auto
  next
    case (Send_next n results)
    with False show "subscribed n0 ms i ns s'"
      by simp
  qed (use assms(1) subscribedD(2,6) [OF assms(3)] in \<open>auto simp: action_simps split: if_splits intro!: same\<close>)
qed

lemma subscribed_run:
  "server_run as s = Some s' \<Longrightarrow> streams_ok s \<Longrightarrow> subscribed n0 ms i ns s \<Longrightarrow>
   subscribed n0 ms i (ns @ deliveries i as s) s'"
proof (induction as arbitrary: s ns)
  case (Cons a as)
  then obtain s1 where s1: "server_step a s = Some s1" "server_run as s1 = Some s'"
    by (auto split: option.splits)
  from Cons.IH [OF s1(2) stream_step_ok [OF s1(1) Cons.prems(2)] subscribed_step [OF s1(1) Cons.prems(2,3)]] s1(1)
  show ?case
    by simp
qed simp

lemma unfailed_step:
  assumes "server_step a s = Some s'" and "unfailed i s'"
  shows "unfailed i s"
proof -
  have begun: "unfailed i t \<longleftrightarrow> unfailed i (begin_broadcast e t)" for e t
    by (auto simp: unfailed_def begin_broadcast_def nth_append less_Suc_eq)
  have same: "unfailed i t' \<Longrightarrow> unfailed i t" if "broadcasts t' = broadcasts t" for t t'
    using that by (simp add: unfailed_def)
  show ?thesis
  proof (cases a)
    case (Metric_next now)
    have "unfailed i (s\<lparr>timer := phase\<rparr>) \<longleftrightarrow> unfailed i s" for phase
      by (simp add: unfailed_def)
    with Metric_next assms show ?thesis
      by (auto simp flip: begun dest!: metric_next_Some)
  next
    case (Publish e)
    with assms begun show ?thesis
      by auto
  next
    case (Accepted env pieces results)
    with assms show ?thesis
      by (auto simp: unfailed_def accept_connection_fields split: if_splits)
  next
    case (Send_next n results)
    with assms show ?thesis
      by (auto simp: unfailed_def send_next_Some update_broadcast_def send_text_fields nth_list_update split: if_splits)
  next
    case (End_broadcast n)
    with assms show ?thesis
      by (auto simp: unfailed_def end_broadcast_Some update_broadcast_def nth_list_update split: if_splits)
  next
    case (Greet now results)
    then have "broadcasts s' = broadcasts s"
      using assms(1) by (auto simp: greet_Some send_text_fields)
    then show ?thesis
      using same assms(2) by blast
  next
    case Register
    then have "broadcasts s' = broadcasts s"
      using assms(1) by (auto simp: register_Some)
    then show ?thesis
      using same assms(2) by blast
  qed (rule same [OF _ assms(2)], use assms(1) in \<open>auto simp: test_accept_def test_timer_def timer_expired_def begin_round_def requestStop_def
      split: if_splits\<close>)+
qed

lemma unfailed_back: "server_run as s = Some s' \<Longrightarrow> unfailed i s' \<Longrightarrow> unfailed i s"
  by (induction as arbitrary: s) (auto split: option.splits intro: unfailed_step)


lemma deliveries_order:
  assumes "server_run as s = Some s3" and "server_run as' s3 = Some s'" and "streams_ok s" and "subscribed n0 ms i ns s"
    and "unfailed i s'" and "n0 \<le> n" and "n < length (broadcasts s3)" and "finished (broadcasts s3 ! n)"
  shows "n \<in> set (ns @ deliveries i as s)"
proof -
  note sub = subscribed_run [OF assms(1,3,4)]
  have "unfailed i s3"
    using unfailed_back [OF assms(2,5)] .
  moreover have "waiting (broadcasts s3 ! n) = []"
    using streams.run_keeps [OF assms(1) _ assms(3)] assms(7,8) by (simp add: list_all_iff streams_ok_def broadcast_ok_def)
  ultimately show ?thesis
    using subscribedD(8) [OF sub _ assms(6,7)] by simp
qed

text \<open>
  C13. What a subscriber sees. Take a new subscriber \<open>i\<close> that has been sent all snapshots it gets, and any
  continuation of the run in which it is registered next and no sending to it fails. It is one of the
  subscribers to the end, and the frames it has received, read as RFC 6455 prescribes, are exactly its snapshots,
  each with the time at which it was sent, followed by the events of the broadcasts \<open>received\<close>. These are all
  broadcasts that began after the registration and have reached it already, each of them once, and one that
  had ended when another began comes before it. An event whose broadcast began before the registration is not
  among them, not even if it was published after the snapshots had been taken: it is lost.
\<close>

theorem subscriber_stream:
  assumes "server_run as (start_server svc fs) = Some s0" and "accepting s0 = Greeting i ss (length ss)"
    and "server_run (Register # as') s0 = Some s" and "\<forall>b \<in> set (broadcasts s). i \<notin> set (failures b)"
  shows "i \<in> set (clients s) \<and>
    (let received = deliveries i (Register # as') s0
     in (\<exists>times. length times = length ss \<and>
           read_frames (objects s ! i) = Some (map eventJson
             (map2 greeting_event times ss @ map (\<lambda>n. carried (broadcasts s ! n)) received))) \<and>
        distinct received \<and>
        set received = {n. length (broadcasts s0) \<le> n \<and> n < length (broadcasts s) \<and> i \<notin> set (waiting (broadcasts s ! n))} \<and>
        (\<forall>as1 as2 s3 n n'. as' = as1 @ as2 \<and> server_run (Register # as1) s0 = Some s3 \<and>
           length (broadcasts s0) \<le> n \<and> n < length (broadcasts s3) \<and> finished (broadcasts s3 ! n) \<and>
           length (broadcasts s3) \<le> n' \<and> n' \<in> set received \<longrightarrow>
           (\<exists>xs ys. received = xs @ ys \<and> n \<in> set xs \<and> n' \<in> set ys)))"
proof -
  let ?n0 = "length (broadcasts s0)"
  define s1 where "s1 = s0\<lparr>clients := clients s0 @ [i], accepting := Accept_test\<rparr>"
  have reg: "server_step Register s0 = Some s1"
    using assms(2) by (simp add: register_Some s1_def)
  then have run: "server_run as' s1 = Some s"
    using assms(3) by simp
  have received: "deliveries i (Register # bs) s0 = deliveries i bs s1" for bs
    using reg by (simp add: delivered_def)
  have ok0: "streams_ok s0"
    by (rule run_streams [OF assms(1)])
  then have g: "fresh i s0" "greeted ss (length ss) (objects s0 ! i)"
    using assms(2) by (simp_all add: streams_ok_def greeting_ok_def)
  obtain times where times: "length times = length ss" "frames_of (map eventJson (map2 greeting_event times ss)) (objects s0 ! i)"
    using g(2) by (auto simp: greeted_def)
  have ok1: "streams_ok s1"
    by (rule stream_step_ok [OF reg ok0])
  have sub1: "subscribed ?n0 (map eventJson (map2 greeting_event times ss)) i [] s1"
    using g(1) times(2) by (simp add: subscribed_def s1_def fresh_def)
  have unfailed: "unfailed i s"
    using assms(4) by (simp add: unfailed_def)
  note sub = subscribedD [OF subscribed_run [OF run ok1 sub1], unfolded append_Nil]
  obtain frames where frames: "map text_frame (map eventJson (map2 greeting_event times ss) @
      map (\<lambda>n. eventJson (carried (broadcasts s ! n))) (deliveries i as' s1)) = map Some frames" "objects s ! i = concat frames"
    using sub(7) [OF unfailed] by (auto simp: frames_of_def)
  have "read_frames (objects s ! i) = Some (map eventJson
      (map2 greeting_event times ss @ map (\<lambda>n. carried (broadcasts s ! n)) (deliveries i as' s1)))"
    using read_frames_concat [OF frames(1)] frames(2) by (simp add: comp_def)
  moreover have "set (deliveries i as' s1) =
      {n. ?n0 \<le> n \<and> n < length (broadcasts s) \<and> i \<notin> set (waiting (broadcasts s ! n))}"
    using sub(5) sub(8) [OF unfailed] by blast
  moreover have "\<exists>xs ys. deliveries i as' s1 = xs @ ys \<and> n \<in> set xs \<and> n' \<in> set ys"
    if "as' = as1 @ as2" "server_run (Register # as1) s0 = Some s3" "?n0 \<le> n" "n < length (broadcasts s3)"
      "finished (broadcasts s3 ! n)" "length (broadcasts s3) \<le> n'" "n' \<in> set (deliveries i as' s1)" for as1 as2 s3 n n'
  proof -
    have run1: "server_run as1 s1 = Some s3"
      using that(2) reg by simp
    then have run2: "server_run as2 s3 = Some s"
      using run that(1) by (simp add: run_steps_append)
    have "n \<in> set (deliveries i as1 s1)"
      using deliveries_order [OF run1 run2 ok1 sub1 unfailed that(3-5)] by simp
    moreover have "n' \<notin> set (deliveries i as1 s1)"
      using subscribedD(5) [OF subscribed_run [OF run1 ok1 sub1], of n'] that(6) by auto
    moreover have split: "deliveries i as' s1 = deliveries i as1 s1 @ deliveries i as2 s3"
      using deliveries_append [OF run1] that(1) by simp
    ultimately show ?thesis
      using that(7) by auto
  qed
  ultimately show ?thesis
    using sub(3) sub(6) [OF unfailed] times(1) unfolding received Let_def by blast
qed

end
