(* ===== verification/Example_Config.thy ===== *)
theory Example_Config
  imports Control_Service Example_Run
begin

text \<open>
  Closed instances of the theorems on configurations, on the machine of \<open>Example_OS\<close>. They model no code
  under \<open>src/\<close>.
\<close>

lemma dotted_texts:
  "dotted [192, 168, 1, 20] = ''192.168.1.20''" "dotted [192, 168, 1, 10] = ''192.168.1.10''"
  "dotted [239, 1, 2, 3] = ''239.1.2.3''" "dotted [10, 0, 0, 2] = ''10.0.0.2''"
  by (simp_all add: to_string.simps digit_char_simps)

lemma example_addresses:
  "isIpv4Address example_os ''192.168.1.20''" "isIpv4Address example_os ''192.168.1.10''"
  "isIpv4Address example_os ''239.1.2.3''" "isIpv4Address example_os ''10.0.0.2''"
  using example_pton_dotted [of 192 168 1 20] example_pton_dotted [of 192 168 1 10]
    example_pton_dotted [of 239 1 2 3] example_pton_dotted [of 10 0 0 2] unfolding dotted_texts
  by (simp_all add: isIpv4Address_def c_str_def)

lemma example_sample:
  "parseConfiguration example_os sample_text =
    Inr [\<lparr>tunnel_alias = ''example-client'', tunnel_config = sample_client\<rparr>,
         \<lparr>tunnel_alias = ''example-server'', tunnel_config = sample_server\<rparr>]"
  using example_addresses(1-3) by (rule sample_parses)

lemma sample_loaded: "loaded_config example_os sample_client" "loaded_config example_os sample_server"
  using loaded_tunnels [OF example_sample] by simp_all

theorem configuration_valid_witness:
  "\<exists>ts. parseConfiguration example_os sample_text = Inr ts \<and> length ts = 2 \<and>
    list_all (\<lambda>t. isAlias (tunnel_alias t)) ts"
  using configuration_valid [OF example_sample] example_sample by (simp add: list_all_iff)

theorem findTunnel_loaded_witness:
  "\<exists>ts. loadConfiguration example_os (\<lambda>path. Some sample_text) ''config.toml'' = Inr ts \<and>
    findTunnel ts ''example-server'' = Inr \<lparr>tunnel_alias = ''example-server'', tunnel_config = sample_server\<rparr>"
proof -
  have load: "loadConfiguration example_os (\<lambda>path. Some sample_text) ''config.toml'' =
      Inr [\<lparr>tunnel_alias = ''example-client'', tunnel_config = sample_client\<rparr>,
           \<lparr>tunnel_alias = ''example-server'', tunnel_config = sample_server\<rparr>]"
    by (simp add: loadConfiguration_def example_sample)
  show ?thesis
    using findTunnel_loaded [OF load, of "''example-server''"
        "\<lparr>tunnel_alias = ''example-server'', tunnel_config = sample_server\<rparr>"] load
    by simp
qed

theorem parsePort_reads_witness: "parsePort (to_string (unat (5000 :: u16)) @ ''abc'') ''port'' = Inr 5000"
proof -
  have "\<not> isdigit (CHR ''a'')"
    by code_simp
  then show ?thesis
    using parsePort_reads [of 5000 "''port''" "[]" 1 "''abc''"] by simp
qed

theorem configuration_round_trip_witness:
  "parseConfiguration example_os (configuration_text [\<lparr>tunnel_alias = ''a'', tunnel_config = sample_client\<rparr>]) =
    Inr [\<lparr>tunnel_alias = ''a'', tunnel_config = sample_client\<rparr>]"
proof (rule configuration_round_trip)
  have "isAlias ''a''" "printable sample_client"
    by code_simp+
  then show "list_all (\<lambda>t. isAlias (tunnel_alias t) \<and> loaded_config example_os (tunnel_config t) \<and>
      printable (tunnel_config t)) [\<lparr>tunnel_alias = ''a'', tunnel_config = sample_client\<rparr>]"
    using sample_loaded by simp
qed simp

theorem sample_loads_witness:
  "\<exists>fs'. writeSampleConfiguration None True ''config.toml'' (\<lambda>path. None) = Inr fs' \<and>
    (\<exists>ts. loadConfiguration example_os fs' ''config.toml'' = Inr ts \<and> length ts = 2)"
proof -
  have w: "writeSampleConfiguration None True ''config.toml'' (\<lambda>path. None) =
      Inr ((\<lambda>path. None)(''config.toml'' \<mapsto> sample_text))"
    by (simp add: writeSampleConfiguration_def)
  show ?thesis
    using sample_loads [OF example_addresses(1-3) w] w by auto
qed

definition example_write :: write_env where
  "example_write = \<lparr>can_open = True, stream_good = True, bytes_on_disk = length sample_text, rename_fails = False,
     remove_fails = False, second_rename_fails = False, cleanup_error = None\<rparr>"

definition example_service :: service where
  "example_service = \<lparr>configuration_path = ''config.toml'', configuration = []\<rparr>"

definition windows_os :: os where
  "windows_os = example_os\<lparr>os_platform := Windows\<rparr>"

lemma windows_sample:
  "parseConfiguration windows_os sample_text =
    Inr [\<lparr>tunnel_alias = ''example-client'', tunnel_config = sample_client\<rparr>,
         \<lparr>tunnel_alias = ''example-server'', tunnel_config = sample_server\<rparr>]"
  by (rule sample_parses) (use example_addresses in \<open>simp_all add: windows_os_def isIpv4Address_def\<close>)

lemma windows_platform: "os_platform windows_os = Windows"
  by (simp add: windows_os_def)

definition windows_failure :: write_env where
  "windows_failure = example_write\<lparr>rename_fails := True, second_rename_fails := True\<rparr>"

lemma example_replacement:
  "\<exists>svc' fs'. replaceConfiguration example_os example_write sample_text example_service fs = (None, svc', fs')"
  by (simp add: replaceConfiguration_def example_sample example_write_def rename_step_def Let_def)

text \<open>A replacement that succeeds, and on Windows one that fails and loses the file.\<close>

theorem replaceConfiguration_atomic_witness:
  "(\<exists>svc' fs'. replaceConfiguration example_os example_write sample_text example_service (\<lambda>path. Some ''a'') =
      (None, svc', fs') \<and> length (configuration svc') = 2 \<and> fs' ''config.toml'' = Some sample_text \<and>
      fs' ''other'' = Some ''a'') \<and>
   (\<exists>fs'. replaceConfiguration windows_os windows_failure sample_text example_service (\<lambda>path. Some ''a'') =
      (Some ''could not replace configuration at config.toml'', example_service, fs') \<and> fs' ''config.toml'' = None)"
proof (intro conjI)
  obtain svc' fs' where r: "replaceConfiguration example_os example_write sample_text example_service
      (\<lambda>path. Some ''a'') = (None, svc', fs')"
    using example_replacement by blast
  note all = replaceConfiguration_atomic [OF r]
  have "fs' ''other'' = Some ''a''"
    using all by (auto simp: example_service_def temporary_path_def)
  moreover have "configuration svc' =
      [\<lparr>tunnel_alias = ''example-client'', tunnel_config = sample_client\<rparr>,
       \<lparr>tunnel_alias = ''example-server'', tunnel_config = sample_server\<rparr>]"
    using all by (simp add: example_sample)
  then have "length (configuration svc') = 2"
    by simp
  ultimately show "\<exists>svc' fs'. replaceConfiguration example_os example_write sample_text example_service
      (\<lambda>path. Some ''a'') = (None, svc', fs') \<and> length (configuration svc') = 2 \<and>
      fs' ''config.toml'' = Some sample_text \<and> fs' ''other'' = Some ''a''"
    using all r by (auto simp: example_service_def example_write_def)
next
  obtain fs' where r: "replaceConfiguration windows_os windows_failure sample_text example_service
      (\<lambda>path. Some ''a'') = (Some ''could not replace configuration at config.toml'', example_service, fs')"
    by (simp add: replaceConfiguration_def rename_step_def windows_sample windows_failure_def example_write_def
        windows_platform example_service_def Let_def)
  have "fs' ''config.toml'' = None"
    using replaceConfiguration_atomic [OF r]
    by (simp add: example_service_def windows_failure_def example_write_def windows_platform windows_sample)
  with r show "\<exists>fs'. replaceConfiguration windows_os windows_failure sample_text example_service (\<lambda>path. Some ''a'') =
      (Some ''could not replace configuration at config.toml'', example_service, fs') \<and> fs' ''config.toml'' = None"
    by blast
qed

theorem service_in_step_witness:
  "\<exists>svc svc' fs'. construct_service example_os (\<lambda>path. Some sample_text) ''config.toml'' = Inr svc \<and>
    replace_all example_os [(example_write, sample_text), (example_write, ''junk'')] svc (\<lambda>path. Some sample_text) =
      (svc', fs') \<and>
    construct_service example_os fs' ''config.toml'' = Inr svc'"
proof -
  obtain svc where svc: "construct_service example_os (\<lambda>path. Some sample_text) ''config.toml'' = Inr svc"
    by (simp add: construct_service_def loadConfiguration_def example_sample)
  have "list_all (\<lambda>(env, toml). \<not> text_cut env toml \<and> \<not> file_lost example_os env)
      [(example_write, sample_text), (example_write, ''junk'')]"
    by (simp add: text_cut_def file_lost_def example_write_def sample_text_def sample_lines_def)
  from service_in_step [OF svc this] show ?thesis
    using svc by (metis surj_pair)
qed

theorem direct_command_round_trip_witness:
  "\<exists>cfg'. snd (parseCommandLineConfig
      (tl (words (directCommand \<lparr>tunnel_alias = ''a'', tunnel_config = sample_client\<rparr>))) default_config) =
      Inr (True, cfg') \<and> resolve_config example_os cfg' = Inr sample_client"
proof (rule direct_command_round_trip)
  show "loaded_config example_os sample_client"
    by (rule sample_loaded)
qed (simp_all add: sample_client_def default_config_def command_word_def)

end
