(* ===== verification/Example_Server.thy ===== *)
theory Example_Server
  imports Local_Server Example_OS
begin

text \<open>
  Closed instances of the theorems on the local control server. They model no code under \<open>src/\<close>.
\<close>

definition example_snapshot :: tunnel_snapshot where
  "example_snapshot = snap (new_worker Kind_tunnel ''a'' default_config)"

definition example_env :: connection_env where
  "example_env = \<lparr>env_os = example_os,
     env_write = \<lparr>can_open = True, stream_good = True, bytes_on_disk = 0, rename_fails = False,
       remove_fails = False, second_rename_fails = False, cleanup_error = None\<rparr>,
     env_assets = \<lparr>index_html = [], styles_css = [], app_js = []\<rparr>,
     env_runtime = (\<lambda>call. None), env_snapshots = [example_snapshot]\<rparr>"

definition example_service :: service where
  "example_service = \<lparr>configuration_path = ''config.toml'', configuration = []\<rparr>"

definition no_files :: file_system where "no_files = (\<lambda>path. None)"

text \<open>A start that the runtime refuses: the catalogue it looks into is empty.\<close>

definition no_tunnel :: string where
  "no_tunnel = (case findTunnel [] ''a'' of Inl message \<Rightarrow> message)"

definition refusing_env :: connection_env where
  "refusing_env = example_env\<lparr>env_runtime := (\<lambda>call. Some no_tunnel)\<rparr>"

definition start_request :: http_request where
  "start_request = \<lparr>req_method = ''POST'', req_target = ''/api/v1/tunnels/a/start'', req_headers = [], req_body = []\<rparr>"

lemma start_refused:
  "handle_request refusing_env start_request example_service no_files =
     (Json_reply 400 (errorJson ''invalid_request'' no_tunnel), [Start_tunnel ''a''], example_service, no_files)"
proof -
  have "request_path start_request = ''/api/v1/tunnels/a/start''"
    by (simp add: start_request_def request_path_def)
  moreover have "splitPath ''/api/v1/tunnels/a/start'' = [''api'', ''v1'', ''tunnels'', ''a'', ''start'']"
    using splitPath_part [of "''api''" "''v1/tunnels/a/start''"] splitPath_part [of "''v1''" "''tunnels/a/start''"]
      splitPath_part [of "''tunnels''" "''a/start''"] splitPath_part [of "''a''" "''start''"] splitPath_last [of "''start''"]
    by (simp add: splitPath_slash)
  ultimately show ?thesis
    by (simp add: handle_request_def routes_def tunnel_routes_def upgrade_wanted_def perform_call_def tunnel_action_def
        start_request_def refusing_env_def kHealthPath_def kTunnelsPath_def kRuntimesPath_def kConfigPath_def kEventsPath_def)
qed


theorem start_producer_request_witness:
  "handle_request example_env
     \<lparr>req_method = ''POST'', req_target = producerActionPath ''a'' ''start'', req_headers = [],
      req_body = producer_body 500 3 ''hi''\<rparr> example_service no_files =
   (Json_reply 202 (''{'' @ q ''accepted'' @ '':true}''),
    [Start_producer ''a'' \<lparr>interval_ms = 500, send_count = 3, payload_prefix = ''hi''\<rparr>], example_service, no_files)"
proof -
  let ?request = "\<lparr>req_method = ''POST'', req_target = producerActionPath ''a'' ''start'', req_headers = [],
      req_body = producer_body 500 3 ''hi''\<rparr> :: http_request"
  have "list_all readable ''hi''"
    by code_simp
  moreover have "expected_options 500 3 ''hi'' =
      Inr \<lparr>interval_ms = 500, send_count = 3, payload_prefix = ''hi''\<rparr>"
    by (simp add: expected_options_def)
  ultimately show ?thesis
    using start_producer_request [of "''a''" "''hi''" ?request 500 3 example_env example_service no_files]
    by (simp add: example_env_def)
qed

definition example_event :: control_event where
  "example_event = \<lparr>event_kind_of = Event_lifecycle, event_severity_of = Severity_info, event_time = 5,
     event_alias = ''a'', event_message = ''Running'', event_snapshot = None\<rparr>"

definition upgrade_headers :: "(string \<times> string) list" where
  "upgrade_headers = [(''Upgrade'', ''websocket''), (''Sec-WebSocket-Key'', ''abc'')]"

definition upgrade_text :: string where
  "upgrade_text = request_text ''GET'' ''/api/v1/events'' upgrade_headers []"

lemma sendAll_whole: "s \<noteq> [] \<Longrightarrow> sendAll s [int (length s)] = (True, s)"
  by simp

lemma upgrade_received:
  "receiveRequest [upgrade_text] = Some \<lparr>req_method = ''GET'', req_target = ''/api/v1/events'',
     req_headers = [(''sec-websocket-key'', ''abc''), (''upgrade'', ''websocket'')], req_body = []\<rparr>"
proof -
  have headers: "collected upgrade_headers = [(''sec-websocket-key'', ''abc''), (''upgrade'', ''websocket'')]"
    by code_simp
  have tokens: "token ''GET''" "token ''/api/v1/events''" and plain: "list_all plain_header upgrade_headers"
    by code_simp+
  have len: "contentLength \<lparr>req_method = ''GET'', req_target = ''/api/v1/events'',
      req_headers = collected upgrade_headers, req_body = []\<rparr> = Some (length ([] :: string))"
    unfolding headers by (simp add: contentLength_def)
  have size: "length (request_text ''GET'' ''/api/v1/events'' upgrade_headers []) \<le> kMaximumRequestSize"
    by (simp add: request_text_def head_text_def header_text_def crlf_def kMaximumRequestSize_def upgrade_headers_def)
  have "concat [upgrade_text] = request_text ''GET'' ''/api/v1/events'' upgrade_headers []"
    "\<forall>piece \<in> set [upgrade_text]. piece \<noteq> []"
    by (simp_all add: upgrade_text_def request_text_def crlf_def)
  from receive_cutting [OF tokens plain len size this] show ?thesis
    by (simp only: headers)
qed

lemma upgrade_served:
  "\<exists>r. serveConnection example_env [upgrade_text] [int (length (upgrade_response (accept_key ''abc'')))] svc fs =
     (r, svc, fs) \<and> greeting r = Some [example_snapshot] \<and> calls_made r = []"
proof -
  have "lower ''websocket'' = ''websocket''"
    by code_simp
  then have "handle_request example_env \<lparr>req_method = ''GET'', req_target = ''/api/v1/events'',
      req_headers = [(''sec-websocket-key'', ''abc''), (''upgrade'', ''websocket'')], req_body = []\<rparr> svc fs =
    (Upgrade_reply (accept_key ''abc''), [], svc, fs)"
    by (simp add: handle_request_def routes_def request_path_def upgrade_wanted_def kHealthPath_def kTunnelsPath_def
        kRuntimesPath_def kConfigPath_def kEventsPath_def)
  moreover have "sendAll (upgrade_response (accept_key ''abc'')) [int (length (upgrade_response (accept_key ''abc'')))] =
      (True, upgrade_response (accept_key ''abc''))"
    by (rule sendAll_whole) (simp add: upgrade_response_def)
  ultimately show ?thesis
    by (simp add: serveConnection_def upgrade_received example_env_def del: sendAll.simps)
qed

end
