(* ===== verification/Example_Control.thy ===== *)
theory Example_Control
  imports Server_Stream Example_Config Example_Server
begin

text \<open>
  Closed instances of the theorems on the run of the control server. They model no code under \<open>src/\<close>.
\<close>

theorem replies_are_json_witness:
  "\<exists>j. read_json (errorJson ''not_found'' ''unknown control API endpoint'') = Some j \<and>
    (\<exists>code message. j = error_value code message)"
proof -
  let ?request = "\<lparr>req_method = ''POST'', req_target = ''/nothing'', req_headers = [], req_body = []\<rparr> :: http_request"
  have split: "splitPath ''/nothing'' = [''nothing'']"
    using splitPath_slash [of "''nothing''"] splitPath_last [of "''nothing''"] by simp
  have path: "request_path ?request = ''/nothing''"
    by (simp add: request_path_def)
  have "fst (handle_request example_env ?request svc no_files) =
      Json_reply 404 (errorJson ''not_found'' ''unknown control API endpoint'')" for svc
    by (simp add: handle_request_def routes_def path tunnel_routes_def split upgrade_wanted_def)
  from replies_are_json [OF this] show ?thesis
    by auto
qed

section \<open>A subscriber\<close>

text \<open>
  A connection becomes a web socket and is greeted; one event is published before it is registered and one
  after, and the second reaches it.
\<close>

definition second_event :: control_event where
  "second_event = example_event\<lparr>event_message := ''Stopped''\<rparr>"

definition whole :: "control_event \<Rightarrow> int list" where
  "whole e = [int (length (the (text_frame (eventJson e))))]"

lemma send_whole:
  assumes "length (eventJson e) \<le> 65535"
  shows "sendWebSocketText (eventJson e) (whole e) = (True, the (text_frame (eventJson e)))"
proof -
  obtain frame where "text_frame (eventJson e) = Some frame" "frame \<noteq> []"
    using assms by (simp add: text_frame_def)
  then show ?thesis
    using sendAll_whole [of frame] by (simp add: sendWebSocketText_def whole_def del: sendAll.simps)
qed

lemma example_lengths:
  "length (eventJson (greeting_event 7 example_snapshot)) \<le> 65535" "length (eventJson second_event) \<le> 65535"
proof -
  have "length (eventJson (greeting_event 7 example_snapshot)) < 500" "length (eventJson second_event) < 500"
    by code_simp+
  then show "length (eventJson (greeting_event 7 example_snapshot)) \<le> 65535" "length (eventJson second_event) \<le> 65535"
    by simp_all
qed

definition greeted_run :: "server_action list" where
  "greeted_run = [Test_accept, Accepted example_env [upgrade_text] [int (length (upgrade_response (accept_key ''abc'')))],
     Greet 7 (whole (greeting_event 7 example_snapshot)), Publish example_event]"

definition registered_run :: "server_action list" where
  "registered_run = [Publish second_event, Send_next 1 (whole second_event), End_broadcast 0]"

lemma greeted_state:
  "\<exists>s0. server_run greeted_run (start_server svc fs) = Some s0 \<and> accepting s0 = Greeting 0 [example_snapshot] 1 \<and>
     clients s0 = [] \<and> length (objects s0) = 1 \<and> stop_requested s0 = False \<and>
     broadcasts s0 = [\<lparr>carried = example_event, waiting = [], failures = [], finished = False\<rparr>]"
proof -
  obtain r where "serveConnection example_env [upgrade_text] [int (length (upgrade_response (accept_key ''abc'')))] svc fs =
      (r, svc, fs)" "greeting r = Some [example_snapshot]"
    using upgrade_served by blast
  then show ?thesis
    using send_whole [OF example_lengths(1)]
    by (simp add: greeted_run_def start_server_def test_accept_def accept_connection_def greet_def send_text_def
        begin_broadcast_def)
qed

lemma registered_state:
  assumes "accepting s0 = Greeting 0 [example_snapshot] 1" and "clients s0 = []" and "length (objects s0) = 1"
    and "broadcasts s0 = [\<lparr>carried = example_event, waiting = [], failures = [], finished = False\<rparr>]"
  obtains s where "server_run (Register # registered_run) s0 = Some s" "clients s = [0]"
     "map carried (broadcasts s) = [example_event, second_event]" "concat (map failures (broadcasts s)) = []"
     "deliveries 0 (Register # registered_run) s0 = [1]"
proof -
  define s1 where "s1 = s0\<lparr>clients := [0], accepting := Accept_test\<rparr>"
  define s2 where "s2 = begin_broadcast second_event s1"
  have s1: "server_step Register s0 = Some s1"
    using assms(1,2) by (simp add: register_client_def s1_def)
  have s2: "server_step (Publish second_event) s1 = Some s2" "clients s2 = [0]" "broadcasts s2 =
      [\<lparr>carried = example_event, waiting = [], failures = [], finished = False\<rparr>,
       \<lparr>carried = second_event, waiting = [0], failures = [], finished = False\<rparr>]"
    using assms(4) by (simp_all add: s2_def begin_broadcast_def s1_def)
  obtain s3 where s3: "server_step (Send_next 1 (whole second_event)) s2 = Some s3" "clients s3 = [0]" "broadcasts s3 =
      [\<lparr>carried = example_event, waiting = [], failures = [], finished = False\<rparr>,
       \<lparr>carried = second_event, waiting = [], failures = [], finished = False\<rparr>]"
    using send_whole [OF example_lengths(2)] s2(2,3) by (simp add: send_next_def send_text_def update_broadcast_def)
  obtain s4 where s4: "server_step (End_broadcast 0) s3 = Some s4" "clients s4 = [0]" "broadcasts s4 =
      [\<lparr>carried = example_event, waiting = [], failures = [], finished = True\<rparr>,
       \<lparr>carried = second_event, waiting = [], failures = [], finished = False\<rparr>]"
    using s3(2,3) by (simp add: end_broadcast_def update_broadcast_def)
  have "deliveries 0 (Register # registered_run) s0 = [1]"
    using s1 s2(1) s3(1) s4(1) s2(3) by (simp add: registered_run_def delivered_def del: server_step.simps)
  moreover have "server_run (Register # registered_run) s0 = Some s4"
    using s1 s2(1) s3(1) s4(1) by (simp add: registered_run_def del: server_step.simps)
  ultimately show ?thesis
    using s4(2,3) that by simp
qed

theorem subscriber_stream_witness:
  "\<exists>s time. server_run (greeted_run @ Register # registered_run) (start_server Example_Server.example_service no_files) = Some s \<and>
    clients s = [0] \<and> map carried (broadcasts s) = [example_event, second_event] \<and>
    read_frames (objects s ! 0) = Some [eventJson (greeting_event time example_snapshot), eventJson second_event]"
proof -
  obtain s0 where s0: "server_run greeted_run (start_server Example_Server.example_service no_files) = Some s0"
      "accepting s0 = Greeting 0 [example_snapshot] 1" "clients s0 = []" "length (objects s0) = 1"
      "broadcasts s0 = [\<lparr>carried = example_event, waiting = [], failures = [], finished = False\<rparr>]"
    using greeted_state by blast
  obtain s where s: "server_run (Register # registered_run) s0 = Some s" "clients s = [0]"
      "map carried (broadcasts s) = [example_event, second_event]" "concat (map failures (broadcasts s)) = []"
      "deliveries 0 (Register # registered_run) s0 = [1]"
    by (rule registered_state [OF s0(2-5)])
  have "\<forall>b \<in> set (broadcasts s). 0 \<notin> set (failures b)"
    using s(4) by simp
  from subscriber_stream [OF s0(1) _ s(1) this] s0(2) obtain times where times: "length times = 1"
    "read_frames (objects s ! 0) = Some (map eventJson (map2 greeting_event times [example_snapshot] @
       map (\<lambda>n. carried (broadcasts s ! n)) [1]))"
    unfolding s(5) Let_def by auto
  have "carried (broadcasts s ! 1) = second_event"
  proof -
    have "carried (broadcasts s ! 1) = map carried (broadcasts s) ! 1"
      using arg_cong [OF s(3), of length] by simp
    then show ?thesis
      by (simp add: s(3))
  qed
  with times obtain time where "read_frames (objects s ! 0) =
      Some [eventJson (greeting_event time example_snapshot), eventJson second_event]"
    by (cases times) auto
  moreover have "server_run (greeted_run @ Register # registered_run) (start_server Example_Server.example_service no_files) = Some s"
    unfolding run_steps_append s0(1) using s(1) by (simp del: run_steps.simps)
  ultimately show ?thesis
    using s(2,3) by (intro exI [of _ s] exI [of _ time]) (simp del: run_steps.simps)
qed

theorem server_invariant_witness:
  "\<exists>svc s. construct_service example_os (\<lambda>path. Some sample_text) ''config.toml'' = Inr svc \<and>
    server_run (greeted_run @ Register # registered_run) (start_server svc (\<lambda>path. Some sample_text)) = Some s \<and>
    clients s = [0] \<and> construct_service example_os (server_files s) ''config.toml'' = Inr (server_service s) \<and>
    (\<exists>es. map_option (map read_json) (read_frames (objects s ! 0)) = Some (map (Some \<circ> event_value) es))"
proof -
  obtain svc where svc: "construct_service example_os (\<lambda>path. Some sample_text) ''config.toml'' = Inr svc"
    by (simp add: construct_service_def loadConfiguration_def example_sample)
  obtain s0 where s0: "server_run greeted_run (start_server svc (\<lambda>path. Some sample_text)) = Some s0"
      "accepting s0 = Greeting 0 [example_snapshot] 1" "clients s0 = []" "length (objects s0) = 1"
      "broadcasts s0 = [\<lparr>carried = example_event, waiting = [], failures = [], finished = False\<rparr>]"
    using greeted_state by blast
  obtain s where s: "server_run (Register # registered_run) s0 = Some s" "clients s = [0]"
      "concat (map failures (broadcasts s)) = []"
    by (rule registered_state [OF s0(2-5)])
  have run: "server_run (greeted_run @ Register # registered_run) (start_server svc (\<lambda>path. Some sample_text)) = Some s"
    unfolding run_steps_append s0(1) using s(1) by (simp del: run_steps.simps)
  have "put_text [upgrade_text] = None"
    by (simp add: put_text_def upgrade_received puts_config_def)
  then have quiet: "\<not> list_ex loses_file (greeted_run @ Register # registered_run)"
      "\<not> list_ex cuts_text (greeted_run @ Register # registered_run)"
    by (simp_all add: greeted_run_def registered_run_def)
  have "list_all (same_machine example_os) (greeted_run @ Register # registered_run)"
    by (simp add: greeted_run_def registered_run_def) (simp add: example_env_def)
  from server_invariant [OF svc this run] quiet s(2,3) svc run show ?thesis
    by auto
qed

theorem server_stops_witness:
  "\<exists>s'. server_run [hd (tl greeted_run)]
      (requestStop ((start_server Example_Server.example_service no_files)\<lparr>accepting := Accept_wait\<rparr>)) = Some s' \<and>
    accepting (test_accept s') = Accept_ended"
proof -
  let ?s = "(start_server Example_Server.example_service no_files)\<lparr>accepting := Accept_wait\<rparr>"
  obtain s' where s': "server_run [hd (tl greeted_run)] (requestStop ?s) = Some s'"
    by (simp add: requestStop_def greeted_run_def)
  with server_stops [OF this] show ?thesis
    by blast
qed

end
