(* ===== verification/Socket_Owner.thy ===== *)
theory Socket_Owner
  imports Network "HOL-Library.Multiset"
begin

unbundle bit_operations_syntax

text \<open>
  The rest of \<open>src/src/Network.h\<close> and \<open>src/src/Network.cpp\<close>: start-up of the network, blocking mode, and
  the class \<open>Socket\<close>, whose objects own a socket handle each. The contract of the class is that a handle
  which is given to an object is closed once, or released.
\<close>

section \<open>Start-up and blocking mode\<close>

definition WSAVERNOTSUPPORTED :: int where "WSAVERNOTSUPPORTED = 10092"

text \<open>What \<open>WSAStartup\<close> returns, and the two bytes of the version it reports.\<close>

record startup_answer =
  startup_result :: int
  version_low :: nat
  version_high :: nat

datatype startup_call = Wsa_startup | Wsa_cleanup | At_exit_cleanup

text \<open>The calls that are made, and the error code when the result is \<open>false\<close>.\<close>

definition initializeNetwork :: "platform \<Rightarrow> startup_answer \<Rightarrow> startup_call list \<times> int option" where
  "initializeNetwork p a =
     (if p = Windows then
        (if startup_result a \<noteq> 0 then ([Wsa_startup], Some (startup_result a))
         else if version_low a \<noteq> 2 \<or> version_high a \<noteq> 2 then ([Wsa_startup, Wsa_cleanup], Some WSAVERNOTSUPPORTED)
         else ([Wsa_startup, At_exit_cleanup], None))
      else ([], None))"

text \<open>The winsock library stays loaded exactly when the start-up succeeds.\<close>

lemma startup_balanced:
  "snd (initializeNetwork p a) \<noteq> None \<Longrightarrow> startup_result a = 0 \<Longrightarrow> Wsa_cleanup \<in> set (fst (initializeNetwork p a))"
  by (cases "p = Windows") (auto simp: initializeNetwork_def)

definition O_NONBLOCK :: "platform \<Rightarrow> u32" where
  "O_NONBLOCK p = (case p of MacOS \<Rightarrow> 0x4 | _ \<Rightarrow> 0x800)"

datatype mode_call = Ioctl_fionbio u32 | Fcntl_setfl u32

text \<open>
  \<open>flags\<close> is what \<open>fcntl(F_GETFL)\<close> returns, \<open>sys\<close> whether a call that changes the mode succeeds. The result
  is the call that was made and whether the mode is set.
\<close>

definition setSocketBlocking :: "platform \<Rightarrow> bool \<Rightarrow> int \<Rightarrow> (mode_call \<Rightarrow> bool) \<Rightarrow> mode_call option \<times> bool" where
  "setSocketBlocking p blocking flags sys =
     (if p = Windows then
        (let c = Ioctl_fionbio (if blocking then 0 else 1) in (Some c, sys c))
      else if 0 \<le> flags then
        (let c = Fcntl_setfl (if blocking then word_of_int flags AND NOT (O_NONBLOCK p) else word_of_int flags OR O_NONBLOCK p)
         in (Some c, sys c))
      else (None, False))"

section \<open>Owners of handles\<close>

type_synonym handle = int

definition kInvalidSocket :: "platform \<Rightarrow> handle" where
  "kInvalidSocket p = (if p = Windows then 2 ^ 64 - 1 else - 1)"

text \<open>
  The objects of class \<open>Socket\<close> in the order of their construction (\<open>None\<close> once an object is destroyed),
  the handles that were closed and those that \<open>release\<close> gave away, and, as a ghost, the valid handles that
  objects were given.
\<close>

record sockets =
  objects :: "handle option list"
  closes :: "handle list"
  releases :: "handle list"
  given :: "handle list"

definition no_sockets :: sockets where
  "no_sockets = \<lparr>objects = [], closes = [], releases = [], given = []\<rparr>"

definition alive :: "nat \<Rightarrow> sockets \<Rightarrow> bool" where
  "alive i w \<longleftrightarrow> i < length (objects w) \<and> objects w ! i \<noteq> None"

definition get :: "nat \<Rightarrow> sockets \<Rightarrow> handle" where
  "get i w = the (objects w ! i)"

definition valid :: "platform \<Rightarrow> nat \<Rightarrow> sockets \<Rightarrow> bool" where
  "valid p i w \<longleftrightarrow> get i w \<noteq> kInvalidSocket p"

definition closeSocket :: "platform \<Rightarrow> handle \<Rightarrow> sockets \<Rightarrow> sockets" where
  "closeSocket p h w = (if h = kInvalidSocket p then w else w\<lparr>closes := closes w @ [h]\<rparr>)"

definition set_handle :: "nat \<Rightarrow> handle \<Rightarrow> sockets \<Rightarrow> sockets" where
  "set_handle i h w = w\<lparr>objects := (objects w)[i := Some h]\<rparr>"

definition take_handle :: "platform \<Rightarrow> nat \<Rightarrow> sockets \<Rightarrow> handle \<times> sockets" where
  "take_handle p i w = (get i w, set_handle i (kInvalidSocket p) w)"

definition reset :: "platform \<Rightarrow> nat \<Rightarrow> handle \<Rightarrow> sockets \<Rightarrow> sockets" where
  "reset p i h w = set_handle i h (closeSocket p (get i w) w)"

definition new_object :: "handle \<Rightarrow> sockets \<Rightarrow> sockets" where
  "new_object h w = w\<lparr>objects := objects w @ [Some h]\<rparr>"

definition destroy :: "platform \<Rightarrow> nat \<Rightarrow> sockets \<Rightarrow> sockets" where
  "destroy p i w = (let w = reset p i (kInvalidSocket p) w in w\<lparr>objects := (objects w)[i := None]\<rparr>)"

definition move_construct :: "platform \<Rightarrow> nat \<Rightarrow> sockets \<Rightarrow> sockets" where
  "move_construct p j w = (let (h, w) = take_handle p j w in new_object h w)"

definition move_assign :: "platform \<Rightarrow> nat \<Rightarrow> nat \<Rightarrow> sockets \<Rightarrow> sockets" where
  "move_assign p i j w = (if i = j then w else (let (h, w) = take_handle p j w in reset p i h w))"

text \<open>A handle comes from outside.\<close>

definition give :: "platform \<Rightarrow> handle \<Rightarrow> sockets \<Rightarrow> sockets" where
  "give p h w = (if h = kInvalidSocket p then w else w\<lparr>given := given w @ [h]\<rparr>)"

datatype socket_op =
    Default_construct
  | Construct handle
  | Move_construct nat
  | Move_assign nat nat
  | Release nat
  | Reset nat handle
  | Destroy nat

text \<open>Using an object that does not exist (yet, or any more) is undefined.\<close>

fun socket_step :: "platform \<Rightarrow> socket_op \<Rightarrow> sockets \<Rightarrow> sockets option" where
  "socket_step p Default_construct w = Some (new_object (kInvalidSocket p) w)"
| "socket_step p (Construct h) w = Some (new_object h (give p h w))"
| "socket_step p (Move_construct j) w = (if alive j w then Some (move_construct p j w) else None)"
| "socket_step p (Move_assign i j) w = (if alive i w \<and> alive j w then Some (move_assign p i j w) else None)"
| "socket_step p (Release i) w =
     (if alive i w then
        (let (h, w) = take_handle p i w
         in Some (if h = kInvalidSocket p then w else w\<lparr>releases := releases w @ [h]\<rparr>))
      else None)"
| "socket_step p (Reset i h) w = (if alive i w then Some (reset p i h (give p h w)) else None)"
| "socket_step p (Destroy i) w = (if alive i w then Some (destroy p i w) else None)"

abbreviation socket_run :: "platform \<Rightarrow> socket_op list \<Rightarrow> sockets \<Rightarrow> sockets option" where
  "socket_run p \<equiv> run_steps (socket_step p)"

section \<open>The balance of handles\<close>

definition held :: "platform \<Rightarrow> handle option \<Rightarrow> handle list" where
  "held p x = (case x of None \<Rightarrow> [] | Some h \<Rightarrow> if h = kInvalidSocket p then [] else [h])"

definition owned :: "platform \<Rightarrow> sockets \<Rightarrow> handle list" where
  "owned p w = concat (map (held p) (objects w))"

definition balanced :: "platform \<Rightarrow> sockets \<Rightarrow> bool" where
  "balanced p w \<longleftrightarrow> mset (given w) = mset (owned p w) + mset (closes w) + mset (releases w)"

lemma mset_held_update:
  "i < length xs \<Longrightarrow>
   mset (concat (map (held p) (xs[i := x]))) + mset (held p (xs ! i)) = mset (concat (map (held p) xs)) + mset (held p x)"
proof (induction xs arbitrary: i)
  case (Cons y ys)
  then show ?case
    by (cases i) (auto simp: add_ac)
qed simp

lemma held_invalid [simp]: "held p (Some (kInvalidSocket p)) = []" "held p None = []"
  by (simp_all add: held_def)

text \<open>Every operation moves handles between the four places.\<close>

lemma owned_set_handle:
  "alive i w \<Longrightarrow> mset (owned p (set_handle i h w)) + mset (held p (Some (get i w))) = mset (owned p w) + mset (held p (Some h))"
  using mset_held_update [of i "objects w" p "Some h"]
  by (auto simp: alive_def owned_def set_handle_def get_def)

lemma owned_new [simp]: "mset (owned p (new_object h w)) = mset (owned p w) + mset (held p (Some h))"
  by (simp add: owned_def new_object_def)

lemma socket_frame [simp]:
  "closes (set_handle i h w) = closes w" "releases (set_handle i h w) = releases w" "given (set_handle i h w) = given w"
  "closes (new_object h w) = closes w" "releases (new_object h w) = releases w" "given (new_object h w) = given w"
  "mset (closes (closeSocket p h w)) = mset (closes w) + mset (held p (Some h))"
  "releases (closeSocket p h w) = releases w" "given (closeSocket p h w) = given w" "objects (closeSocket p h w) = objects w"
  "closes (give p h w) = closes w" "releases (give p h w) = releases w" "objects (give p h w) = objects w"
  "mset (given (give p h w)) = mset (given w) + mset (held p (Some h))"
  by (simp_all add: set_handle_def new_object_def closeSocket_def give_def held_def)

lemma same_objects [simp]:
  "owned p (closeSocket p' h w) = owned p w" "owned p (give p' h w) = owned p w"
  "alive i (closeSocket p' h w) = alive i w" "alive i (give p' h w) = alive i w"
  "get i (closeSocket p' h w) = get i w" "get i (give p' h w) = get i w"
  by (simp_all add: owned_def alive_def get_def)

lemma alive_set_handle [simp]: "alive i (set_handle j h w) \<longleftrightarrow> alive i w \<or> i = j \<and> j < length (objects w)"
  by (cases "i = j") (auto simp: alive_def set_handle_def)

lemma get_set_handle [simp]:
  "i \<noteq> j \<Longrightarrow> get i (set_handle j h w) = get i w" "j < length (objects w) \<Longrightarrow> get j (set_handle j h w) = h"
  by (simp_all add: get_def set_handle_def)

lemma alive_length: "alive i w \<Longrightarrow> i < length (objects w)"
  by (simp add: alive_def)

lemma take_handle_owned:
  "alive i w \<Longrightarrow> mset (owned p (set_handle i (kInvalidSocket p) w)) + mset (held p (Some (get i w))) = mset (owned p w)"
  using owned_set_handle [of i w p "kInvalidSocket p"] by simp

lemma reset_balance:
  assumes "alive i w"
  shows "mset (owned p (reset p i h w)) + mset (closes (reset p i h w)) =
      mset (owned p w) + mset (closes w) + mset (held p (Some h))"
    and "releases (reset p i h w) = releases w" and "given (reset p i h w) = given w"
  using owned_set_handle [of i "closeSocket p (get i w) w" p h] assms
  by (auto simp: reset_def add_ac)

lemma owned_destroyed:
  "alive i w \<Longrightarrow> get i w = kInvalidSocket p \<Longrightarrow> mset (owned p (w\<lparr>objects := (objects w)[i := None]\<rparr>)) = mset (owned p w)"
  using mset_held_update [of i "objects w" p None] by (auto simp: alive_def get_def owned_def)

lemma socket_step_balanced:
  assumes "socket_step p c w = Some w'" and "balanced p w"
  shows "balanced p w'"
proof (cases c)
  case (Move_assign i j)
  show ?thesis
  proof (cases "i = j")
    case False
    then show ?thesis
      using assms Move_assign take_handle_owned [of j w p]
        reset_balance [of i "set_handle j (kInvalidSocket p) w" p "get j w"]
      by (auto simp: move_assign_def take_handle_def balanced_def add_ac split: if_splits)
  qed (use assms Move_assign in \<open>auto simp: move_assign_def split: if_splits\<close>)
next
  case (Destroy i)
  then have i: "alive i w" "w' = destroy p i w"
    using assms(1) by (auto split: if_splits)
  let ?r = "reset p i (kInvalidSocket p) w"
  have "alive i ?r" "get i ?r = kInvalidSocket p"
    using i(1) alive_length [OF i(1)] by (auto simp: reset_def)
  with assms(2) i reset_balance [OF i(1), of p "kInvalidSocket p"] owned_destroyed [of i ?r p] show ?thesis
    by (auto simp: destroy_def balanced_def Let_def)
next
  case (Reset i h)
  then show ?thesis
    using assms reset_balance [of i "give p h w" p h]
    by (auto simp: balanced_def add_ac split: if_splits)
next
  case (Move_construct j)
  then show ?thesis
    using assms take_handle_owned [of j w p]
    by (auto simp: move_construct_def take_handle_def balanced_def add_ac split: if_splits)
next
  case (Release i)
  then show ?thesis
    using assms take_handle_owned [of i w p]
    by (auto simp: take_handle_def balanced_def held_def owned_def add_ac split: if_splits)
qed (use assms in \<open>auto simp: balanced_def add_ac\<close>)

interpretation owner: step_invariant "socket_step p" "\<lambda>c. True" "balanced p" for p
  by unfold_locales (rule socket_step_balanced)

text \<open>
  C15. Handles are owned linearly. After any sequence of constructions, moves, resets, releases and
  destructions the valid handles that were given to objects are, counted with multiplicity, those held by
  objects, those closed and those released. So handles that were given once are held by one object at most,
  are closed once at most and not while they are held, and when all objects are destroyed each of them has
  been closed exactly once or released.
\<close>

theorem socket_ownership:
  assumes "socket_run p cs no_sockets = Some w"
  shows "mset (given w) = mset (owned p w) + mset (closes w) + mset (releases w) \<and>
    (distinct (given w) \<longrightarrow> distinct (owned p w @ closes w @ releases w)) \<and>
    (list_all (\<lambda>x. x = None) (objects w) \<longrightarrow> mset (given w) = mset (closes w @ releases w))"
proof -
  have "balanced p no_sockets"
    by (simp add: balanced_def no_sockets_def owned_def)
  then have m: "mset (given w) = mset (owned p w @ closes w @ releases w)"
    using owner.run_keeps [OF assms] by (simp add: list_all_iff balanced_def)
  then have "distinct (given w) = distinct (owned p w @ closes w @ releases w)"
    by (rule mset_eq_imp_distinct_iff)
  moreover have "owned p w = []" if "list_all (\<lambda>x. x = None) (objects w)"
    using that by (auto simp: owned_def list_all_iff)
  ultimately show ?thesis
    using m by (simp add: add.assoc)
qed

text \<open>A connection: the accepted socket is moved into the parameter and into a subscriber, which is dropped.\<close>

theorem socket_ownership_witness:
  "\<exists>w. socket_run Linux [Construct 7, Move_construct 0, Move_construct 1, Destroy 1, Destroy 0, Destroy 2] no_sockets = Some w \<and>
     mset (given w) = {#7#} \<and> mset (closes w @ releases w) = {#7#} \<and> objects w = [None, None, None]"
proof -
  let ?cs = "[Construct 7, Move_construct 0, Move_construct 1, Destroy 1, Destroy 0, Destroy 2]"
  obtain w where w: "socket_run Linux ?cs no_sockets = Some w" "objects w = [None, None, None]" "given w = [7]"
    by (simp add: no_sockets_def new_object_def give_def alive_def move_construct_def take_handle_def get_def
        set_handle_def destroy_def reset_def closeSocket_def kInvalidSocket_def Let_def)
  with socket_ownership [OF w(1)] show ?thesis
    by auto
qed

end
