(* ===== verification/Main_Program.thy ===== *)
theory Main_Program
  imports Control_Service Producer Socket_Owner
begin

text \<open>
  \<open>src/src/main.cpp\<close>: the options of the named commands, the editor command, the texts that are printed, and
  the dispatch. What a tunnel, a producer, the control server or an editor does once it is running is an
  argument.
\<close>

section \<open>Options\<close>

text \<open>The words of the command line after the name of the command; the default path is looked up at the end.\<close>

record command_arguments =
  arg_config_path :: string
  positional :: "string list"
  arg_verbose :: bool

definition with_default_path :: "platform \<Rightarrow> (string \<Rightarrow> string option) \<Rightarrow> string \<Rightarrow> string + string" where
  "with_default_path p env path = (if path = [] then defaultConfigurationPath p env else Inr path)"

fun argument_loop :: "bool \<Rightarrow> string list \<Rightarrow> command_arguments \<Rightarrow> string + command_arguments" where
  "argument_loop allow [] a = Inr a"
| "argument_loop allow (w # ws) a =
     (if w = ''--config'' then
        (case ws of
           [] \<Rightarrow> Inl ''--config requires a file path''
         | path # ws' \<Rightarrow> argument_loop allow ws' (a\<lparr>arg_config_path := path\<rparr>))
      else if w = ''--verbose'' then
        (if \<not> allow then Inl ''--verbose is only supported by tunnel run''
         else argument_loop allow ws (a\<lparr>arg_verbose := True\<rparr>))
      else argument_loop allow ws (a\<lparr>positional := positional a @ [w]\<rparr>))"

definition parseCommandArguments ::
  "platform \<Rightarrow> (string \<Rightarrow> string option) \<Rightarrow> bool \<Rightarrow> string list \<Rightarrow> string + command_arguments" where
  "parseCommandArguments p env allow ws =
     and_then (argument_loop allow ws \<lparr>arg_config_path = [], positional = [], arg_verbose = False\<rparr>) (\<lambda>a.
     and_then (with_default_path p env (arg_config_path a)) (\<lambda>path. Inr (a\<lparr>arg_config_path := path\<rparr>)))"

text \<open>Whatever is thrown becomes the one message; \<open>std::size_t\<close> has 64 bits.\<close>

definition parsePositiveSize :: "string \<Rightarrow> string \<Rightarrow> string + nat" where
  "parsePositiveSize s option_name =
     (let failure = Inl (option_name @ '' must be a positive integer'')
      in case stoul s of
           Inl _ \<Rightarrow> failure
         | Inr (parsed, parsed_length) \<Rightarrow> if parsed_length \<noteq> length s \<or> parsed = 0 then failure else Inr parsed)"

record control_command =
  control_path :: string
  control_port :: u16

fun control_loop :: "string list \<Rightarrow> control_command \<Rightarrow> string + control_command" where
  "control_loop [] c = Inr c"
| "control_loop (w # ws) c =
     (if w = ''--config'' then
        (case ws of
           [] \<Rightarrow> Inl ''--config requires a file path''
         | path # ws' \<Rightarrow> control_loop ws' (c\<lparr>control_path := path\<rparr>))
      else if w = ''--port'' then
        (case ws of
           [] \<Rightarrow> Inl ''--port requires a value''
         | v # ws' \<Rightarrow>
             and_then (parsePositiveSize v ''--port'') (\<lambda>port.
               if 65535 < port then Inl ''--port must be between 1 and 65535''
               else control_loop ws' (c\<lparr>control_port := of_nat port\<rparr>)))
      else Inl (''unknown control option '' @ quoted w))"

definition parseControlCommand :: "platform \<Rightarrow> (string \<Rightarrow> string option) \<Rightarrow> string list \<Rightarrow> string + control_command" where
  "parseControlCommand p env ws =
     (case ws of
        [] \<Rightarrow> Inl ''control requires the subcommand: serve''
      | w # ws' \<Rightarrow>
          if w \<noteq> ''serve'' then Inl ''control requires the subcommand: serve''
          else
            and_then (control_loop ws' \<lparr>control_path = [], control_port = 8765\<rparr>) (\<lambda>c.
            and_then (with_default_path p env (control_path c)) (\<lambda>path. Inr (c\<lparr>control_path := path\<rparr>))))"

record producer_command =
  producer_path :: string
  producer_alias :: string
  producer_opts :: producer_options
  producer_verbose :: bool

definition set_interval :: "nat \<Rightarrow> producer_command \<Rightarrow> producer_command" where
  "set_interval n c = c\<lparr>producer_opts := (producer_opts c)\<lparr>interval_ms := of_nat n\<rparr>\<rparr>"

definition set_count :: "nat \<Rightarrow> producer_command \<Rightarrow> producer_command" where
  "set_count n c = c\<lparr>producer_opts := (producer_opts c)\<lparr>send_count := of_nat n\<rparr>\<rparr>"

definition set_prefix :: "string \<Rightarrow> producer_command \<Rightarrow> producer_command" where
  "set_prefix s c = c\<lparr>producer_opts := (producer_opts c)\<lparr>payload_prefix := s\<rparr>\<rparr>"

fun producer_words :: "string list \<Rightarrow> producer_command \<Rightarrow> string + producer_command" where
  "producer_words [] c = Inr c"
| "producer_words (w # ws) c =
     (if w = ''--config'' then
        (case ws of
           [] \<Rightarrow> Inl ''--config requires a file path''
         | path # ws' \<Rightarrow> producer_words ws' (c\<lparr>producer_path := path\<rparr>))
      else if w = ''--verbose'' then producer_words ws (c\<lparr>producer_verbose := True\<rparr>)
      else if w = ''--interval-ms'' then
        (case ws of
           [] \<Rightarrow> Inl ''--interval-ms requires a value''
         | v # ws' \<Rightarrow>
             and_then (parsePositiveSize v ''--interval-ms'') (\<lambda>interval.
               if 4294967295 < interval then Inl ''--interval-ms is too large''
               else producer_words ws' (set_interval interval c)))
      else if w = ''--count'' then
        (case ws of
           [] \<Rightarrow> Inl ''--count requires a value''
         | v # ws' \<Rightarrow>
             and_then (parsePositiveSize v ''--count'') (\<lambda>n. producer_words ws' (set_count n c)))
      else if w = ''--payload-prefix'' then
        (case ws of
           [] \<Rightarrow> Inl ''--payload-prefix requires a value''
         | v # ws' \<Rightarrow> producer_words ws' (set_prefix v c))
      else if w \<noteq> [] \<and> hd w = CHR ''-'' then Inl (''unknown producer option '' @ quoted w)
      else if producer_alias c = [] then producer_words ws (c\<lparr>producer_alias := w\<rparr>)
      else Inl ''producer requires exactly one client alias'')"

definition parseProducerCommand :: "platform \<Rightarrow> (string \<Rightarrow> string option) \<Rightarrow> string list \<Rightarrow> string + producer_command" where
  "parseProducerCommand p env ws =
     and_then (producer_words ws \<lparr>producer_path = [], producer_alias = [], producer_opts = default_options,
         producer_verbose = False\<rparr>) (\<lambda>c.
       if producer_alias c = [] then Inl ''producer requires exactly one client alias''
       else and_then (with_default_path p env (producer_path c)) (\<lambda>path. Inr (c\<lparr>producer_path := path\<rparr>)))"

section \<open>The editor\<close>

text \<open>The loop of \<open>splitEditorCommand\<close>; the quote that is open, if one is, and whether the last character escapes.\<close>

record splitter =
  finished_words :: "string list"
  current_word :: string
  open_quote :: "char option"
  escaping :: bool

definition split_char :: "char \<Rightarrow> splitter \<Rightarrow> splitter" where
  "split_char c s =
     (if escaping s then s\<lparr>current_word := current_word s @ [c], escaping := False\<rparr>
      else if c = CHR 0x5C then s\<lparr>escaping := True\<rparr>
      else if open_quote s \<noteq> None then
        (if open_quote s = Some c then s\<lparr>open_quote := None\<rparr> else s\<lparr>current_word := current_word s @ [c]\<rparr>)
      else if c = CHR 0x27 \<or> c = CHR 0x22 then s\<lparr>open_quote := Some c\<rparr>
      else if isspace c then
        (if current_word s \<noteq> [] then s\<lparr>finished_words := finished_words s @ [current_word s], current_word := []\<rparr> else s)
      else s\<lparr>current_word := current_word s @ [c]\<rparr>)"

definition start_splitter :: splitter where
  "start_splitter = \<lparr>finished_words = [], current_word = [], open_quote = None, escaping = False\<rparr>"

definition splitEditorCommand :: "string \<Rightarrow> string + string list" where
  "splitEditorCommand command =
     (let s = fold split_char command start_splitter
      in if escaping s \<or> open_quote s \<noteq> None then Inl ''VISUAL or EDITOR contains an incomplete escape or quote''
         else
           (let arguments = finished_words s @ (if current_word s \<noteq> [] then [current_word s] else [])
            in if arguments = [] then Inl ''VISUAL or EDITOR must name an editor executable'' else Inr arguments))"

definition editorCommand :: "platform \<Rightarrow> (string \<Rightarrow> string option) \<Rightarrow> string + string list" where
  "editorCommand p env =
     (let set_var = (\<lambda>name. case env name of Some v \<Rightarrow> if v \<noteq> [] then Some v else None | None \<Rightarrow> None)
      in case set_var ''VISUAL'' of
           Some visual \<Rightarrow> splitEditorCommand visual
         | None \<Rightarrow>
             (case set_var ''EDITOR'' of
                Some editor \<Rightarrow> splitEditorCommand editor
              | None \<Rightarrow> Inr (case p of Windows \<Rightarrow> [''notepad.exe''] | MacOS \<Rightarrow> [''open'', ''-W'', ''-e''] | Linux \<Rightarrow> [''vi''])))"

text \<open>How the editor ended: it could not be launched or waited for, or it exited with a status, or was killed.\<close>

datatype editor_result = Not_launched | Not_waited | Exit_status int | Killed

definition editConfiguration ::
  "platform \<Rightarrow> (string \<Rightarrow> string option) \<Rightarrow> (string list \<Rightarrow> editor_result) \<Rightarrow> string \<Rightarrow> string + string list" where
  "editConfiguration p env launch path =
     and_then (editorCommand p env) (\<lambda>command.
       (let arguments = command @ [path]
        in case launch arguments of
             Not_launched \<Rightarrow> Inl ''could not launch the configured editor''
           | Not_waited \<Rightarrow> Inl ''could not wait for the configured editor''
           | Killed \<Rightarrow> Inl ''editor exited unsuccessfully''
           | Exit_status status \<Rightarrow>
               if status = 0 then Inr arguments
               else Inl (if p = Windows then ''editor exited with status '' @ show_int status
                 else ''editor exited unsuccessfully'')))"

section \<open>Printed texts\<close>

definition compactTunnelContext :: "config \<Rightarrow> string" where
  "compactTunnelContext cfg =
     (if is_client cfg then
        ''CLIENT '' @ endpoint (udp_dst_ip cfg) (udp_dst_port cfg) @ '' -> TCP '' @ endpoint (tcp_srv_ip cfg) (tcp_srv_port cfg)
      else
        ''SERVER TCP :'' @ to_string (unat (tcp_srv_port cfg)) @ '' -> '' @
        (if use_clt_grp cfg then ''client group'' else endpoint (udp_dst_ip cfg) (udp_dst_port cfg)))"

definition compactProducerContext :: "config \<Rightarrow> producer_options \<Rightarrow> string" where
  "compactProducerContext cfg opts =
     ''PRODUCER -> '' @ endpoint (udp_dst_ip cfg) (udp_dst_port cfg) @ '' @ '' @ to_string (unat (interval_ms opts)) @ '' ms''"

text \<open>The table of tunnels: three columns as wide as their longest entry, two spaces, the command.\<close>

definition table_row :: "nat \<Rightarrow> nat \<Rightarrow> nat \<Rightarrow> string \<Rightarrow> string \<Rightarrow> string \<Rightarrow> string \<Rightarrow> string" where
  "table_row w1 w2 w3 a b c d =
     pad_right w1 a @ ''  '' @ pad_right w2 b @ ''  '' @ pad_right w3 c @ ''  '' @ d @ newline"

definition printTunnelList :: "tunnel_summary list \<Rightarrow> string" where
  "printTunnelList rows =
     (let alias_width = foldl max (length ''Alias'') (map (length \<circ> summary_alias) rows);
          mode_width = foldl max (length ''Mode'') (map (length \<circ> summary_mode) rows);
          destination_width = foldl max (length ''UDP group / destination'') (map (length \<circ> summary_destination) rows);
          row = table_row alias_width mode_width destination_width
      in row ''Alias'' ''Mode'' ''UDP group / destination'' ''Equivalent direct command'' @
         row ''-----'' ''----'' ''-----------------------'' ''-------------------------'' @
         concat (map (\<lambda>r. row (c_str (summary_alias r)) (c_str (summary_mode r)) (c_str (summary_destination r))
           (c_str (equivalent_direct_command r))) rows))"

definition printTunnel :: "named_tunnel \<Rightarrow> string" where
  "printTunnel t =
     (let cfg = tunnel_config t;
          iface = (if udp_iface_reference cfg = [] then udp_iface_ip cfg else udp_iface_reference cfg);
          line = (\<lambda>name v. ''  '' @ name @ '' = '' @ v @ newline);
          addr = (\<lambda>ip port. c_str ip @ '':'' @ to_string (unat (port :: u16)))
      in c_str (tunnel_alias t) @ '' ('' @ modeName t @ '')'' @ newline @ line ''udp_interface'' (c_str iface) @
         (if is_client cfg then
            line ''udp_group'' (addr (udp_dst_ip cfg) (udp_dst_port cfg)) @
            line ''tcp_server'' (addr (tcp_srv_ip cfg) (tcp_srv_port cfg))
          else
            line ''tcp_listen_port'' (to_string (unat (tcp_srv_port cfg))) @
            (if use_clt_grp cfg then line ''udp_destination'' kReplicateClientDestination
             else line ''udp_destination'' (addr (udp_dst_ip cfg) (udp_dst_port cfg)))))"

definition usage_lines :: "string \<Rightarrow> string list" where
  "usage_lines binary =
     [''Usage:'', ''Named tunnels:'',
      ''    '' @ binary @ '' config init [--config <path>]'',
      ''    '' @ binary @ '' config path [--config <path>]'',
      ''    '' @ binary @ '' config edit [--config <path>]'',
      ''    '' @ binary @ '' tunnel list [--config <path>]'',
      ''    '' @ binary @ '' tunnel show <alias> [--config <path>]'',
      ''    '' @ binary @ '' tunnel validate [alias] [--config <path>]'',
      ''    '' @ binary @ '' tunnel run <alias> [--verbose] [--config <path>]'',
      ''    '' @ binary @ '' producer <client-alias> [--verbose] [--config <path>] [--interval-ms <ms>]'' @
        '' [--count <n>] [--payload-prefix <text>]'',
      ''    '' @ binary @ '' control serve [--config <path>] [--port <port>]'',
      [], ''Direct invocation:'', ''Server mode:'',
      ''    '' @ binary @ '' --server -i <udp_interface> -t <tcp_listen_port> [-u <udp_dst_ip>:<port>] [--verbose]'',
      ''Client mode:'',
      ''    '' @ binary @ '' --client -i <udp_interface> -t <tcp_srv_ip>:<tcp_srv_port> -u <udp_dst_ip>:<port> [--verbose]'']"

definition printUsage :: "string \<Rightarrow> string" where
  "printUsage binary = concat (map (\<lambda>line. line @ newline) (usage_lines binary))"

section \<open>Commands\<close>

text \<open>
  The surroundings of the program. The last fields say what the parts that run do: \<open>None\<close> when they return,
  else what they throw.
\<close>

record program_env =
  prog_os :: os
  prog_getenv :: "string \<Rightarrow> string option"
  prog_version :: string
  prog_startup :: startup_answer
  prog_directories :: "string option"
  prog_creatable :: bool
  prog_editor :: "string list \<Rightarrow> editor_result"
  prog_tunneler :: "config \<Rightarrow> string option"
  prog_producer :: "config \<Rightarrow> producer_options \<Rightarrow> string option"
  prog_server :: "string \<Rightarrow> u16 \<Rightarrow> string option"

datatype program_effect =
    Printed string
  | Logged output_call
  | Verbose_output bool
  | Compact_output bool string
  | Edited "string list"
  | Ran_tunneler config
  | Ran_producer config producer_options
  | Ran_server string u16

text \<open>A command: its effects, what it throws or its exit code, and the files it leaves.\<close>

type_synonym command_result = "program_effect list \<times> (string + nat) \<times> file_system"

definition thrown :: "file_system \<Rightarrow> string \<Rightarrow> command_result" where
  "thrown fs message = ([], Inl message, fs)"

text \<open>What a part that runs leaves of the command.\<close>

definition run_result :: "string option \<Rightarrow> string + nat" where
  "run_result r = (case r of None \<Rightarrow> Inr 0 | Some message \<Rightarrow> Inl message)"

definition create_sample :: "program_env \<Rightarrow> string \<Rightarrow> file_system \<Rightarrow> command_result" where
  "create_sample env path fs =
     (case writeSampleConfiguration (prog_directories env) (prog_creatable env) path fs of
        Inl message \<Rightarrow> thrown fs message
      | Inr fs' \<Rightarrow> ([Logged (INFO (''Created sample configuration at '' @ c_str path))], Inr 0, fs'))"

definition edit_step :: "program_env \<Rightarrow> string \<Rightarrow> file_system \<Rightarrow> command_result" where
  "edit_step env path fs =
     (case editConfiguration (os_platform (prog_os env)) (prog_getenv env) (prog_editor env) path of
        Inl message \<Rightarrow> thrown fs message
      | Inr arguments \<Rightarrow> ([Edited arguments], Inr 0, fs))"

definition runConfigCommand :: "program_env \<Rightarrow> string list \<Rightarrow> file_system \<Rightarrow> command_result" where
  "runConfigCommand env ws fs =
     (case parseCommandArguments (os_platform (prog_os env)) (prog_getenv env) False ws of
        Inl message \<Rightarrow> thrown fs message
      | Inr a \<Rightarrow>
          (let path = arg_config_path a in
           if length (positional a) \<noteq> 1 then thrown fs ''config requires exactly one subcommand: init, path, or edit''
           else
             (let subcommand = hd (positional a) in
              if subcommand = ''path'' then ([Printed (c_str path @ newline)], Inr 0, fs)
              else if subcommand = ''init'' then create_sample env path fs
              else if subcommand = ''edit'' then
                (if fs path \<noteq> None then edit_step env path fs
                 else
                   (case create_sample env path fs of
                      (es, Inl message, fs') \<Rightarrow> (es, Inl message, fs')
                    | (es, Inr code, fs') \<Rightarrow>
                        (let (es', result, fs'') = edit_step env path fs' in (es @ es', result, fs''))))
              else thrown fs (''unknown config subcommand '' @ quoted subcommand))))"

definition run_named :: "program_env \<Rightarrow> config \<Rightarrow> bool \<Rightarrow> file_system \<Rightarrow> command_result" where
  "run_named env cfg loud fs =
     (let cfg = cfg\<lparr>verbose_output := loud\<rparr>
      in ([Verbose_output loud, Compact_output (\<not> loud) (compactTunnelContext cfg), Ran_tunneler cfg],
          run_result (prog_tunneler env cfg), fs))"

definition valid_log :: "service \<Rightarrow> string" where
  "valid_log svc =
     ''Configuration is valid ('' @ to_string (length (listTunnels svc)) @ '' tunnel'' @
     (if length (listTunnels svc) = 1 then [] else ''s'') @ '')''"

definition with_service :: "program_env \<Rightarrow> string \<Rightarrow> file_system \<Rightarrow> (service \<Rightarrow> command_result) \<Rightarrow> command_result" where
  "with_service env path fs k =
     (case construct_service (prog_os env) fs path of Inl message \<Rightarrow> thrown fs message | Inr svc \<Rightarrow> k svc)"

definition with_tunnel ::
  "program_env \<Rightarrow> string \<Rightarrow> string \<Rightarrow> file_system \<Rightarrow> (named_tunnel \<Rightarrow> command_result) \<Rightarrow> command_result" where
  "with_tunnel env path al fs k =
     with_service env path fs (\<lambda>svc. case service_tunnel svc al of Inl message \<Rightarrow> thrown fs message | Inr t \<Rightarrow> k t)"

definition runTunnelCommand :: "program_env \<Rightarrow> string list \<Rightarrow> file_system \<Rightarrow> command_result" where
  "runTunnelCommand env ws fs =
     (case parseCommandArguments (os_platform (prog_os env)) (prog_getenv env) True ws of
        Inl message \<Rightarrow> thrown fs message
      | Inr a \<Rightarrow>
          (if positional a = [] then thrown fs ''tunnel requires a subcommand: list, show, validate, or run''
           else
             (let subcommand = hd (positional a); names = tl (positional a); path = arg_config_path a
              in if arg_verbose a \<and> subcommand \<noteq> ''run'' then thrown fs ''--verbose is only supported by tunnel run''
                 else if subcommand = ''list'' then
                   (if names \<noteq> [] then thrown fs ''tunnel list does not accept an alias''
                    else with_service env path fs (\<lambda>svc. ([Printed (printTunnelList (listTunnels svc))], Inr 0, fs)))
                 else if subcommand = ''validate'' then
                   (if 1 < length names then thrown fs ''tunnel validate accepts at most one alias''
                    else if names \<noteq> [] then
                      with_tunnel env path (hd names) fs (\<lambda>t. ([Logged (INFO (''Tunnel '' @ quoted (c_str (tunnel_alias t)) @
                        '' is valid ('' @ modeName t @ '')''))], Inr 0, fs))
                    else with_service env path fs (\<lambda>svc. ([Logged (INFO (valid_log svc))], Inr 0, fs)))
                 else if length names \<noteq> 1 then thrown fs (''tunnel '' @ subcommand @ '' requires exactly one alias'')
                 else with_tunnel env path (hd names) fs (\<lambda>t.
                   if subcommand = ''show'' then ([Printed (printTunnel t)], Inr 0, fs)
                   else if subcommand = ''run'' then run_named env (tunnel_config t) (arg_verbose a) fs
                   else thrown fs (''unknown tunnel subcommand '' @ quoted subcommand)))))"

definition runProducerCommand :: "program_env \<Rightarrow> string list \<Rightarrow> file_system \<Rightarrow> command_result" where
  "runProducerCommand env ws fs =
     (case parseProducerCommand (os_platform (prog_os env)) (prog_getenv env) ws of
        Inl message \<Rightarrow> thrown fs message
      | Inr c \<Rightarrow>
          with_tunnel env (producer_path c) (producer_alias c) fs (\<lambda>t.
            if \<not> is_client (tunnel_config t) then
              thrown fs (''producer alias '' @ quoted (tunnel_alias t) @ '' must name a client tunnel'')
            else
              (let cfg = tunnel_config t; opts = producer_opts c;
                   es = [Verbose_output (producer_verbose c), Compact_output (\<not> producer_verbose c) (compactProducerContext cfg opts)]
               in case construct_producer cfg opts of
                    Inl message \<Rightarrow> (es, Inl message, fs)
                  | Inr _ \<Rightarrow> (es @ [Ran_producer cfg opts], run_result (prog_producer env cfg opts), fs))))"

definition runControlCommand :: "program_env \<Rightarrow> string list \<Rightarrow> file_system \<Rightarrow> command_result" where
  "runControlCommand env ws fs =
     (case parseControlCommand (os_platform (prog_os env)) (prog_getenv env) ws of
        Inl message \<Rightarrow> thrown fs message
      | Inr c \<Rightarrow>
          with_service env (control_path c) fs (\<lambda>svc.
            ([Logged (INFO (''Local control dashboard listening at http://127.0.0.1:'' @ to_string (unat (control_port c)))),
              Ran_server (control_path c) (control_port c)],
             run_result (prog_server env (control_path c) (control_port c)), fs)))"

section \<open>The program\<close>

text \<open>How the program ends: with an exit code, by \<open>DEATH\<close>, or by an exception that nothing catches.\<close>

datatype program_end = Exit_code nat | Died string | Terminated

definition log_error :: "string \<Rightarrow> program_effect" where
  "log_error message = Logged (LogMessage Error message)"

definition catch_errors :: "command_result \<Rightarrow> program_effect list \<times> program_end \<times> file_system" where
  "catch_errors r =
     (case r of
        (es, Inl message, fs) \<Rightarrow> (es @ [log_error (c_str message)], Exit_code 1, fs)
      | (es, Inr code, fs) \<Rightarrow> (es, Exit_code code, fs))"

definition named_command :: "program_env \<Rightarrow> string list \<Rightarrow> file_system \<Rightarrow> command_result option" where
  "named_command env ws fs =
     (case ws of
        [] \<Rightarrow> None
      | w # ws' \<Rightarrow>
          if w = ''config'' then Some (runConfigCommand env ws' fs)
          else if w = ''tunnel'' then Some (runTunnelCommand env ws' fs)
          else if w = ''producer'' then Some (runProducerCommand env ws' fs)
          else if w = ''control'' then Some (runControlCommand env ws' fs)
          else None)"

definition direct_run :: "program_env \<Rightarrow> config \<Rightarrow> file_system \<Rightarrow> command_result" where
  "direct_run env cfg fs =
     ([Verbose_output (verbose_output cfg), Compact_output (\<not> verbose_output cfg) (compactTunnelContext cfg), Ran_tunneler cfg] @
        (case prog_tunneler env cfg of None \<Rightarrow> [Logged (INFO ''Exiting program'')] | Some message \<Rightarrow> []),
      run_result (prog_tunneler env cfg), fs)"

definition direct_invocation ::
  "program_env \<Rightarrow> string \<Rightarrow> string list \<Rightarrow> file_system \<Rightarrow> program_effect list \<times> program_end \<times> file_system" where
  "direct_invocation env binary ws fs =
     (let loud = (''--verbose'' \<in> set ws); start = [Verbose_output loud, Compact_output (\<not> loud) []];
          (log, result) = parseCommandLineConfig ws default_config; es = start @ map Logged log
      in case result of
           Inl (Exit_death message) \<Rightarrow> (es, Died message, fs)
         | Inl Uncaught_out_of_range \<Rightarrow> (es, Terminated, fs)
         | Inr (enough, cfg) \<Rightarrow>
             if \<not> enough then (es @ [Printed (printUsage (c_str binary))], Exit_code 1, fs)
             else (let (es', r) = catch_errors (direct_run env cfg fs) in (es @ es', r)))"

definition main_program ::
  "program_env \<Rightarrow> string \<Rightarrow> string list \<Rightarrow> file_system \<Rightarrow> program_effect list \<times> program_end \<times> file_system" where
  "main_program env binary ws fs =
     (if ws = [''--version''] \<or> ws = [''-V''] then
        ([Printed (''dgramtunneler '' @ prog_version env @ newline)], Exit_code 0, fs)
      else
        (case snd (initializeNetwork (os_platform (prog_os env)) (prog_startup env)) of
           Some e \<Rightarrow> ([log_error (''Could not initialize network support. Error '' @ show_int e)], Exit_code 1, fs)
         | None \<Rightarrow>
             (case named_command env ws fs of
                Some r \<Rightarrow> catch_errors r
              | None \<Rightarrow> direct_invocation env binary ws fs)))"

section \<open>Properties\<close>

text \<open>A word with every character escaped.\<close>

definition escape_word :: "string \<Rightarrow> string" where
  "escape_word w = concat (map (\<lambda>c. [CHR 0x5C, c]) w)"

lemma split_escaped:
  assumes "\<not> escaping s"
  shows "fold split_char (escape_word w) s = s\<lparr>current_word := current_word s @ w\<rparr>"
  using assms
proof (induction w arbitrary: s)
  case (Cons c w)
  have "fold split_char [CHR 0x5C, c] s = s\<lparr>current_word := current_word s @ [c]\<rparr>"
    using Cons.prems by (simp add: split_char_def)
  moreover have "fold split_char (escape_word w) (s\<lparr>current_word := current_word s @ [c]\<rparr>) =
      s\<lparr>current_word := current_word s @ c # w\<rparr>"
    using Cons.IH [of "s\<lparr>current_word := current_word s @ [c]\<rparr>"] Cons.prems by simp
  ultimately show ?case
    by (simp add: escape_word_def)
qed (simp add: escape_word_def)

fun spaced :: "string list \<Rightarrow> string" where
  "spaced [] = []"
| "spaced [w] = escape_word w"
| "spaced (w # v # ws) = escape_word w @ CHR '' '' # spaced (v # ws)"

lemma split_spaced:
  assumes "list_all (\<lambda>w. w \<noteq> []) ws" and "ws \<noteq> []" and "\<not> escaping s" and "open_quote s = None" and "current_word s = []"
  shows "fold split_char (spaced ws) s = s\<lparr>finished_words := finished_words s @ butlast ws, current_word := last ws\<rparr>"
  using assms
proof (induction ws arbitrary: s rule: spaced.induct)
  case (2 w)
  then show ?case by (simp add: split_escaped)
next
  case (3 w v ws)
  let ?s = "s\<lparr>finished_words := finished_words s @ [w]\<rparr>"
  have "isspace (CHR '' '')"
    by code_simp
  then have "fold split_char (escape_word w @ [CHR '' '']) s = ?s"
    using 3 by (simp add: split_escaped split_char_def)
  then have "fold split_char (spaced (w # v # ws)) s = fold split_char (spaced (v # ws)) ?s"
    by simp
  with 3 show ?case by simp
qed simp

text \<open>
  Any editor command can be written in \<open>VISUAL\<close> or \<open>EDITOR\<close>: with a backslash before every character,
  words of any characters (quotes, blanks and backslashes too) are read back as they are.
\<close>

theorem editor_round_trip:
  assumes "list_all (\<lambda>w. w \<noteq> []) ws" and "ws \<noteq> []"
  shows "splitEditorCommand (spaced ws) = Inr ws"
proof -
  have "last ws \<noteq> []"
    using assms by (auto simp: list_all_iff)
  then show ?thesis
    using split_spaced [OF assms, of start_splitter] assms(2)
    by (simp add: splitEditorCommand_def start_splitter_def Let_def)
qed

theorem editor_round_trip_witness:
  "splitEditorCommand (spaced [''my editor'', [CHR 0x22, CHR 0x5C]]) = Inr [''my editor'', [CHR 0x22, CHR 0x5C]]"
  using editor_round_trip [of "[''my editor'', [CHR 0x22, CHR 0x5C]]"] by simp

text \<open>
  A size on the command line: every number from 1 to \<open>2 ^ 64 - 1\<close> is read as itself, zero is refused, and
  text after the digits is refused; but a minus sign is accepted, and \<open>-n\<close> is read as \<open>2 ^ 64 - n\<close>.
\<close>

theorem positive_size_reads:
  assumes "0 < n" and "n < 2 ^ 64" and "junk \<noteq> []" and "\<not> isdigit (hd junk)"
  shows "parsePositiveSize (to_string n) option_name = Inr n \<and>
    parsePositiveSize (to_string 0) option_name = Inl (option_name @ '' must be a positive integer'') \<and>
    parsePositiveSize (to_string n @ junk) option_name = Inl (option_name @ '' must be a positive integer'') \<and>
    parsePositiveSize (CHR ''-'' # to_string n) option_name = Inr (2 ^ 64 - n)"
  using assms stoul_negative [of n] stoul_with_junk [of n junk]
  by (simp add: parsePositiveSize_def Let_def)

theorem positive_size_reads_witness:
  "parsePositiveSize (to_string 5) ''--count'' = Inr 5 \<and>
   parsePositiveSize (to_string 5 @ ''k'') ''--count'' = Inl (''--count'' @ '' must be a positive integer'') \<and>
   parsePositiveSize (CHR ''-'' # to_string 5) ''--count'' = Inr (2 ^ 64 - 5)"
proof -
  have "\<not> isdigit (CHR ''k'')"
    by code_simp
  then show ?thesis
    using positive_size_reads [of 5 "''k''" "''--count''"] by simp
qed

section \<open>Named tunnels and direct tunnels\<close>

text \<open>The configurations with which a run of the program has started a tunnel.\<close>

definition started :: "program_effect list \<Rightarrow> config list" where
  "started es = concat (map (\<lambda>e. case e of Ran_tunneler cfg \<Rightarrow> [cfg] | _ \<Rightarrow> []) es)"

lemma started_simps [simp]:
  "started [] = []"
  "started (Ran_tunneler cfg # es) = cfg # started es"
  "started (Logged c # es) = started es"
  "started (Verbose_output b # es) = started es"
  "started (Compact_output b context # es) = started es"
  "started (es @ es') = started es @ started es'"
  "started (map Logged calls) = []"
  by (simp_all add: started_def)

lemma catch_errors_started [simp]: "started (fst (catch_errors (es, result, fs))) = started es"
  by (cases result) (simp_all add: catch_errors_def log_error_def)

lemma named_run:
  assumes "path \<noteq> []" and "al \<notin> {''--config'', ''--verbose''}" and "construct_service (prog_os env) fs path = Inr svc"
    and "service_tunnel svc al = Inr t"
  shows "named_command env [''tunnel'', ''run'', al, ''--config'', path] fs = Some (run_named env (tunnel_config t) False fs)"
  using assms
  by (simp add: named_command_def runTunnelCommand_def parseCommandArguments_def with_default_path_def with_tunnel_def
      with_service_def Let_def)

lemma direct_words:
  assumes "loaded_config os cfg" and "CHR '' '' \<notin> set (udp_iface_reference cfg)"
    and "command_word (tcp_srv_ip cfg)" and "command_word (udp_dst_ip cfg)"
  shows "\<exists>ws. tl (words (directCommand \<lparr>tunnel_alias = al, tunnel_config = cfg\<rparr>)) = ''--client'' # ''-i'' # ws \<or>
    tl (words (directCommand \<lparr>tunnel_alias = al, tunnel_config = cfg\<rparr>)) = ''--server'' # ''-i'' # ws"
  unfolding command_arguments [OF assms] by auto

text \<open>
  C10. A saved tunnel and the direct command that the program shows for it are the same tunnel: whether
  started by name from a configuration that loads, or with the words of the command, the program starts one
  tunnel and no other, and the constructor makes the same tunneler of both configurations or throws the same
  error. (For texts without spaces and colons, and an alias that is not spelled like an option.)
\<close>

theorem named_equals_direct:
  assumes "snd (initializeNetwork (os_platform (prog_os env)) (prog_startup env)) = None" and "ntop_readable (prog_os env)"
    and "construct_service (prog_os env) fs path = Inr svc" and "service_tunnel svc al = Inr t"
    and "path \<noteq> []" and "al \<notin> {''--config'', ''--verbose''}" and "CHR '' '' \<notin> set (udp_iface_reference (tunnel_config t))"
    and "command_word (tcp_srv_ip (tunnel_config t))" and "command_word (udp_dst_ip (tunnel_config t))"
  shows "\<exists>cfg cfg'. started (fst (main_program env binary [''tunnel'', ''run'', al, ''--config'', path] fs)) = [cfg] \<and>
    started (fst (main_program env binary (tl (words (directCommand t))) fs)) = [cfg'] \<and>
    construct_tunneler (prog_os env) sys cfg = construct_tunneler (prog_os env) sys cfg'"
proof -
  let ?os = "prog_os env"
  obtain a cfg where t: "t = \<lparr>tunnel_alias = a, tunnel_config = cfg\<rparr>"
    by (cases t) auto
  have "t \<in> set (configuration svc)"
    using assms(4) by (auto simp: service_tunnel_def findTunnel_def find_Some_iff split: option.splits)
  moreover have "\<exists>toml. parseConfiguration ?os toml = Inr (configuration svc)"
    using assms(3) by (auto simp: construct_service_def and_then_eq_Inr loadConfiguration_def split: option.splits)
  ultimately have loaded: "loaded_config ?os cfg"
    using loaded_tunnels by (fastforce simp: list_all_iff t)
  note text_ok = assms(7-9) [unfolded t, simplified]
  let ?ws = "tl (words (directCommand t))"
  obtain cfg' where parsed: "snd (parseCommandLineConfig ?ws default_config) = Inr (True, cfg')"
    and resolved: "resolve_config ?os cfg' = Inr cfg"
    using direct_command_round_trip [OF loaded text_ok] unfolding t by blast
  have l: "udp_iface_reference cfg \<noteq> []" "resolveInterfaceIpv4 ?os (udp_iface_reference cfg) = Some (udp_iface_ip cfg)"
    "\<not> verbose_output cfg"
    using loaded by (simp_all add: loaded_config_def)
  have "resolve_config ?os cfg = Inr cfg"
    using l resolve_idem [OF assms(2) l(2)] by (simp add: resolve_config_def Let_def)
  with resolved have same: "construct_tunneler ?os sys cfg = construct_tunneler ?os sys cfg'"
    by (simp add: construct_tunneler_def)
  have "started (fst (main_program env binary [''tunnel'', ''run'', al, ''--config'', path] fs)) = [cfg]"
  proof -
    have "cfg\<lparr>verbose_output := False\<rparr> = cfg"
      using l(3) by (cases cfg) simp
    then show ?thesis
      using named_run [OF assms(5,6,3,4)] assms(1)
      by (simp add: main_program_def run_named_def t Let_def)
  qed
  moreover have "started (fst (main_program env binary ?ws fs)) = [cfg']"
  proof -
    obtain log where log: "parseCommandLineConfig ?ws default_config = (log, Inr (True, cfg'))"
      using parsed by (metis surjective_pairing)
    have "?ws \<noteq> [''--version'']" "?ws \<noteq> [''-V'']" "named_command env ?ws fs = None"
      using direct_words [OF loaded text_ok, of a] by (auto simp: t named_command_def)
    then have "main_program env binary ?ws fs = direct_invocation env binary ?ws fs"
      using assms(1) by (simp add: main_program_def)
    then show ?thesis
      by (simp add: direct_invocation_def log direct_run_def Let_def case_prod_beta split: option.split)
  qed
  ultimately show ?thesis
    using same by blast
qed

end
