(* ===== verification/Example_Program.thy ===== *)
theory Example_Program
  imports Main_Program Example_Config
begin

text \<open>
  Closed instances of the theorems on the whole program. They model no code under \<open>src/\<close>.
\<close>

definition example_program :: program_env where
  "example_program = \<lparr>prog_os = example_os, prog_getenv = (\<lambda>name. None), prog_version = ''1.0'',
     prog_startup = \<lparr>startup_result = 0, version_low = 2, version_high = 2\<rparr>, prog_directories = None,
     prog_creatable = True, prog_editor = (\<lambda>arguments. Exit_status 0), prog_tunneler = (\<lambda>cfg. None),
     prog_producer = (\<lambda>cfg opts. None), prog_server = (\<lambda>path port. None)\<rparr>"

theorem named_equals_direct_witness:
  "\<exists>cfg cfg'. started (fst (main_program example_program ''dgramtunneler''
        [''tunnel'', ''run'', ''example-client'', ''--config'', ''config.toml''] (\<lambda>path. Some sample_text))) = [cfg] \<and>
    started (fst (main_program example_program ''dgramtunneler''
        (tl (words (directCommand \<lparr>tunnel_alias = ''example-client'', tunnel_config = sample_client\<rparr>)))
        (\<lambda>path. Some sample_text))) = [cfg'] \<and>
    construct_tunneler example_os (\<lambda>call. None) cfg = construct_tunneler example_os (\<lambda>call. None) cfg'"
proof -
  let ?t = "\<lparr>tunnel_alias = ''example-client'', tunnel_config = sample_client\<rparr>"
  have os: "prog_os example_program = example_os"
    "snd (initializeNetwork (os_platform (prog_os example_program)) (prog_startup example_program)) = None"
    by (simp_all add: example_program_def initializeNetwork_def)
  obtain svc where svc: "construct_service (prog_os example_program) (\<lambda>path. Some sample_text) ''config.toml'' = Inr svc"
    "service_tunnel svc ''example-client'' = Inr ?t"
    by (simp add: os construct_service_def loadConfiguration_def example_sample service_tunnel_def findTunnel_def)
  have "command_word (tcp_srv_ip sample_client)" "command_word (udp_dst_ip sample_client)"
    "CHR '' '' \<notin> set (udp_iface_reference sample_client)"
    by (simp_all add: sample_client_def command_word_def)
  then show ?thesis
    using named_equals_direct [OF os(2) _ svc, of "''dgramtunneler''" "\<lambda>call. None"] ntop_readable_example
    by (simp add: os(1))
qed

end
