(* ===== verification/Spec2Isabelle.thy ===== *)
theory Spec2Isabelle
  imports Managed_Tunnel Example_Control Example_Program
begin

text \<open>
  A verification library for DatagramTunneler, a program that carries UDP multicast datagrams over a TCP
  connection. A client joins a multicast group, packs each datagram it receives into a frame (the DTEP
  protocol) and sends it over TCP; a server reads the stream and publishes the datagrams again. Around this
  engine there are a configuration file with named tunnels, a live view of the terminal, a producer of test
  datagrams, and a local control server (HTTP and WebSocket) that starts and stops tunnels in worker threads.

  \<^bold>\<open>What the theories model\<close> (all paths below \<open>src/src/\<close>; a definition has the name of the function it
  translates, or of the step of it that its comment names).

  \<^item> \<open>Prelude\<close>, \<open>Cxx_Strings\<close>, \<open>Doubles\<close>, \<open>String_Map\<close>: bytes, memory images and byte orders; what the
    sources use of \<open>std::string\<close>, of the number conversions, of IEEE doubles (rational values rounded to 53
    bits) and of \<open>std::map\<close> with string keys (a list that stays sorted). The contracts that several
    components share are locales: \<open>step_invariant\<close> (machines and what their runs keep) and \<open>stream_code\<close>
    (codes read from the front of a stream) in \<open>Prelude\<close>, \<open>ordered_map\<close> in \<open>String_Map\<close>,
    \<open>framed_receiver\<close> in \<open>Framed_Stream\<close>; each is interpreted where a component provides it.
  \<^item> \<open>Protocol\<close>: \<open>Protocol.h\<close>, the packed packet and its memory image. \<open>Network\<close>,
    \<open>Socket_Owner\<close>: \<open>Network.h\<close> and \<open>Network.cpp\<close>, error classes, time-outs, the resolution of an
    interface, start-up, blocking mode, and the class \<open>Socket\<close> that owns handles.
  \<^item> \<open>Tunneler\<close>, \<open>Tunnel_Client\<close>, \<open>Tunnel_Server\<close>, \<open>Tunnel_Link\<close>: \<open>DatagramTunneler.h\<close> and
    \<open>DatagramTunneler.cpp\<close>: configuration, construction, the connection attempt, the client loop, the server
    loop, and both composed. What the system calls and clocks return comes in as a list of inputs, one for
    each turn of a loop; what is sent, published and logged goes out as a trace.
  \<^item> \<open>LiveOutput\<close>: \<open>LiveOutput.h\<close>, \<open>LiveOutput.cpp\<close> and the macros of \<open>Log.h\<close>.
  \<^item> \<open>Configuration\<close>, \<open>Command_Line\<close>: \<open>Configuration.cpp\<close> (parser, checks, sample, default path) and
    \<open>CommandLine.cpp\<close>. The file system is a map from paths to texts.
  \<^item> \<open>Control_Service\<close>, \<open>Control_Types\<close>: \<open>control/ControlService.cpp\<close> and \<open>control/ControlTypes.h\<close>.
  \<^item> \<open>Managed_Runtime\<close>: \<open>control/ManagedTunnelRuntime.cpp\<close>, worker threads and callers as a step relation
    with one step for each critical section or publication. \<open>Runtime_Invariants\<close> and \<open>Runtime_Properties\<close>
    hold its invariants and theorems, \<open>Runtime_History\<close> what it shows of a worker as a function of what the
    worker's thread reported. \<open>Managed_Tunnel\<close>: the functions its threads run, composed of the tunneler, the
    producer and the worker they report to.
  \<^item> \<open>Http_Text\<close>, \<open>Json_Text\<close>, \<open>Websocket\<close>, \<open>Local_Server\<close>, \<open>Server_Run\<close>:
    \<open>control/LocalControlServer.cpp\<close> from the bytes of a request up to the routes, the listener and the run, a
    machine whose steps are the tests of the loops, a connection up to its response, each message to a
    subscriber and each section under the mutex of the subscribers, so that greetings, broadcasts of several
    threads, metrics and a stop interleave; with the paths of \<open>control/ControlApi.h\<close>. \<open>Server_Stream\<close> holds what
    is true of this machine in every interleaving. \<open>Json_Reader\<close> and \<open>Json_Messages\<close> hold a reader after RFC 8259 and the values of
    the messages.
  \<^item> \<open>Producer\<close>: \<open>Producer.cpp\<close>. \<open>Main_Program\<close>: \<open>main.cpp\<close>.
  \<^item> \<open>Example_OS\<close>, \<open>Example_Run\<close>, \<open>Example_Config\<close>, \<open>Example_Server\<close>, \<open>Example_Control\<close>,
    \<open>Example_Program\<close>: concrete machines and inputs, at which the theorems with hypotheses are applied.

  \<^bold>\<open>What the theorems show.\<close>

  \<^item> Engine: client and server publish the received datagrams in order, once each, for every cutting of the
    TCP stream, and a prefix of them when the client ends early; the server never writes outside its packet
    while announced lengths are legal (and does when one is not); a wrong preamble ends the run; the
    connection attempt is sound and ends.
  \<^item> Live view: the ring buffer of events refines the history of calls; the statistics stay in bounds.
  \<^item> Configuration: what loads is well-formed, what is printed loads again, the direct command shown for a
    tunnel denotes that tunnel; a replacement of the file changes file and catalogue together or neither, but
    for the ways in which the sources can lose or cut the text, which are stated.
  \<^item> Runtime: bounded histories and a consistent table in every reachable state, finished workers stay
    finished, no lost threads with one caller (and one with two), a refused start or stop leaves no trace (a
    refused restart can); metrics are exactly those of the reports in every interleaving, and those of a
    managed server count exactly the datagrams its client forwarded; the events of a tunnel's thread from its beginning to its end.
  \<^item> Control server: requests are read whatever the cutting of the stream; each gets one reply, and
    what a refusal leaves is stated; the handshake key is the SHA-1 of FIPS 180-4; frames are read back; a
    subscriber gets exactly the events whose broadcast began after its registration, once each and in order;
    replies and events are well-formed JSON with the values they stand for; file and catalogue of the server
    differ only after the losses named; it stops.
  \<^item> Sockets: every handle given to an owner is held, closed or released, exactly once.
  \<^item> Producer and program: consecutive numbers without gaps; a tunnel started by its name and one started
    by the direct command shown for it are the same; what sizes and editor commands are read as.

  \<^bold>\<open>Bounds.\<close> The loops that the environment drives are structurally recursive over the list of its
  answers, and end in \<open>Blocked\<close> when the list is used up; no theorem depends on a bound for it, except that the
  producer counts in 64 bits. Loops over data have termination proofs. Integers have the widths of the
  sources where they can wrap: ports, lengths, counters and the words of SHA-1 are words. The JSON reader
  has a depth argument, for which the length of the text is shown to be enough.

  \<^bold>\<open>Parameters.\<close> The operating system (\<open>os\<close>, \<open>sys\<close>): \<open>inet_pton\<close>, interfaces, byte order, results of
  socket calls, directories, failures of file operations. In \<open>Managed_Runtime\<close> the worker threads are
  free choices of observable actions; \<open>Managed_Tunnel\<close> instantiates them with the functions the code gives to
  the threads. The generated web assets are arguments.

  \<^bold>\<open>Not modelled.\<close> The wrappers \<open>lastSocketError\<close> and \<open>setSocketOption\<close>, whose calls are inputs of the functions
  that use them; the conversion of Windows adapter names to UTF-8; a connection interrupted before its
  response is sent (in the model this part is one step); \<open>unsigned long\<close> of 32 bits; the structs of
  \<open>ControlApi.h\<close> and the abstract class
  of \<open>TunnelRuntime.h\<close>, which hold no code that runs; the dashboard, the tests and the packaging.
\<close>

end
